(* ===== verification/Prelude.thy ===== *)
theory Prelude
  imports Main
begin

text \<open>
  What every component of the development shares: Go's error values and the functions of the
  standard package errors on them, results of fallible calls, Go's built-in map together with the
  iteration order the runtime chooses, and generic lemmas on lists and association lists.
\<close>

named_theorems go_err \<comment> \<open>rewrite rules for error values\<close>
named_theorems go_map \<comment> \<open>rewrite rules for Go's built-in maps\<close>

section \<open>Error values\<close>

text \<open>
  A Go error is nil or an error object. Objects made by \<open>errors.New\<close> are compared by identity and
  are named here by the package-level variable that holds them. The other constructors are the
  error types the repository builds or inspects:
  \<^item> \<open>CTXError w msg\<close>: an error of package ctxerrors with the error it wraps (None for nil);
  \<^item> \<open>JoinError es\<close>: what \<open>errors.Join\<close> makes of its non-nil arguments;
  \<^item> \<open>DatabaseError orig err query\<close>: golang-migrate's database.Error, which has no Unwrap method;
  \<^item> \<open>HTTPError code msg\<close>: echo's HTTP error;
  \<^item> \<open>WrapError s e\<close>: an error of another package with an Unwrap method (fs.PathError, fmt.Errorf with %w);
  \<^item> \<open>TypedError ty n\<close>: an error object of a concrete type the code tests for with errors.As;
  \<^item> \<open>Foreign s\<close>: any other error of code outside the repository.
\<close>

datatype go_error =
    ErrNew string
  | CTXError "go_error option" string
  | JoinError "go_error list"
  | DatabaseError "go_error option" string string
  | HTTPError int string
  | WrapError string go_error
  | TypedError string int
  | Foreign string

type_synonym err = "go_error option"
type_synonym 'a res = "go_error + 'a"

text \<open>\<open>errors.Is\<close> on non-nil errors: the error itself, or one it unwraps to.\<close>

fun errors_Is :: "go_error \<Rightarrow> go_error \<Rightarrow> bool" where
  "errors_Is (CTXError (Some e) m) t = (CTXError (Some e) m = t \<or> errors_Is e t)"
| "errors_Is (JoinError es) t = (JoinError es = t \<or> list_ex (\<lambda>e. errors_Is e t) es)"
| "errors_Is (WrapError m e) t = (WrapError m e = t \<or> errors_Is e t)"
| "errors_Is e t = (e = t)"

text \<open>\<open>errors.Is (nil, target)\<close> is false for the non-nil targets the code uses.\<close>

fun err_is :: "err \<Rightarrow> go_error \<Rightarrow> bool" where
  "err_is None t = False"
| "err_is (Some e) t = errors_Is e t"

text \<open>\<open>errors.Join\<close>: nil arguments are dropped, and no error is left when all are nil.\<close>

definition somes :: "'a option list \<Rightarrow> 'a list" where
  "somes xs = List.map_filter id xs"

definition errors_Join :: "err list \<Rightarrow> err" where
  "errors_Join es = (case somes es of [] \<Rightarrow> None | e # es' \<Rightarrow> Some (JoinError (e # es')))"

lemma somes_simps [simp]:
  "somes [] = []" "somes (None # xs) = somes xs" "somes (Some x # xs) = x # somes xs"
  by (simp_all add: somes_def List.map_filter_simps)

lemma set_somes [simp]: "set (somes xs) = {x. Some x \<in> set xs}"
proof (induction xs)
  case (Cons a xs)
  then show ?case by (cases a) auto
qed simp

lemma errors_Is_refl [simp]: "errors_Is e e"
  by (cases "(e, e)" rule: errors_Is.cases) auto

lemma errors_Join_None_iff [go_err]: "errors_Join es = None \<longleftrightarrow> (\<forall>e\<in>set es. e = None)"
proof -
  have "somes es = [] \<longleftrightarrow> (\<forall>e\<in>set es. e = None)"
  proof (induction es)
    case (Cons a es)
    then show ?case by (cases a) auto
  qed simp
  then show ?thesis by (auto simp: errors_Join_def split: list.splits)
qed

lemma errors_Join_pair [simp]:
  "errors_Join [None, None] = None"
  "errors_Join [Some a, None] = Some (JoinError [a])"
  "errors_Join [None, Some b] = Some (JoinError [b])"
  "errors_Join [Some a, Some b] = Some (JoinError [a, b])"
  by (simp_all add: errors_Join_def)

text \<open>A sentinel is an object of \<open>errors.New\<close>; joining keeps what each part is.\<close>

lemma err_is_Join_sentinel [go_err]:
  "err_is (errors_Join es) (ErrNew s) \<longleftrightarrow> (\<exists>e\<in>set es. err_is e (ErrNew s))"
proof -
  have "list_ex (\<lambda>e. errors_Is e (ErrNew s)) (somes es) \<longleftrightarrow> (\<exists>e\<in>set es. err_is e (ErrNew s))"
  proof (induction es)
    case (Cons a es)
    then show ?case by (cases a) auto
  qed simp
  then show ?thesis
    by (cases "somes es") (auto simp: errors_Join_def)
qed

section \<open>Go's built-in map\<close>

text \<open>
  A map is an association list with distinct keys; lookup is \<open>map_of\<close>. The language leaves the
  iteration order of a map open, so every loop over a map takes the order the runtime happens to
  choose as an argument, a list that enumerates the keys once each (\<open>map_order\<close>).
\<close>

type_synonym ('k, 'v) gomap = "('k \<times> 'v) list"

definition map_ok :: "('k, 'v) gomap \<Rightarrow> bool" where
  "map_ok m \<longleftrightarrow> distinct (map fst m)"

definition map_order :: "('k, 'v) gomap \<Rightarrow> 'k list \<Rightarrow> bool" where
  "map_order m ks \<longleftrightarrow> distinct ks \<and> set ks = set (map fst m)"

text \<open>\<open>m[k] = v\<close>\<close>

fun map_put :: "'k \<Rightarrow> 'v \<Rightarrow> ('k, 'v) gomap \<Rightarrow> ('k, 'v) gomap" where
  "map_put k v [] = [(k, v)]"
| "map_put k v ((k', v') # m) = (if k' = k then (k, v) # m else (k', v') # map_put k v m)"

text \<open>\<open>delete(m, k)\<close>\<close>

definition map_del :: "'k \<Rightarrow> ('k, 'v) gomap \<Rightarrow> ('k, 'v) gomap" where
  "map_del k m = filter (\<lambda>(k', _). k' \<noteq> k) m"

lemma keys_map_put [go_map]: "set (map fst (map_put k v m)) = insert k (set (map fst m))"
  by (induction k v m rule: map_put.induct) auto

lemma map_of_map_put [go_map, simp]: "map_of (map_put k v m) = (map_of m)(k \<mapsto> v)"
  by (induction k v m rule: map_put.induct) (auto simp: fun_eq_iff)

lemma map_ok_put [go_map, simp, intro]: "map_ok m \<Longrightarrow> map_ok (map_put k v m)"
  unfolding map_ok_def
  by (induction k v m rule: map_put.induct)
    (auto simp: keys_map_put simp del: set_map list.set_map)

lemma map_of_map_del [go_map, simp]: "map_of (map_del k m) = (map_of m)(k := None)"
  unfolding map_del_def by (induction m) (auto simp: fun_eq_iff)

lemma keys_map_del [go_map]: "set (map fst (map_del k m)) = set (map fst m) - {k}"
  unfolding map_del_def by (induction m) auto

lemma map_ok_del [go_map, simp, intro]: "map_ok m \<Longrightarrow> map_ok (map_del k m)"
  unfolding map_ok_def map_del_def by (induction m) auto

lemma map_ok_Nil [simp]: "map_ok []"
  by (simp add: map_ok_def)

lemma length_map_ok: "map_ok m \<Longrightarrow> length m = card (dom (map_of m))"
  by (metis distinct_card dom_map_of_conv_image_fst length_map list.set_map map_ok_def)

lemma length_map_del:
  assumes "map_ok d" and "map_of d k = Some v"
  shows "length d = length (map_del k d) + 1"
proof -
  have "k \<in> dom (map_of d)" using assms(2) by blast
  then show ?thesis
    using assms(1) by (simp add: length_map_ok finite_dom_map_of card_Diff_singleton)
      (metis card_gt_0_iff empty_iff finite_dom_map_of Suc_pred)
qed

lemma map_order_own: "map_ok m \<Longrightarrow> map_order m (map fst m)"
  by (simp add: map_ok_def map_order_def)

lemma map_order_length: "map_ok m \<Longrightarrow> map_order m ks \<Longrightarrow> length ks = length m"
  by (metis distinct_card length_map map_ok_def map_order_def)

end
