(* ===== verification/TypesMap.thy ===== *)
theory TypesMap
  imports Prelude
begin

text \<open>
  Package commontypes (src/types/map.go): the generic locked map. Every method runs its whole body
  under the map's read-write lock, so a method is one atomic step on the field \<open>data\<close> here; theory MapLocks
  shows that the lock makes it so. Iterating methods take the iteration order
  the runtime chooses.
\<close>

section \<open>State and operations\<close>

record ('k, 'v) Map =
  data :: "('k, 'v) gomap"

definition NewMap :: "('k, 'v) Map" where
  "NewMap = \<lparr>data = []\<rparr>"

definition Map_Set :: "('k, 'v) Map \<Rightarrow> 'k \<Rightarrow> 'v \<Rightarrow> ('k, 'v) Map" where
  "Map_Set m key val = m\<lparr>data := map_put key val (data m)\<rparr>"

text \<open>A missing key gives the zero value of the element type, an argument of the model.\<close>

definition Map_Get :: "'v \<Rightarrow> ('k, 'v) Map \<Rightarrow> 'k \<Rightarrow> 'v \<times> bool" where
  "Map_Get zero m key = (case map_of (data m) key of
     None \<Rightarrow> (zero, False) | Some v \<Rightarrow> (v, True))"

definition Map_Delete :: "'v \<Rightarrow> ('k, 'v) Map \<Rightarrow> 'k \<Rightarrow> ('v \<times> bool) \<times> ('k, 'v) Map" where
  "Map_Delete zero m key = (case map_of (data m) key of
     None \<Rightarrow> ((zero, False), m)
   | Some v \<Rightarrow> ((v, True), m\<lparr>data := map_del key (data m)\<rparr>))"

definition Map_Clear :: "('k, 'v) Map \<Rightarrow> ('k, 'v) gomap \<times> ('k, 'v) Map" where
  "Map_Clear m = (data m, m\<lparr>data := []\<rparr>)"

definition Map_Len :: "('k, 'v) Map \<Rightarrow> nat" where
  "Map_Len m = length (data m)"

definition Map_Has :: "('k, 'v) Map \<Rightarrow> 'k \<Rightarrow> bool" where
  "Map_Has m key = (case map_of (data m) key of None \<Rightarrow> False | Some _ \<Rightarrow> True)"

text \<open>The loops: one element of the iteration order per turn.\<close>

fun keys_loop :: "'k list \<Rightarrow> 'k list \<Rightarrow> 'k list" where
  "keys_loop [] acc = acc"
| "keys_loop (k # ks) acc = keys_loop ks (acc @ [k])"

definition Map_Keys :: "'k list \<Rightarrow> ('k, 'v) Map \<Rightarrow> 'k list" where
  "Map_Keys order m = keys_loop order []"

fun values_loop :: "('k, 'v) gomap \<Rightarrow> 'k list \<Rightarrow> 'v list \<Rightarrow> 'v list" where
  "values_loop d [] acc = acc"
| "values_loop d (k # ks) acc =
     (case map_of d k of None \<Rightarrow> values_loop d ks acc | Some v \<Rightarrow> values_loop d ks (acc @ [v]))"

definition Map_Values :: "'k list \<Rightarrow> ('k, 'v) Map \<Rightarrow> 'v list" where
  "Map_Values order m = values_loop (data m) order []"

text \<open>
  \<open>Range\<close> calls back with a state of the caller's, which may be any type: the callback returns
  whether to go on and the caller's new state.
\<close>

fun range_loop :: "('k \<Rightarrow> 'v \<Rightarrow> 's \<Rightarrow> bool \<times> 's) \<Rightarrow> ('k, 'v) gomap \<Rightarrow> 'k list \<Rightarrow> 's \<Rightarrow> 's" where
  "range_loop fn d [] s = s"
| "range_loop fn d (k # ks) s = (case map_of d k of
     None \<Rightarrow> range_loop fn d ks s
   | Some v \<Rightarrow> (case fn k v s of (go_on, s') \<Rightarrow> if \<not> go_on then s' else range_loop fn d ks s'))"

definition Map_Range :: "('k \<Rightarrow> 'v \<Rightarrow> 's \<Rightarrow> bool \<times> 's) \<Rightarrow> 'k list \<Rightarrow> ('k, 'v) Map \<Rightarrow> 's \<Rightarrow> 's" where
  "Map_Range fn order m s = range_loop fn (data m) order s"

text \<open>\<open>DeleteFunc\<close> deletes from the map it iterates; a deleted key is not produced again.\<close>

fun delete_loop :: "('k \<Rightarrow> 'v \<Rightarrow> bool) \<Rightarrow> 'k list \<Rightarrow> ('k, 'v) gomap \<Rightarrow> nat \<Rightarrow> nat \<times> ('k, 'v) gomap" where
  "delete_loop fn [] d deleted = (deleted, d)"
| "delete_loop fn (k # ks) d deleted = (case map_of d k of
     None \<Rightarrow> delete_loop fn ks d deleted
   | Some v \<Rightarrow> if fn k v then delete_loop fn ks (map_del k d) (deleted + 1)
       else delete_loop fn ks d deleted)"

definition Map_DeleteFunc :: "('k \<Rightarrow> 'v \<Rightarrow> bool) \<Rightarrow> 'k list \<Rightarrow> ('k, 'v) Map \<Rightarrow> nat \<times> ('k, 'v) Map" where
  "Map_DeleteFunc fn order m =
     (case delete_loop fn order (data m) 0 of (n, d) \<Rightarrow> (n, m\<lparr>data := d\<rparr>))"

section \<open>The contract\<close>

text \<open>The invariant: keys are distinct. The abstraction: the finite map the list represents.\<close>

definition Map_inv :: "('k, 'v) Map \<Rightarrow> bool" where
  "Map_inv m \<longleftrightarrow> map_ok (data m)"

definition Map_abs :: "('k, 'v) Map \<Rightarrow> 'k \<Rightarrow> 'v option" where
  "Map_abs m = map_of (data m)"

text \<open>What a client of a keyed store may rely on.\<close>

locale keyed_store =
  fixes empty :: 's
    and put :: "'s \<Rightarrow> 'k \<Rightarrow> 'v \<Rightarrow> 's"
    and remove :: "'s \<Rightarrow> 'k \<Rightarrow> 's"
    and peek :: "'s \<Rightarrow> 'k \<Rightarrow> 'v option"
    and count :: "'s \<Rightarrow> nat"
    and ok :: "'s \<Rightarrow> bool"
  assumes ok_empty: "ok empty"
    and ok_put: "ok s \<Longrightarrow> ok (put s k v)"
    and ok_remove: "ok s \<Longrightarrow> ok (remove s k)"
    and peek_empty: "peek empty = Map.empty"
    and peek_put: "ok s \<Longrightarrow> peek (put s k v) = (peek s)(k \<mapsto> v)"
    and peek_remove: "ok s \<Longrightarrow> peek (remove s k) = (peek s)(k := None)"
    and count_peek: "ok s \<Longrightarrow> count s = card (dom (peek s)) \<and> finite (dom (peek s))"
begin

fun run :: "'s \<Rightarrow> ('k \<times> 'v option) list \<Rightarrow> 's" where
  "run s [] = s"
| "run s ((k, Some v) # ops) = run (put s k v) ops"
| "run s ((k, None) # ops) = run (remove s k) ops"

lemma run_ok: "ok s \<Longrightarrow> ok (run s ops)"
  by (induction s ops rule: run.induct) (auto intro: ok_put ok_remove)

lemma run_append: "run s (xs @ ys) = run (run s xs) ys"
  by (induction s xs rule: run.induct) auto

text \<open>After any sequence of puts and removes the last one on a key decides.\<close>

lemma peek_run:
  "ok s \<Longrightarrow> peek (run s ops) k = (case map_of (rev ops) k of None \<Rightarrow> peek s k | Some w \<Rightarrow> w)"
proof (induction s ops rule: run.induct)
  case (2 s k' v ops)
  then show ?case
    by (auto simp: ok_put peek_put map_add_def split: option.splits)
next
  case (3 s k' ops)
  then show ?case
    by (auto simp: ok_remove peek_remove map_add_def split: option.splits)
qed simp

lemma count_put:
  assumes "ok s"
  shows "count (put s k v) = (if peek s k = None then count s + 1 else count s)"
  using assms count_peek [OF assms] count_peek [OF ok_put [OF assms, of k v]]
  by (auto simp: peek_put card_insert_if domIff insert_absorb)

lemma count_remove:
  assumes "ok s"
  shows "count (remove s k) = (if peek s k = None then count s else count s - 1)"
  using assms count_peek [OF assms] count_peek [OF ok_remove [OF assms, of k]]
  by (auto simp: peek_remove domIff)

end

lemmas Map_defs = NewMap_def Map_Set_def Map_Delete_def Map_inv_def Map_abs_def Map_Len_def

interpretation gm: keyed_store NewMap Map_Set "\<lambda>m k. snd (Map_Delete zero m k)"
  Map_abs Map_Len Map_inv for zero
  by unfold_locales
    (auto simp: Map_defs length_map_ok finite_dom_map_of fun_eq_iff split: option.splits)

section \<open>Loops\<close>

lemma keys_loop_eq: "keys_loop ks acc = acc @ ks"
  by (induction ks acc rule: keys_loop.induct) auto

lemma values_loop_eq:
  "set ks \<subseteq> dom (map_of d) \<Longrightarrow> values_loop d ks acc = acc @ map (\<lambda>k. the (map_of d k)) ks"
  by (induction d ks acc rule: values_loop.induct) (auto split: option.splits)

lemma range_loop_fold:
  assumes "\<And>k v s. fst (fn k v s)" and "set ks \<subseteq> dom (map_of d)"
  shows "range_loop fn d ks s = fold (\<lambda>k s. snd (fn k (the (map_of d k)) s)) ks s"
  using assms(2)
proof (induction ks arbitrary: s)
  case (Cons k ks)
  with assms(1) show ?case
    by (auto split: option.splits prod.splits) (metis fst_conv)
qed simp

lemma delete_loop_map:
  assumes "distinct ks"
  shows "map_of (snd (delete_loop fn ks d n)) =
    (\<lambda>k. case map_of d k of None \<Rightarrow> None | Some v \<Rightarrow> if k \<in> set ks \<and> fn k v then None else Some v)"
  using assms
  by (induction fn ks d n rule: delete_loop.induct) (auto simp: fun_eq_iff split: option.splits)

lemma delete_loop_ok: "map_ok d \<Longrightarrow> map_ok (snd (delete_loop fn ks d n))"
  by (induction fn ks d n rule: delete_loop.induct) (auto split: option.splits)

lemma delete_loop_count:
  "map_ok d \<Longrightarrow> fst (delete_loop fn ks d n) + length (snd (delete_loop fn ks d n)) = n + length d"
proof (induction fn ks d n rule: delete_loop.induct)
  case (2 fn k ks d n)
  then show ?case
    by (auto split: option.splits dest: length_map_del)
qed simp

section \<open>Properties\<close>

text \<open>A history of calls: \<open>(k, Some v)\<close> is Set, \<open>(k, None)\<close> is Delete.\<close>

fun Map_exec :: "'v \<Rightarrow> ('k, 'v) Map \<Rightarrow> ('k \<times> 'v option) list \<Rightarrow> ('k, 'v) Map" where
  "Map_exec zero m [] = m"
| "Map_exec zero m ((k, Some v) # ops) = Map_exec zero (Map_Set m k v) ops"
| "Map_exec zero m ((k, None) # ops) = Map_exec zero (snd (Map_Delete zero m k)) ops"

lemma Map_exec_run: "Map_exec zero m ops = gm.run zero m ops"
  by (induction zero m ops rule: Map_exec.induct) auto

lemma Map_Get_abs: "Map_Get zero m k = (case Map_abs m k of None \<Rightarrow> (zero, False) | Some v \<Rightarrow> (v, True))"
  by (simp add: Map_Get_def Map_abs_def)

text \<open>
  After any history of Set and Delete calls on a new map, Get answers with the
  value of the last Set of its key, and with the zero value and false when the key was never set or
  its last call was a Delete; Has gives the same boolean, and Len is the number of keys Get finds.
\<close>

theorem map_history:
  fixes ops :: "('k \<times> 'v option) list"
  shows "Map_Get zero (Map_exec zero NewMap ops) k =
      (case map_of (rev ops) k of Some (Some v) \<Rightarrow> (v, True) | _ \<Rightarrow> (zero, False))
    \<and> Map_Has (Map_exec zero NewMap ops) k = snd (Map_Get zero (Map_exec zero NewMap ops) k)
    \<and> Map_Len (Map_exec zero NewMap ops) =
        card {k. snd (Map_Get zero (Map_exec zero NewMap ops) k)}"
proof -
  let ?m = "Map_exec zero NewMap ops"
  have abs: "Map_abs ?m k = (case map_of (rev ops) k of Some w \<Rightarrow> w | None \<Rightarrow> None)" for k
    using gm.peek_run [where zero = zero and ops = ops and k = k, OF gm.ok_empty]
    by (simp add: Map_exec_run gm.peek_empty split: option.splits)
  have ok: "Map_inv ?m"
    by (simp add: Map_exec_run gm.run_ok gm.ok_empty)
  have "{k. snd (Map_Get zero ?m k)} = dom (Map_abs ?m)"
    by (auto simp: Map_Get_abs split: option.splits)
  with gm.count_peek [OF ok] have "Map_Len ?m = card {k. snd (Map_Get zero ?m k)}"
    by simp
  moreover have "Map_Has ?m k = snd (Map_Get zero ?m k)"
    by (simp add: Map_Has_def Map_Get_def split: option.splits)
  moreover have "Map_Get zero ?m k =
      (case map_of (rev ops) k of Some (Some v) \<Rightarrow> (v, True) | _ \<Rightarrow> (zero, False))"
    by (simp add: Map_Get_abs abs split: option.splits)
  ultimately show ?thesis by blast
qed

end
