(* ===== verification/CtxErrors.thy ===== *)
theory CtxErrors
  imports Prelude
begin

text \<open>
  Package ctxerrors (src/vendor/github.com/psyb0t/ctxerrors), the error wrapping every package of
  the repository goes through, and the sentinels package errors re-exports from its sub-package
  commerr. The call site a CTXError records (file, line and function of the caller) is left out here:
  no code of the repository reads it except to print it, which ErrorText models.
\<close>

section \<open>The error map\<close>

text \<open>
  The global translation map, in the order the runtime iterates it. It is empty at start and no
  package of the repository registers an entry.
\<close>

type_synonym error_map = "(go_error, go_error) gomap"

definition SetErrorMap :: "(err \<times> err) list \<Rightarrow> error_map" where
  "SetErrorMap m = foldl (\<lambda>em (from, to).
     case (from, to) of (Some f, Some t) \<Rightarrow> map_put f t em | _ \<Rightarrow> em) [] m"

definition MapError :: "error_map \<Rightarrow> err \<Rightarrow> err \<Rightarrow> error_map" where
  "MapError em from to = (case (from, to) of (Some f, Some t) \<Rightarrow> map_put f t em | _ \<Rightarrow> em)"

definition ClearErrorMap :: error_map where
  "ClearErrorMap = []"

definition translate :: "error_map \<Rightarrow> go_error \<Rightarrow> go_error" where
  "translate em e = (case find (\<lambda>(from, _). errors_Is e from) em of
     None \<Rightarrow> e | Some (_, to) \<Rightarrow> to)"

section \<open>Creating and wrapping\<close>

definition ctx_New :: "string \<Rightarrow> go_error" where
  "ctx_New message = CTXError None message"

definition wrap :: "error_map \<Rightarrow> err \<Rightarrow> string \<Rightarrow> err" where
  "wrap em e message = (case e of
     None \<Rightarrow> None
   | Some e \<Rightarrow> Some (CTXError (Some (translate em e)) message))"

definition Wrap :: "err \<Rightarrow> string \<Rightarrow> err" where
  "Wrap e message = wrap ClearErrorMap e message"

text \<open>Wrapping on a path where the error is known not to be nil.\<close>

definition wrapped :: "go_error \<Rightarrow> string \<Rightarrow> go_error" where
  "wrapped e message = CTXError (Some e) message"

definition ctx_Unwrap :: "go_error \<Rightarrow> err" where
  "ctx_Unwrap e = (case e of CTXError w _ \<Rightarrow> w | _ \<Rightarrow> None)"

lemma translate_empty [go_err, simp]: "translate ClearErrorMap e = e"
  by (simp add: translate_def ClearErrorMap_def)

lemma Wrap_simps [go_err, simp]:
  "Wrap None m = None" "Wrap (Some e) m = Some (wrapped e m)"
  by (simp_all add: Wrap_def wrap_def wrapped_def)

lemma Wrap_None_iff [go_err]: "Wrap e m = None \<longleftrightarrow> e = None"
  by (cases e) simp_all

lemma Unwrap_wrapped [go_err, simp]: "ctx_Unwrap (wrapped e m) = Some e"
  by (simp add: ctx_Unwrap_def wrapped_def)

lemma errors_Is_wrapped [go_err, simp]: "errors_Is (wrapped e m) (ErrNew s) \<longleftrightarrow> errors_Is e (ErrNew s)"
  by (simp add: wrapped_def)

lemma errors_Is_ctx_New [go_err, simp]: "\<not> errors_Is (ctx_New m) (ErrNew s)"
  by (simp add: ctx_New_def)

lemma err_is_Wrap [go_err, simp]: "err_is (Wrap e m) (ErrNew s) \<longleftrightarrow> err_is e (ErrNew s)"
  by (cases e) simp_all

text \<open>With a translation registered, a wrapped error is what its translation is.\<close>

lemma err_is_wrap_translated:
  "err_is (wrap em (Some e) m) (ErrNew s) \<longleftrightarrow> errors_Is (translate em e) (ErrNew s)"
  by (simp add: wrap_def)

lemma wrapped_inject [simp]: "wrapped a m = wrapped b n \<longleftrightarrow> a = b \<and> m = n"
  by (simp add: wrapped_def)

lemma wrapped_neq_ErrNew [simp]: "wrapped e m \<noteq> ErrNew s" "ErrNew s \<noteq> wrapped e m"
  by (simp_all add: wrapped_def)

section \<open>The sentinels of package commonerrors\<close>

abbreviation "ErrEmptyMigrationsPath \<equiv> ErrNew ''commerr.ErrEmptyMigrationsPath''"
abbreviation "ErrFileNotFound \<equiv> ErrNew ''commerr.ErrFileNotFound''"
abbreviation "ErrCouldNotDownloadFiles \<equiv> ErrNew ''commerr.ErrCouldNotDownloadFiles''"
abbreviation "ErrInvalidArgument \<equiv> ErrNew ''commerr.ErrInvalidArgument''"
abbreviation "ErrInvalidValue \<equiv> ErrNew ''commerr.ErrInvalidValue''"
abbreviation "ErrRequiredFieldNotSet \<equiv> ErrNew ''commerr.ErrRequiredFieldNotSet''"
abbreviation "ErrNotFound \<equiv> ErrNew ''commerr.ErrNotFound''"
abbreviation "ErrUnsupported \<equiv> ErrNew ''commerr.ErrUnsupported''"

text \<open>
  All of them, by name. Each is the value of the variable of the same name in package commerr. Package commonhttp
  has sentinels of its own, some under the same names.
\<close>

definition commonerrors :: "string list" where
  "commonerrors =
     [''ErrEnvVarNotSet'', ''ErrRequiredConfigValueNotSet'', ''ErrEmptyMigrationsPath'', ''ErrFileInvalid'',
      ''ErrFileNotFound'', ''ErrPathIsRequired'', ''ErrCouldNotDownloadFiles'', ''ErrInvalidArgument'',
      ''ErrInvalidValue'', ''ErrTargetNotPointer'', ''ErrCouldNotDecode'', ''ErrNilOutput'', ''ErrNilField'',
      ''ErrRequiredFieldNotSet'', ''ErrRequiredLLMResponseFieldNotSet'', ''ErrAlreadyExists'',
      ''ErrJobFailed'', ''ErrUnexpectedNumberOfResults'', ''ErrNotFound'', ''ErrFetchFailed'',
      ''ErrParseFailed'', ''ErrWriteFailed'', ''ErrPublishFailed'', ''ErrSubscribeFailed'',
      ''ErrDownloadFailed'', ''ErrUploadFailed'', ''ErrUpsertFailed'', ''ErrDeleteFailed'',
      ''ErrConnectFailed'', ''ErrBrowseFailed'', ''ErrSeedFailed'', ''ErrMigrationFailed'',
      ''ErrUnmarshalFailed'', ''ErrMarshalFailed'', ''ErrUnavailable'', ''ErrFailed'', ''ErrTimeout'',
      ''ErrTerminated'', ''ErrKilled'', ''ErrClosing'', ''ErrShuttingDown'', ''ErrCancelled'',
      ''ErrNotAuthenticated'', ''ErrRateLimited'']"

definition commonhttp_errors :: "string list" where
  "commonhttp_errors =
     [''ErrBadRequest'', ''ErrUnauthorized'', ''ErrNotAuthenticated'', ''ErrForbidden'', ''ErrNotFound'',
      ''ErrMethodNotAllowed'', ''ErrConflict'', ''ErrGone'', ''ErrUnprocessableEntity'',
      ''ErrTooManyRequests'', ''ErrInternalServer'', ''ErrBadGateway'', ''ErrServiceUnavailable'',
      ''ErrGatewayTimeout'']"

definition sentinel :: "string \<Rightarrow> string \<Rightarrow> go_error" where
  "sentinel package name = ErrNew (package @ name)"

lemma sentinels_distinct: "distinct (map (sentinel ''commerr.'') commonerrors @ map (sentinel ''commonhttp.'') commonhttp_errors)"
  by (simp add: sentinel_def commonerrors_def commonhttp_errors_def)

text \<open>A sentinel is found in what wraps it, and in nothing that wraps another one.\<close>

lemma sentinel_is_wrapped:
  "errors_Is (wrapped (sentinel p a) m) (sentinel q b) \<longleftrightarrow> sentinel p a = sentinel q b"
  by (simp add: sentinel_def)

lemma not_found_not_http: "\<not> errors_Is (wrapped (sentinel ''commonhttp.'' ''ErrNotFound'') m) (sentinel ''commerr.'' ''ErrNotFound'')"
  by (simp add: sentinel_is_wrapped sentinel_def)

end
