(* ===== verification/CacheMemory.thy ===== *)
theory CacheMemory
  imports CtxErrors
begin

text \<open>
  The in-memory cache (src/cache/memory.go): a map from keys to elements of a doubly linked list
  ordered by recency of use. Elements are addresses with a store for their values, so the sharing
  between the map and the list is explicit. The clock is an argument of the operations that read
  it, in nanoseconds. Every method runs under the cache's mutex and is one step here; what happens
  when two Gets run at once, since they take the lock for reading only, is the subject of theory CacheRace.
\<close>

section \<open>State\<close>

text \<open>Byte slices and strings are both lists of bytes.\<close>

type_synonym bytes = string
type_synonym elem = nat

abbreviation "ErrCacheMiss \<equiv> ErrNew ''cache.ErrCacheMiss''"

record memoryEntry =
  key :: string
  val :: bytes
  expiresAt :: int

text \<open>
  \<open>elem_value\<close> is the dynamic value of an element: None stands for a value that is not a
  \<open>*memoryEntry\<close>. \<open>next_elem\<close> is the next free address, \<open>stop_closed\<close> tells whether the
  channel stopCh is closed.
\<close>

record Memory =
  items :: "(string, elem) gomap"
  evictList :: "elem list"
  maxSize :: int
  stop_closed :: bool
  elem_value :: "elem \<Rightarrow> memoryEntry option"
  next_elem :: elem

section \<open>Package container/list\<close>

definition list_MoveToFront :: "elem \<Rightarrow> elem list \<Rightarrow> elem list" where
  "list_MoveToFront e l = (if e \<in> set l then e # remove1 e l else l)"

definition list_Remove :: "elem \<Rightarrow> elem list \<Rightarrow> elem list" where
  "list_Remove e l = remove1 e l"

definition list_Back :: "elem list \<Rightarrow> elem option" where
  "list_Back l = (if l = [] then None else Some (last l))"

section \<open>Operations\<close>

definition toMemoryEntry :: "Memory \<Rightarrow> elem \<Rightarrow> memoryEntry res" where
  "toMemoryEntry m e = (case elem_value m e of
     None \<Rightarrow> Inl (wrapped ErrInvalidValue ''unexpected element type in cache list'')
   | Some entry \<Rightarrow> Inr entry)"

definition NewMemory :: "int \<Rightarrow> Memory" where
  "NewMemory maxEntries = \<lparr>items = [], evictList = [], maxSize = maxEntries,
     stop_closed = False, elem_value = (\<lambda>_. None), next_elem = 0\<rparr>"

definition Memory_Get :: "int \<Rightarrow> Memory \<Rightarrow> string \<Rightarrow> bytes res \<times> Memory" where
  "Memory_Get now m k = (case map_of (items m) k of
     None \<Rightarrow> (Inl ErrCacheMiss, m)
   | Some e \<Rightarrow> (case toMemoryEntry m e of
       Inl err \<Rightarrow> (Inl err, m)
     | Inr entry \<Rightarrow>
         if now > expiresAt entry then (Inl ErrCacheMiss, m)
         else (Inr (val entry), m\<lparr>evictList := list_MoveToFront e (evictList m)\<rparr>)))"

definition removeElement :: "Memory \<Rightarrow> elem \<Rightarrow> err \<times> Memory" where
  "removeElement m e =
     (let m1 = m\<lparr>evictList := list_Remove e (evictList m)\<rparr> in
      case toMemoryEntry m1 e of
        Inl err \<Rightarrow> (Some err, m1)
      | Inr entry \<Rightarrow> (None, m1\<lparr>items := map_del (key entry) (items m1)\<rparr>))"

definition evictOldest :: "Memory \<Rightarrow> err \<times> Memory" where
  "evictOldest m = (case list_Back (evictList m) of
     None \<Rightarrow> (None, m)
   | Some e \<Rightarrow> removeElement m e)"

text \<open>The eviction loop of Set. It may run forever; None is "does not return".\<close>

partial_function (option) evict_loop :: "Memory \<Rightarrow> (err \<times> Memory) option" where
  "evict_loop m =
     (if int (length (evictList m)) \<ge> maxSize m
      then (case evictOldest m of
              (Some err, m') \<Rightarrow> Some (Some err, m')
            | (None, m') \<Rightarrow> evict_loop m')
      else Some (None, m))"

definition push_entry :: "int \<Rightarrow> Memory \<Rightarrow> string \<Rightarrow> bytes \<Rightarrow> int \<Rightarrow> Memory" where
  "push_entry now m k v ttl =
     (let entry = \<lparr>key = k, val = v, expiresAt = now + ttl\<rparr>; e = next_elem m in
      m\<lparr>evictList := e # evictList m, items := map_put k e (items m),
        elem_value := (elem_value m)(e := Some entry), next_elem := Suc e\<rparr>)"

definition Memory_Set ::
  "int \<Rightarrow> Memory \<Rightarrow> string \<Rightarrow> bytes \<Rightarrow> int \<Rightarrow> (err \<times> Memory) option" where
  "Memory_Set now m k v ttl = (case map_of (items m) k of
     Some e \<Rightarrow>
       (let m1 = m\<lparr>evictList := list_MoveToFront e (evictList m)\<rparr> in
        case toMemoryEntry m1 e of
          Inl err \<Rightarrow> Some (Some err, m1)
        | Inr entry \<Rightarrow> Some (None, m1\<lparr>elem_value := (elem_value m1)(e :=
              Some (entry\<lparr>val := v, expiresAt := now + ttl\<rparr>))\<rparr>))
   | None \<Rightarrow> (case evict_loop m of
       None \<Rightarrow> None
     | Some (Some err, m') \<Rightarrow> Some (Some err, m')
     | Some (None, m') \<Rightarrow> Some (None, push_entry now m' k v ttl)))"

definition Memory_Delete :: "Memory \<Rightarrow> string \<Rightarrow> err \<times> Memory" where
  "Memory_Delete m k = (case map_of (items m) k of
     None \<Rightarrow> (None, m)
   | Some e \<Rightarrow> removeElement m e)"

text \<open>Closing a closed channel panics: None.\<close>

definition Memory_Close :: "Memory \<Rightarrow> (err \<times> Memory) option" where
  "Memory_Close m = (if stop_closed m then None else Some (None, m\<lparr>stop_closed := True\<rparr>))"

text \<open>
  One pass over the map in the order the runtime chooses. An entry that is removed before the loop
  reaches it is not visited; the errors of the body are only logged.
\<close>

fun removeExpired_loop :: "int \<Rightarrow> string list \<Rightarrow> Memory \<Rightarrow> Memory" where
  "removeExpired_loop now [] m = m"
| "removeExpired_loop now (k # ks) m = (case map_of (items m) k of
     None \<Rightarrow> removeExpired_loop now ks m
   | Some e \<Rightarrow> (case toMemoryEntry m e of
       Inl err \<Rightarrow> removeExpired_loop now ks m
     | Inr entry \<Rightarrow>
         if now > expiresAt entry then removeExpired_loop now ks (snd (removeElement m e))
         else removeExpired_loop now ks m))"

definition removeExpired :: "int \<Rightarrow> string list \<Rightarrow> Memory \<Rightarrow> Memory" where
  "removeExpired now order m = removeExpired_loop now order m"

section \<open>The cleanup goroutine and its callers\<close>

text \<open>
  A history of the cache: what the callers do, and the turns of the cleanup goroutine, which runs
  removeExpired at a tick and ends once stopCh is closed. Each event carries the time it happens.
\<close>

datatype mem_event =
    EvGet string
  | EvSet string bytes int
  | EvDelete string
  | EvTick "string list"
  | EvClose

fun mem_step :: "Memory \<Rightarrow> int \<times> mem_event \<Rightarrow> Memory option" where
  "mem_step m (now, EvGet k) = Some (snd (Memory_Get now m k))"
| "mem_step m (now, EvSet k v ttl) = map_option snd (Memory_Set now m k v ttl)"
| "mem_step m (now, EvDelete k) = Some (snd (Memory_Delete m k))"
| "mem_step m (now, EvTick order) = Some (if stop_closed m then m else removeExpired now order m)"
| "mem_step m (now, EvClose) = map_option snd (Memory_Close m)"

fun mem_run :: "Memory \<Rightarrow> (int \<times> mem_event) list \<Rightarrow> Memory option" where
  "mem_run m [] = Some m"
| "mem_run m (ev # evs) = (case mem_step m ev of None \<Rightarrow> None | Some m' \<Rightarrow> mem_run m' evs)"

section \<open>Invariant\<close>

text \<open>The map and the list hold the same elements, each under the key of its entry.\<close>

definition mem_inv :: "Memory \<Rightarrow> bool" where
  "mem_inv m \<longleftrightarrow> map_ok (items m) \<and> distinct (evictList m)
     \<and> (\<forall>e\<in>set (evictList m). e < next_elem m \<and>
          (\<exists>en. elem_value m e = Some en \<and> map_of (items m) (key en) = Some e))
     \<and> (\<forall>k e. map_of (items m) k = Some e \<longrightarrow>
          e \<in> set (evictList m) \<and> (\<exists>en. elem_value m e = Some en \<and> key en = k))"

definition entry_of :: "Memory \<Rightarrow> elem \<Rightarrow> memoryEntry" where
  "entry_of m e = the (elem_value m e)"

definition mem_abs :: "Memory \<Rightarrow> memoryEntry list" where
  "mem_abs m = map (entry_of m) (evictList m)"

named_theorems mem \<comment> \<open>the simplification rules of the memory cache\<close>

lemma mem_invD:
  assumes "mem_inv m"
  shows "map_ok (items m)" "distinct (evictList m)"
    and "e \<in> set (evictList m) \<Longrightarrow> e < next_elem m"
    and "e \<in> set (evictList m) \<Longrightarrow> elem_value m e = Some (entry_of m e)"
    and "e \<in> set (evictList m) \<Longrightarrow> map_of (items m) (key (entry_of m e)) = Some e"
    and "map_of (items m) k = Some e \<Longrightarrow> e \<in> set (evictList m)"
    and "map_of (items m) k = Some e \<Longrightarrow> key (entry_of m e) = k"
  using assms unfolding mem_inv_def entry_of_def by fastforce+

lemma mem_invI:
  assumes "map_ok (items m)" "distinct (evictList m)"
    and "\<And>e. e \<in> set (evictList m) \<Longrightarrow> e < next_elem m"
    and "\<And>e. e \<in> set (evictList m) \<Longrightarrow> elem_value m e = Some (entry_of m e)"
    and "\<And>e. e \<in> set (evictList m) \<Longrightarrow> map_of (items m) (key (entry_of m e)) = Some e"
    and "\<And>k e. map_of (items m) k = Some e \<Longrightarrow> e \<in> set (evictList m)"
    and "\<And>k e. map_of (items m) k = Some e \<Longrightarrow> key (entry_of m e) = k"
  shows "mem_inv m"
  using assms unfolding mem_inv_def by blast

lemma toMemoryEntry_inv:
  "mem_inv m \<Longrightarrow> e \<in> set (evictList m) \<Longrightarrow> toMemoryEntry m e = Inr (entry_of m e)"
  by (simp add: toMemoryEntry_def mem_invD(4))

lemma entry_of_simps [simp, mem]:
  "entry_of (m\<lparr>evictList := l\<rparr>) = entry_of m"
  "entry_of (m\<lparr>items := i\<rparr>) = entry_of m"
  "entry_of (m\<lparr>stop_closed := b\<rparr>) = entry_of m"
  "entry_of (m\<lparr>next_elem := n\<rparr>) = entry_of m"
  "entry_of (m\<lparr>elem_value := (elem_value m)(e := Some en)\<rparr>) = (entry_of m)(e := en)"
  by (auto simp: entry_of_def fun_eq_iff)

lemma set_MoveToFront [simp, mem]: "set (list_MoveToFront e l) = set l"
  using set_remove1_subset [of e l] by (auto simp: list_MoveToFront_def) (metis in_set_remove1)

lemma distinct_MoveToFront [simp, mem]: "distinct l \<Longrightarrow> distinct (list_MoveToFront e l)"
  by (simp add: list_MoveToFront_def)

lemma length_MoveToFront [simp, mem]: "length (list_MoveToFront e l) = length l"
  by (auto simp: list_MoveToFront_def length_remove1) (metis One_nat_def Suc_pred length_pos_if_in_set)

lemma mem_inv_move: "mem_inv m \<Longrightarrow> mem_inv (m\<lparr>evictList := list_MoveToFront e (evictList m)\<rparr>)"
  by (rule mem_invI) (auto simp: mem_invD)

lemma mem_inv_NewMemory: "mem_inv (NewMemory n)"
  by (simp add: mem_inv_def NewMemory_def)

text \<open>The key of an entry tells its element apart.\<close>

lemma key_entry_inj:
  "mem_inv m \<Longrightarrow> e \<in> set (evictList m) \<Longrightarrow> e' \<in> set (evictList m) \<Longrightarrow>
    key (entry_of m e) = key (entry_of m e') \<longleftrightarrow> e = e'"
  by (metis mem_invD(5) option.inject)

lemma items_iff_key:
  "mem_inv m \<Longrightarrow> e \<in> set (evictList m) \<Longrightarrow> map_of (items m) k = Some e \<longleftrightarrow> key (entry_of m e) = k"
  by (metis mem_invD(5,7))

lemma items_None_iff:
  "mem_inv m \<Longrightarrow> map_of (items m) k = None \<longleftrightarrow> (\<forall>en\<in>set (mem_abs m). key en \<noteq> k)"
  unfolding mem_abs_def by (auto simp: mem_invD) (metis mem_invD(6,7) not_None_eq)

lemma distinct_keys_abs: "mem_inv m \<Longrightarrow> distinct (map key (mem_abs m))"
  by (auto simp: mem_abs_def distinct_map comp_def mem_invD(2) key_entry_inj intro!: inj_onI)

end
