(* ===== verification/CacheLru.thy ===== *)
theory CacheLru
  imports CacheMemory
begin

text \<open>
  The specification of the in-memory cache as a plain list of entries, most recently used first,
  and the proof that the map-and-list implementation refines it.
\<close>

section \<open>Specification\<close>

definition lru_find :: "string \<Rightarrow> memoryEntry list \<Rightarrow> memoryEntry option" where
  "lru_find k es = map_of (map (\<lambda>en. (key en, en)) es) k"

definition lru_drop :: "string \<Rightarrow> memoryEntry list \<Rightarrow> memoryEntry list" where
  "lru_drop k es = filter (\<lambda>en. key en \<noteq> k) es"

definition lru_get :: "int \<Rightarrow> memoryEntry list \<Rightarrow> string \<Rightarrow> bytes res \<times> memoryEntry list" where
  "lru_get now es k = (case lru_find k es of
     None \<Rightarrow> (Inl ErrCacheMiss, es)
   | Some en \<Rightarrow> if now > expiresAt en then (Inl ErrCacheMiss, es)
       else (Inr (val en), en # lru_drop k es))"

definition lru_set :: "int \<Rightarrow> nat \<Rightarrow> memoryEntry list \<Rightarrow> string \<Rightarrow> bytes \<Rightarrow> int \<Rightarrow> memoryEntry list" where
  "lru_set now cap es k v ttl =
     (let en = \<lparr>key = k, val = v, expiresAt = now + ttl\<rparr> in
      if lru_find k es = None then en # take (cap - 1) es else en # lru_drop k es)"

section \<open>Removing an element\<close>

lemma remove1_key_filter:
  assumes "mem_inv m" "e \<in> set (evictList m)"
  shows "map (entry_of m) (remove1 e (evictList m)) = lru_drop (key (entry_of m e)) (mem_abs m)"
proof -
  have "remove1 e (evictList m) = filter (\<lambda>e'. e' \<noteq> e) (evictList m)"
    using mem_invD(2) [OF assms(1)] by (simp add: distinct_remove1_removeAll removeAll_filter_not_eq
        eq_commute)
  also have "\<dots> = filter (\<lambda>e'. key (entry_of m e') \<noteq> key (entry_of m e)) (evictList m)"
    by (rule filter_cong) (auto simp: key_entry_inj [OF assms(1)] assms(2))
  finally show ?thesis
    by (simp add: lru_drop_def mem_abs_def filter_map comp_def)
qed

definition removed :: "Memory \<Rightarrow> elem \<Rightarrow> Memory" where
  "removed m e = m\<lparr>evictList := list_Remove e (evictList m),
     items := map_del (key (entry_of m e)) (items m)\<rparr>"

lemma removeElement_inv:
  "mem_inv m \<Longrightarrow> e \<in> set (evictList m) \<Longrightarrow> removeElement m e = (None, removed m e)"
  by (simp add: removeElement_def removed_def toMemoryEntry_def mem_invD(4) Let_def)

lemma mem_inv_removed:
  assumes "mem_inv m" "e \<in> set (evictList m)"
  shows "mem_inv (removed m e)"
proof -
  have other: "e' \<noteq> e" if "e' \<in> set (remove1 e (evictList m))" for e'
    using that mem_invD(2) [OF assms(1)] by auto
  show ?thesis
  proof (rule mem_invI)
    fix e'
    assume e': "e' \<in> set (evictList (removed m e))"
    then have "e' \<in> set (evictList m)" "e' \<noteq> e"
      using other set_remove1_subset [of e "evictList m"] by (auto simp: removed_def list_Remove_def)
    then show "e' < next_elem (removed m e)"
      and "elem_value (removed m e) e' = Some (entry_of (removed m e) e')"
      and "map_of (items (removed m e)) (key (entry_of (removed m e) e')) = Some e'"
      using assms by (auto simp: removed_def mem_invD key_entry_inj)
  next
    fix k e'
    assume k: "map_of (items (removed m e)) k = Some e'"
    then have "map_of (items m) k = Some e'" "k \<noteq> key (entry_of m e)"
      by (auto simp: removed_def split: if_splits)
    moreover from this have "e' \<noteq> e" using mem_invD(7) [OF assms(1)] by blast
    ultimately show "e' \<in> set (evictList (removed m e))" "key (entry_of (removed m e) e') = k"
      using assms(1) by (auto simp: removed_def list_Remove_def mem_invD)
  qed (use assms in \<open>auto simp: removed_def list_Remove_def mem_invD\<close>)
qed

lemma mem_abs_removed:
  "mem_inv m \<Longrightarrow> e \<in> set (evictList m) \<Longrightarrow>
    mem_abs (removed m e) = lru_drop (key (entry_of m e)) (mem_abs m)"
  by (simp add: remove1_key_filter [symmetric]) (simp add: mem_abs_def removed_def list_Remove_def)

lemma removed_fields [simp]:
  "maxSize (removed m e) = maxSize m" "stop_closed (removed m e) = stop_closed m"
  "evictList (removed m e) = remove1 e (evictList m)" "next_elem (removed m e) = next_elem m"
  by (simp_all add: removed_def list_Remove_def)

section \<open>The eviction loop\<close>

lemma mem_abs_removed_last:
  assumes "mem_inv m" "evictList m \<noteq> []"
  shows "mem_abs (removed m (last (evictList m))) = butlast (mem_abs m)"
proof -
  let ?l = "evictList m"
  have "remove1 (last ?l) ?l = butlast ?l"
    using mem_invD(2) [OF assms(1)] assms(2)
    by (metis append_butlast_last_id distinct_append distinct_butlast disjoint_insert(1)
        list.simps(15) not_distinct_conv_prefix remove1.simps(2) remove1_append self_append_conv
        remove1_idem append_Nil2)
  then show ?thesis
    by (simp add: mem_abs_def map_butlast removed_def list_Remove_def)
qed

text \<open>With room for at least one entry the loop ends, leaving the newest entries.\<close>

lemma evict_loop_ends:
  assumes "mem_inv m" "1 \<le> maxSize m"
  shows "\<exists>m'. evict_loop m = Some (None, m') \<and> mem_inv m'
    \<and> mem_abs m' = take (nat (maxSize m) - 1) (mem_abs m)
    \<and> maxSize m' = maxSize m \<and> stop_closed m' = stop_closed m \<and> next_elem m' = next_elem m
    \<and> (\<forall>k. map_of (items m) k = None \<longrightarrow> map_of (items m') k = None)"
  using assms
proof (induction "length (evictList m)" arbitrary: m rule: less_induct)
  case less
  show ?case
  proof (cases "int (length (evictList m)) \<ge> maxSize m")
    case False
    then have "length (mem_abs m) \<le> nat (maxSize m) - 1"
      by (simp add: mem_abs_def)
    with False less.prems show ?thesis
      by (subst evict_loop.simps) simp
  next
    case True
    let ?e = "last (evictList m)"
    from True less.prems have ne: "evictList m \<noteq> []" by auto
    then have e: "?e \<in> set (evictList m)" by simp
    let ?m = "removed m ?e"
    have step: "evict_loop m = evict_loop ?m"
      using True ne by (subst evict_loop.simps)
        (simp add: evictOldest_def list_Back_def removeElement_inv [OF less.prems(1) e])
    have "length (evictList ?m) < length (evictList m)"
      using e ne by (simp add: length_remove1)
    from less.hyps [OF this mem_inv_removed [OF less.prems(1) e]] less.prems(2)
    obtain m' where m': "evict_loop ?m = Some (None, m')" "mem_inv m'"
      "mem_abs m' = take (nat (maxSize m) - 1) (mem_abs ?m)"
      "maxSize m' = maxSize m" "stop_closed m' = stop_closed m" "next_elem m' = next_elem m"
      "\<forall>k. map_of (items ?m) k = None \<longrightarrow> map_of (items m') k = None"
      by auto
    have "nat (maxSize m) - 1 \<le> length (mem_abs m) - 1"
      using True by (simp add: mem_abs_def)
    then have "mem_abs m' = take (nat (maxSize m) - 1) (mem_abs m)"
      using m'(3) by (simp add: mem_abs_removed_last [OF less.prems(1) ne]
          butlast_conv_take min_absorb1)
    with m' step show ?thesis
      by (auto simp: removed_def)
  qed
qed

text \<open>With no room at all it never does: the list runs empty and the guard stays true.\<close>

lemma evict_loop_diverges:
  assumes "maxSize m \<le> 0" "evictList m = []"
  shows "evict_loop m = None"
proof (rule ccontr)
  assume "evict_loop m \<noteq> None"
  then obtain r where r: "evict_loop m = Some r" by blast
  have "\<not> (maxSize m \<le> 0 \<and> evictList m = [])"
  proof (rule evict_loop.raw_induct [where P = "\<lambda>m _. \<not> (maxSize m \<le> 0 \<and> evictList m = [])", OF _ r])
    fix loop m r
    assume IH: "\<And>m r. loop m = Some r \<Longrightarrow> \<not> (maxSize m \<le> 0 \<and> evictList m = [])"
      and eq: "(if int (length (evictList m)) \<ge> maxSize m
        then (case evictOldest m of
                (Some err, m') \<Rightarrow> Some (Some err, m')
              | (None, m') \<Rightarrow> loop m')
        else Some (None, m)) = Some r"
    show "\<not> (maxSize m \<le> 0 \<and> evictList m = [])"
    proof
      assume "maxSize m \<le> 0 \<and> evictList m = []"
      moreover from this eq have "loop m = Some r"
        by (simp add: evictOldest_def list_Back_def)
      ultimately show False using IH by blast
    qed
  qed
  with assms show False by blast
qed

section \<open>Refinement\<close>

lemma lru_find_abs:
  assumes "mem_inv m"
  shows "lru_find k (mem_abs m) = map_option (entry_of m) (map_of (items m) k)"
proof (cases "map_of (items m) k")
  case None
  then have "k \<notin> key ` set (mem_abs m)"
    using items_None_iff [OF assms] by auto
  then have "k \<notin> fst ` set (map (\<lambda>en. (key en, en)) (mem_abs m))"
    by force
  then have "map_of (map (\<lambda>en. (key en, en)) (mem_abs m)) k = None"
    by (simp add: map_of_eq_None_iff)
  with None show ?thesis by (simp add: lru_find_def)
next
  case (Some e)
  then have "e \<in> set (evictList m)" and k: "key (entry_of m e) = k"
    using mem_invD(6,7) [OF assms] by auto
  then have "(k, entry_of m e) \<in> set (map (\<lambda>en. (key en, en)) (mem_abs m))"
    by (auto simp: mem_abs_def)
  moreover have "distinct (map fst (map (\<lambda>en. (key en, en)) (mem_abs m)))"
    using distinct_keys_abs [OF assms] by (simp add: comp_def)
  ultimately show ?thesis
    using Some by (simp add: lru_find_def)
qed

lemma lru_drop_absent: "lru_find k es = None \<Longrightarrow> lru_drop k es = es"
  by (auto simp: lru_find_def lru_drop_def map_of_eq_None_iff image_iff intro!: filter_True)

text \<open>Moving an element to the front moves its entry to the front.\<close>

lemma mem_abs_move:
  assumes "mem_inv m" "map_of (items m) k = Some e"
  shows "map (entry_of m) (list_MoveToFront e (evictList m)) = entry_of m e # lru_drop k (mem_abs m)"
  using assms by (simp add: list_MoveToFront_def mem_invD remove1_key_filter)

lemma mem_abs_evictList: "mem_abs (m\<lparr>evictList := l\<rparr>) = map (entry_of m) l"
  by (simp add: mem_abs_def)

lemma Memory_Get_refines:
  assumes "mem_inv m"
  shows "fst (Memory_Get now m k) = fst (lru_get now (mem_abs m) k)"
    and "mem_abs (snd (Memory_Get now m k)) = snd (lru_get now (mem_abs m) k)"
    and "mem_inv (snd (Memory_Get now m k))"
proof -
  have hit: "toMemoryEntry m e = Inr (entry_of m e)" if "map_of (items m) k = Some e" for e
    using that assms by (simp add: toMemoryEntry_inv mem_invD)
  show "fst (Memory_Get now m k) = fst (lru_get now (mem_abs m) k)"
    by (auto simp: Memory_Get_def lru_get_def lru_find_abs [OF assms] hit split: option.splits)
  show "mem_abs (snd (Memory_Get now m k)) = snd (lru_get now (mem_abs m) k)"
    using mem_abs_move [OF assms, of k]
    by (auto simp: Memory_Get_def lru_get_def lru_find_abs [OF assms] hit mem_abs_evictList
        split: option.splits)
  show "mem_inv (snd (Memory_Get now m k))"
    using assms by (auto simp: Memory_Get_def hit mem_inv_move split: option.splits)
qed

lemma Memory_Get_frame [simp]:
  "maxSize (snd (Memory_Get now m k)) = maxSize m"
  "stop_closed (snd (Memory_Get now m k)) = stop_closed m"
  by (auto simp: Memory_Get_def split: option.splits sum.splits)

lemma Memory_Delete_refines:
  assumes "mem_inv m"
  shows "fst (Memory_Delete m k) = None"
    and "mem_abs (snd (Memory_Delete m k)) = lru_drop k (mem_abs m)"
    and "mem_inv (snd (Memory_Delete m k))"
    and "maxSize (snd (Memory_Delete m k)) = maxSize m"
    and "stop_closed (snd (Memory_Delete m k)) = stop_closed m"
proof -
  have hit: "e \<in> set (evictList m)" "key (entry_of m e) = k" if "map_of (items m) k = Some e" for e
    using that assms by (auto simp: mem_invD)
  have miss: "lru_drop k (mem_abs m) = mem_abs m" if "map_of (items m) k = None"
    using that by (simp add: lru_find_abs [OF assms] lru_drop_absent)
  show "fst (Memory_Delete m k) = None"
    and "mem_abs (snd (Memory_Delete m k)) = lru_drop k (mem_abs m)"
    and "mem_inv (snd (Memory_Delete m k))"
    and "maxSize (snd (Memory_Delete m k)) = maxSize m"
    and "stop_closed (snd (Memory_Delete m k)) = stop_closed m"
    using assms hit miss
    by (auto simp: Memory_Delete_def removeElement_inv mem_abs_removed mem_inv_removed
        split: option.splits)
qed

lemma push_fields [simp]:
  fixes m :: Memory and now ttl :: int and k :: string and v :: bytes
  defines "m' \<equiv> push_entry now m k v ttl"
  shows "evictList m' = next_elem m # evictList m" "items m' = map_put k (next_elem m) (items m)"
    "next_elem m' = Suc (next_elem m)" "maxSize m' = maxSize m" "stop_closed m' = stop_closed m"
    "elem_value m' = (elem_value m)(next_elem m \<mapsto> \<lparr>key = k, val = v, expiresAt = now + ttl\<rparr>)"
  by (simp_all add: m'_def push_entry_def Let_def)

lemma entry_of_push [simp]:
  "entry_of (push_entry now m k v ttl) =
     (entry_of m)(next_elem m := \<lparr>key = k, val = v, expiresAt = now + ttl\<rparr>)"
  by (simp add: entry_of_def fun_eq_iff)

lemma fresh_elem: "mem_inv m \<Longrightarrow> next_elem m \<notin> set (evictList m)"
  using mem_invD(3) by blast

lemma mem_inv_push:
  assumes "mem_inv m" "map_of (items m) k = None"
  shows "mem_inv (push_entry now m k v ttl)"
proof -
  have fresh: "next_elem m \<notin> set (evictList m)"
    using assms(1) by (rule fresh_elem)
  have "key (entry_of m e) \<noteq> k" if "e \<in> set (evictList m)" for e
    using that assms mem_invD(5) by fastforce
  then show ?thesis
    using fresh assms(1)
    by (intro mem_invI) (auto simp: mem_invD less_Suc_eq split: if_splits dest: mem_invD(6) [OF assms(1)])
qed

lemma mem_abs_push:
  assumes "mem_inv m"
  shows "mem_abs (push_entry now m k v ttl) = \<lparr>key = k, val = v, expiresAt = now + ttl\<rparr> # mem_abs m"
  using fresh_elem [OF assms] by (auto simp: mem_abs_def)

lemma mem_inv_overwrite:
  assumes "mem_inv m" "e \<in> set (evictList m)" "key en = key (entry_of m e)"
  shows "mem_inv (m\<lparr>elem_value := (elem_value m)(e := Some en)\<rparr>)"
  using assms by (intro mem_invI) (auto simp: mem_invD)

lemma Memory_Set_existing:
  fixes v :: bytes and now ttl :: int
  assumes "mem_inv m" "map_of (items m) k = Some e"
  defines "en \<equiv> \<lparr>key = k, val = v, expiresAt = now + ttl\<rparr>"
  shows "\<exists>m'. Memory_Set now m k v ttl = Some (None, m') \<and> mem_inv m'
    \<and> mem_abs m' = en # lru_drop k (mem_abs m)
    \<and> maxSize m' = maxSize m \<and> stop_closed m' = stop_closed m"
proof -
  let ?m1 = "m\<lparr>evictList := list_MoveToFront e (evictList m)\<rparr>"
  let ?m2 = "?m1\<lparr>elem_value := (elem_value m)(e := Some en)\<rparr>"
  have e: "e \<in> set (evictList m)" and k: "key (entry_of m e) = k"
    using assms(1,2) by (auto simp: mem_invD)
  have "(entry_of m e)\<lparr>val := v, expiresAt := now + ttl\<rparr> = en"
    by (cases "entry_of m e") (use k in \<open>simp add: en_def\<close>)
  then have "Memory_Set now m k v ttl = Some (None, ?m2)"
    using assms(1,2) e by (simp add: Memory_Set_def Let_def toMemoryEntry_def mem_invD(4))
  moreover have "mem_inv ?m2"
    using mem_inv_overwrite [OF mem_inv_move [OF assms(1)], of e e en] e k by (simp add: en_def)
  moreover have "mem_abs ?m2 = en # lru_drop k (mem_abs m)"
  proof -
    have "e \<notin> set (remove1 e (evictList m))"
      using mem_invD(2) [OF assms(1)] by simp
    then have "mem_abs ?m2 = en # map (entry_of m) (remove1 e (evictList m))"
      using e by (simp add: mem_abs_def list_MoveToFront_def entry_of_def)
    also have "\<dots> = en # lru_drop k (mem_abs m)"
      using remove1_key_filter [OF assms(1) e] k by simp
    finally show ?thesis .
  qed
  ultimately show ?thesis by (intro exI [of _ ?m2]) simp
qed

lemma Memory_Set_refines:
  assumes "mem_inv m" "1 \<le> maxSize m"
  shows "\<exists>m'. Memory_Set now m k v ttl = Some (None, m') \<and> mem_inv m'
    \<and> mem_abs m' = lru_set now (nat (maxSize m)) (mem_abs m) k v ttl
    \<and> maxSize m' = maxSize m \<and> stop_closed m' = stop_closed m"
proof (cases "map_of (items m) k")
  case None
  from evict_loop_ends [OF assms] obtain m' where m': "evict_loop m = Some (None, m')" "mem_inv m'"
    "mem_abs m' = take (nat (maxSize m) - 1) (mem_abs m)" "maxSize m' = maxSize m"
    "stop_closed m' = stop_closed m" "map_of (items m') k = None"
    using None by blast
  have "Memory_Set now m k v ttl = Some (None, push_entry now m' k v ttl)"
    using None m'(1) by (simp add: Memory_Set_def)
  moreover have "mem_inv (push_entry now m' k v ttl)"
    using m'(2,6) by (rule mem_inv_push)
  moreover have "mem_abs (push_entry now m' k v ttl) = lru_set now (nat (maxSize m)) (mem_abs m) k v ttl"
    using None m'(3) by (simp add: mem_abs_push [OF m'(2)] lru_set_def lru_find_abs [OF assms(1)])
  ultimately show ?thesis
    using m'(4,5) by simp
next
  case (Some e)
  then have "lru_find k (mem_abs m) \<noteq> None"
    by (simp add: lru_find_abs [OF assms(1)])
  with Memory_Set_existing [OF assms(1) Some, of now v ttl] show ?thesis
    by (auto simp: lru_set_def Let_def)
qed

lemma lru_drop_filter: "lru_drop k (filter P es) = filter P (lru_drop k es)"
  by (simp add: lru_drop_def conj_commute)

lemma removeExpired_loop_refines:
  "mem_inv m \<Longrightarrow> mem_inv (removeExpired_loop now ks m)
    \<and> mem_abs (removeExpired_loop now ks m) =
        filter (\<lambda>en. \<not> (now > expiresAt en \<and> key en \<in> set ks)) (mem_abs m)
    \<and> maxSize (removeExpired_loop now ks m) = maxSize m
    \<and> stop_closed (removeExpired_loop now ks m) = stop_closed m"
proof (induction now ks m rule: removeExpired_loop.induct)
  case (2 now k ks m)
  note inv = "2.prems"
  have keep: "filter (\<lambda>en. \<not> (now > expiresAt en \<and> key en \<in> set (k # ks))) (mem_abs m) =
      filter (\<lambda>en. \<not> (now > expiresAt en \<and> key en \<in> set ks)) (mem_abs m)"
    if "\<forall>en\<in>set (mem_abs m). key en = k \<longrightarrow> \<not> now > expiresAt en"
    using that by (intro filter_cong) auto
  show ?case
  proof (cases "map_of (items m) k")
    case None
    then have "\<forall>en\<in>set (mem_abs m). key en = k \<longrightarrow> \<not> now > expiresAt en"
      using items_None_iff [OF inv] by blast
    with None "2.IH"(1) [OF None inv] keep show ?thesis by simp
  next
    case (Some e)
    have e: "e \<in> set (evictList m)" and k: "key (entry_of m e) = k"
      using Some inv by (auto simp: mem_invD)
    have entry: "toMemoryEntry m e = Inr (entry_of m e)"
      using inv e by (rule toMemoryEntry_inv)
    have only: "en = entry_of m e" if "en \<in> set (mem_abs m)" "key en = k" for en
      using that key_entry_inj [OF inv _ e] k by (auto simp: mem_abs_def)
    show ?thesis
    proof (cases "now > expiresAt (entry_of m e)")
      case True
      have "filter (\<lambda>en. \<not> (now > expiresAt en \<and> key en \<in> set (k # ks))) (mem_abs m) =
          filter (\<lambda>en. \<not> (now > expiresAt en \<and> key en \<in> set ks)) (lru_drop k (mem_abs m))"
        unfolding lru_drop_def filter_filter using True only by (intro filter_cong) auto
      with "2.IH"(3) [OF Some entry True] Some entry True inv e k show ?thesis
        by (simp add: removeElement_inv mem_inv_removed mem_abs_removed)
    next
      case False
      with only have "\<forall>en\<in>set (mem_abs m). key en = k \<longrightarrow> \<not> now > expiresAt en" by blast
      with "2.IH"(4) [OF Some entry False inv] Some entry False keep show ?thesis by simp
    qed
  qed
qed simp

section \<open>Histories\<close>

fun lru_step :: "nat \<Rightarrow> memoryEntry list \<times> bool \<Rightarrow> int \<times> mem_event \<Rightarrow> (memoryEntry list \<times> bool) option" where
  "lru_step cap (es, closed) (now, EvGet k) = Some (snd (lru_get now es k), closed)"
| "lru_step cap (es, closed) (now, EvSet k v ttl) = Some (lru_set now cap es k v ttl, closed)"
| "lru_step cap (es, closed) (now, EvDelete k) = Some (lru_drop k es, closed)"
| "lru_step cap (es, closed) (now, EvTick order) = Some (if closed then es
     else filter (\<lambda>en. \<not> (now > expiresAt en \<and> key en \<in> set order)) es, closed)"
| "lru_step cap (es, closed) (now, EvClose) = (if closed then None else Some (es, True))"

fun lru_run :: "nat \<Rightarrow> memoryEntry list \<times> bool \<Rightarrow> (int \<times> mem_event) list \<Rightarrow> (memoryEntry list \<times> bool) option" where
  "lru_run cap s [] = Some s"
| "lru_run cap s (ev # evs) = (case lru_step cap s ev of None \<Rightarrow> None | Some s' \<Rightarrow> lru_run cap s' evs)"

definition mem_view :: "Memory \<Rightarrow> memoryEntry list \<times> bool" where
  "mem_view m = (mem_abs m, stop_closed m)"

lemma mem_abs_stop_closed [simp]: "mem_abs (m\<lparr>stop_closed := b\<rparr>) = mem_abs m"
  by (simp add: mem_abs_def)

lemma mem_inv_stop_closed [simp]: "mem_inv (m\<lparr>stop_closed := b\<rparr>) = mem_inv m"
  by (simp add: mem_inv_def)

lemma mem_step_refines:
  assumes "mem_inv m" "1 \<le> maxSize m"
  shows "map_option mem_view (mem_step m ev) = lru_step (nat (maxSize m)) (mem_view m) ev"
    and "mem_step m ev = Some m' \<Longrightarrow> mem_inv m' \<and> maxSize m' = maxSize m"
proof -
  obtain now ev' where ev: "ev = (now, ev')" by (cases ev)
  show "map_option mem_view (mem_step m ev) = lru_step (nat (maxSize m)) (mem_view m) ev"
  proof (cases ev')
    case (EvSet k v ttl)
    with ev Memory_Set_refines [OF assms, of now k v ttl] show ?thesis
      by (auto simp: mem_view_def)
  qed (use assms ev in \<open>auto simp: mem_view_def Memory_Get_refines Memory_Delete_refines
      removeExpired_def removeExpired_loop_refines Memory_Close_def\<close>)
  show "mem_inv m' \<and> maxSize m' = maxSize m" if "mem_step m ev = Some m'"
  proof (cases ev')
    case (EvSet k v ttl)
    with that ev Memory_Set_refines [OF assms, of now k v ttl] show ?thesis by auto
  next
    case EvClose
    with that ev assms show ?thesis
      by (auto simp: Memory_Close_def split: if_splits)
  qed (use that assms ev in \<open>auto simp: Memory_Get_refines Memory_Delete_refines
      removeExpired_def removeExpired_loop_refines\<close>)
qed

lemma mem_run_refines:
  assumes "mem_inv m" "1 \<le> maxSize m"
  shows "map_option mem_view (mem_run m evs) = lru_run (nat (maxSize m)) (mem_view m) evs"
    and "mem_run m evs = Some m' \<Longrightarrow> mem_inv m' \<and> maxSize m' = maxSize m"
proof -
  have "map_option mem_view (mem_run m evs) = lru_run (nat (maxSize m)) (mem_view m) evs
    \<and> (\<forall>m'. mem_run m evs = Some m' \<longrightarrow> mem_inv m' \<and> maxSize m' = maxSize m)"
    using assms
  proof (induction evs arbitrary: m)
    case (Cons ev evs)
    note step = mem_step_refines [OF Cons.prems, of ev]
    show ?case
    proof (cases "mem_step m ev")
      case None
      with step(1) show ?thesis by simp
    next
      case (Some m1)
      with step(1) have "lru_step (nat (maxSize m)) (mem_view m) ev = Some (mem_view m1)"
        by simp
      with Some step(2) [OF Some] Cons.IH [of m1] Cons.prems show ?thesis by simp
    qed
  qed simp
  then show "map_option mem_view (mem_run m evs) = lru_run (nat (maxSize m)) (mem_view m) evs"
    and "mem_run m evs = Some m' \<Longrightarrow> mem_inv m' \<and> maxSize m' = maxSize m"
    by blast+
qed

end
