(* ===== verification/CacheContract.thy ===== *)
theory CacheContract
  imports CacheLru
begin

text \<open>
  The interface Cache of src/cache/cache.go as a contract, what a caller may conclude from it
  whichever implementation is behind it, the proof that the in-memory cache meets it, and the
  properties of the in-memory cache.
\<close>

section \<open>The contract\<close>

text \<open>
  The ideal store a caller has in mind: it forgets nothing. \<open>W k = Some (v, d)\<close> means that \<open>v\<close>
  is what was last stored under \<open>k\<close> and that it is good until \<open>d\<close>. A cache may answer a miss at
  any time, and otherwise only what the ideal store holds.
\<close>

type_synonym ideal = "string \<Rightarrow> (bytes \<times> int) option"

definition allowed :: "(bytes \<times> int) option \<Rightarrow> int \<Rightarrow> bytes res \<Rightarrow> bool" where
  "allowed w now r \<longleftrightarrow> r = Inl ErrCacheMiss \<or> (\<exists>v d. w = Some (v, d) \<and> now \<le> d \<and> r = Inr v)"

text \<open>
  \<open>background\<close> is whatever the implementation does by itself: the cleanup of the memory cache.
\<close>

locale cache_contract =
  fixes get :: "int \<Rightarrow> 's \<Rightarrow> string \<Rightarrow> bytes res \<times> 's"
    and put :: "int \<Rightarrow> 's \<Rightarrow> string \<Rightarrow> bytes \<Rightarrow> int \<Rightarrow> (err \<times> 's) option"
    and del :: "'s \<Rightarrow> string \<Rightarrow> err \<times> 's"
    and background :: "'b \<Rightarrow> 's \<Rightarrow> 's"
    and ok :: "'s \<Rightarrow> bool"
  assumes get_ok: "ok s \<Longrightarrow> ok (snd (get t s k))"
    and get_keeps: "ok s \<Longrightarrow> fst (get t' (snd (get t s k)) k') = fst (get t' s k')"
    and get_miss: "ok s \<Longrightarrow> fst (get t s k) = Inl e \<Longrightarrow> e = ErrCacheMiss"
    and put_returns: "ok s \<Longrightarrow> \<exists>s'. put t s k v ttl = Some (None, s') \<and> ok s'"
    and put_same: "ok s \<Longrightarrow> put t s k v ttl = Some (None, s') \<Longrightarrow>
      fst (get t' s' k) = (if t' > t + ttl then Inl ErrCacheMiss else Inr v)"
    and put_other: "ok s \<Longrightarrow> put t s k v ttl = Some (None, s') \<Longrightarrow> k' \<noteq> k \<Longrightarrow>
      fst (get t' s' k') \<in> {Inl ErrCacheMiss, fst (get t' s k')}"
    and del_ok: "ok s \<Longrightarrow> fst (del s k) = None \<and> ok (snd (del s k))"
    and del_get: "ok s \<Longrightarrow>
      fst (get t (snd (del s k)) k') = (if k' = k then Inl ErrCacheMiss else fst (get t s k'))"
    and background_ok: "ok s \<Longrightarrow> ok (background b s)"
    and background_get: "ok s \<Longrightarrow>
      fst (get t (background b s) k) \<in> {Inl ErrCacheMiss, fst (get t s k)}"
begin

definition within :: "'s \<Rightarrow> ideal \<Rightarrow> bool" where
  "within s W \<longleftrightarrow> ok s \<and> (\<forall>t k. allowed (W k) t (fst (get t s k)))"

lemma allowed_miss: "allowed w t (Inl ErrCacheMiss)"
  by (simp add: allowed_def)

lemma within_get: "within s W \<Longrightarrow> within (snd (get t s k)) W"
  by (simp add: within_def get_ok get_keeps)

lemma within_put:
  assumes "within s W" and put: "put t s k v ttl = Some (None, s')"
  shows "within s' (W(k \<mapsto> (v, t + ttl)))"
proof -
  have ok: "ok s" using assms(1) by (simp add: within_def)
  have "ok s'" using put_returns [OF ok, of t k v ttl] put by auto
  moreover have "allowed ((W(k \<mapsto> (v, t + ttl))) k') t' (fst (get t' s' k'))" for t' k'
  proof (cases "k' = k")
    case True
    then show ?thesis by (simp add: put_same [OF ok put]) (simp add: allowed_def)
  next
    case False
    with put_other [OF ok put False, of t'] assms(1) allowed_miss show ?thesis
      by (auto simp: within_def)
  qed
  ultimately show ?thesis by (simp add: within_def)
qed

lemma within_del: "within s W \<Longrightarrow> within (snd (del s k)) (W(k := None))"
  by (auto simp: within_def del_ok del_get allowed_miss)

lemma within_background: "within s W \<Longrightarrow> within (background b s) W"
  unfolding within_def using background_ok background_get allowed_miss
  by (metis empty_iff insert_iff)

lemma get_after_put:
  assumes "ok s"
  shows "\<exists>s'. put t s k v ttl = Some (None, s') \<and> ok s' \<and> (\<forall>t'\<le>t + ttl. fst (get t' s' k) = Inr v)"
  using put_returns [OF assms, of t k v ttl] put_same [OF assms] by fastforce

end

section \<open>The in-memory cache meets it\<close>

definition answer :: "int \<Rightarrow> memoryEntry option \<Rightarrow> bytes res" where
  "answer t f = (case f of
     None \<Rightarrow> Inl ErrCacheMiss | Some en \<Rightarrow> if t > expiresAt en then Inl ErrCacheMiss else Inr (val en))"

lemma fst_lru_get: "fst (lru_get t es k) = answer t (lru_find k es)"
  by (simp add: lru_get_def answer_def split: option.splits)

lemma answer_None [simp]: "answer t None = Inl ErrCacheMiss"
  by (simp add: answer_def)

lemma answer_miss: "answer t f = Inl e \<Longrightarrow> e = ErrCacheMiss"
  by (auto simp: answer_def split: option.splits if_splits)

lemma answer_weaker: "f \<in> {None, g} \<Longrightarrow> answer t f \<in> {Inl ErrCacheMiss, answer t g}"
  by (auto simp: answer_def)

lemma lru_find_Cons: "lru_find k (en # es) = (if key en = k then Some en else lru_find k es)"
  by (simp add: lru_find_def)

lemma lru_find_filter:
  "lru_find k (filter P es) \<in> {None, lru_find k es}" if "distinct (map key es)"
  using that by (induction es) (auto simp: lru_find_Cons lru_find_def map_of_eq_None_iff image_iff)

lemma lru_find_drop: "lru_find k' (lru_drop k es) = (if k' = k then None else lru_find k' es)"
  by (induction es) (auto simp: lru_find_def lru_drop_def)

lemma lru_find_take: "distinct (map key es) \<Longrightarrow> lru_find k (take n es) \<in> {None, lru_find k es}"
proof (induction es arbitrary: n)
  case (Cons en es)
  then show ?case
    by (cases n) (auto simp: lru_find_Cons lru_find_def)
qed (simp add: lru_find_def)

lemma lru_find_get: "lru_find k' (snd (lru_get t es k)) = lru_find k' es"
proof -
  have "key en = k" if "lru_find k es = Some en" for en
    using that by (auto simp: lru_find_def dest: map_of_SomeD)
  then show ?thesis
    by (auto simp: lru_get_def lru_find_Cons lru_find_drop split: option.splits)
qed

definition mem_background :: "int \<times> string list \<Rightarrow> Memory \<Rightarrow> Memory" where
  "mem_background b m = removeExpired (fst b) (snd b) m"

definition mem_ok :: "Memory \<Rightarrow> bool" where
  "mem_ok m \<longleftrightarrow> mem_inv m \<and> 1 \<le> maxSize m"

lemmas mem_refines = Memory_Get_refines Memory_Delete_refines removeExpired_loop_refines

lemma mem_ok_ops:
  assumes "mem_ok m"
  shows "mem_ok (snd (Memory_Get t m k))" "mem_ok (snd (Memory_Delete m k))"
    "mem_ok (mem_background b m)"
    "\<exists>m'. Memory_Set t m k v ttl = Some (None, m') \<and> mem_ok m'
       \<and> mem_abs m' = lru_set t (nat (maxSize m)) (mem_abs m) k v ttl"
  using assms Memory_Set_refines [of m t k v ttl]
  by (auto simp: mem_ok_def mem_refines mem_background_def removeExpired_def)

interpretation mc: cache_contract Memory_Get Memory_Set Memory_Delete mem_background mem_ok
proof unfold_locales
  fix m :: Memory and t t' :: int and k k' v and ttl :: int
  assume ok: "mem_ok m"
  then have inv: "mem_inv m" and dist: "distinct (map key (mem_abs m))"
    by (auto simp: mem_ok_def distinct_keys_abs)
  note find = mem_refines [OF inv] fst_lru_get lru_find_get lru_find_drop
  show "mem_ok (snd (Memory_Get t m k))" "mem_ok (mem_background b m)" for b
    using mem_ok_ops [OF ok] by blast+
  show "fst (Memory_Get t' (snd (Memory_Get t m k)) k') = fst (Memory_Get t' m k')"
    using mem_ok_ops(1) [OF ok, of t k] by (simp add: mem_ok_def find mem_refines)
  show "e = ErrCacheMiss" if "fst (Memory_Get t m k) = Inl e" for e
    using that by (auto simp: find dest: answer_miss)
  from mem_ok_ops(4) [OF ok, of t k v ttl] obtain m1 where
    m1: "Memory_Set t m k v ttl = Some (None, m1)" "mem_ok m1"
      "mem_abs m1 = lru_set t (nat (maxSize m)) (mem_abs m) k v ttl" by blast
  then show "\<exists>s'. Memory_Set t m k v ttl = Some (None, s') \<and> mem_ok s'" by blast
  have inv1: "mem_inv m1" using m1(2) by (simp add: mem_ok_def)
  fix m'
  assume "Memory_Set t m k v ttl = Some (None, m')"
  with m1 have m': "m' = m1" by simp
  show "fst (Memory_Get t' m' k) = (if t' > t + ttl then Inl ErrCacheMiss else Inr v)"
    by (simp add: m' mem_refines [OF inv1] fst_lru_get m1(3) lru_set_def Let_def lru_find_Cons answer_def)
  assume "k' \<noteq> k"
  moreover from this have "lru_find k' (mem_abs m1) \<in> {None, lru_find k' (mem_abs m)}"
    using lru_find_take [OF dist] by (simp add: m1(3) lru_set_def Let_def lru_find_Cons lru_find_drop)
  ultimately show "fst (Memory_Get t' m' k') \<in> {Inl ErrCacheMiss, fst (Memory_Get t' m k')}"
    by (simp only: m' mem_refines [OF inv1] find answer_weaker)
next
  fix m :: Memory and t :: int and k k' and b :: "int \<times> string list"
  assume ok: "mem_ok m"
  then have inv: "mem_inv m" and dist: "distinct (map key (mem_abs m))"
    by (auto simp: mem_ok_def distinct_keys_abs)
  show "fst (Memory_Delete m k) = None \<and> mem_ok (snd (Memory_Delete m k))"
    using mem_ok_ops(2) [OF ok] by (simp add: mem_refines [OF inv])
  show "fst (Memory_Get t (snd (Memory_Delete m k)) k') =
      (if k' = k then Inl ErrCacheMiss else fst (Memory_Get t m k'))"
    using mem_ok_ops(2) [OF ok, of k]
    by (simp add: mem_ok_def mem_refines mem_refines [OF inv] fst_lru_get lru_find_drop)
  show "fst (Memory_Get t (mem_background b m) k) \<in> {Inl ErrCacheMiss, fst (Memory_Get t m k)}"
    using mem_ok_ops(3) [OF ok, of b] answer_weaker [OF lru_find_filter [OF dist]]
    by (simp add: mem_ok_def mem_refines mem_refines [OF inv] fst_lru_get mem_background_def
        removeExpired_def)
qed

section \<open>Properties of the in-memory cache\<close>

text \<open>The ideal store after a history.\<close>

fun ideal_step :: "ideal \<Rightarrow> int \<times> mem_event \<Rightarrow> ideal" where
  "ideal_step W (now, EvSet k v ttl) = W(k \<mapsto> (v, now + ttl))"
| "ideal_step W (now, EvDelete k) = W(k := None)"
| "ideal_step W (now, _) = W"

lemma Memory_Get_stop_closed [simp]:
  "fst (Memory_Get t (m\<lparr>stop_closed := b\<rparr>) k) = fst (Memory_Get t m k)"
  by (simp add: Memory_Get_def toMemoryEntry_def split: option.splits)

lemma mem_step_within:
  assumes "mc.within m W" "mem_step m ev = Some m'"
  shows "mc.within m' (ideal_step W ev)"
proof -
  obtain now ev' where ev: "ev = (now, ev')" by (cases ev)
  show ?thesis
  proof (cases ev')
    case (EvGet k)
    with ev assms mc.within_get [OF assms(1)] show ?thesis by auto
  next
    case (EvSet k v ttl)
    have ok: "mem_ok m" using assms(1) by (simp add: mc.within_def)
    with EvSet ev assms have "Memory_Set now m k v ttl = Some (None, m')"
      using mc.put_returns [OF ok, of now k v ttl] by auto
    with mc.within_put [OF assms(1)] EvSet ev show ?thesis by simp
  next
    case (EvDelete k)
    with ev assms mc.within_del [OF assms(1)] show ?thesis by auto
  next
    case (EvTick order)
    with ev assms mc.within_background [OF assms(1), of "(now, order)"] show ?thesis
      by (auto simp: mem_background_def)
  next
    case EvClose
    with ev assms show ?thesis
      by (auto simp: Memory_Close_def mc.within_def mem_ok_def split: if_splits)
  qed
qed

lemma mem_run_within:
  "mc.within m W \<Longrightarrow> mem_run m evs = Some m' \<Longrightarrow> mc.within m' (foldl ideal_step W evs)"
proof (induction evs arbitrary: m W)
  case (Cons ev evs)
  then show ?case
    by (auto split: option.splits dest: mem_step_within)
qed simp

lemma NewMemory_ok: "1 \<le> n \<Longrightarrow> mem_ok (NewMemory n)"
  by (simp add: mem_ok_def mem_inv_NewMemory) (simp add: NewMemory_def)

lemma NewMemory_within: "1 \<le> n \<Longrightarrow> mc.within (NewMemory n) Map.empty"
  by (simp add: mc.within_def NewMemory_ok) (simp add: Memory_Get_def NewMemory_def allowed_def)

definition ev_closes :: "(int \<times> mem_event) list \<Rightarrow> nat" where
  "ev_closes evs = length (filter (\<lambda>(_, ev). ev = EvClose) evs)"

lemma lru_run_total:
  "ev_closes evs + (if closed then 1 else 0) \<le> 1 \<Longrightarrow> \<exists>s. lru_run cap (es, closed) evs = Some s"
proof (induction evs arbitrary: es closed)
  case (Cons ev evs)
  obtain now ev' where ev: "ev = (now, ev')" by (cases ev)
  with Cons show ?case
    by (cases ev') (auto simp: ev_closes_def split: if_splits)
qed simp

lemma lru_set_length: "1 \<le> cap \<Longrightarrow> length es \<le> cap \<Longrightarrow> length (lru_set now cap es k v ttl) \<le> cap"
proof -
  assume cap: "1 \<le> cap" "length es \<le> cap"
  have "length (lru_drop k es) < length es" if "lru_find k es \<noteq> None"
    using that by (auto simp: lru_find_def lru_drop_def map_of_eq_None_iff image_iff
        intro!: length_filter_less)
  with cap show ?thesis by (auto simp: lru_set_def Let_def)
qed

lemma lru_get_length: "length (snd (lru_get now es k)) \<le> length es"
proof -
  have "length (lru_drop k es) < length es" if "lru_find k es = Some en" for en
    using that by (auto simp: lru_find_def lru_drop_def dest!: map_of_SomeD
        intro!: length_filter_less)
  then show ?thesis by (auto simp: lru_get_def Suc_leI split: option.splits)
qed

lemma lru_run_length:
  "1 \<le> cap \<Longrightarrow> length es \<le> cap \<Longrightarrow> lru_run cap (es, closed) evs = Some (es', closed') \<Longrightarrow> length es' \<le> cap"
proof (induction evs arbitrary: es closed)
  case (Cons ev evs)
  obtain now ev' where ev: "ev = (now, ev')" by (cases ev)
  from Cons.prems ev obtain es1 closed1 where
    step: "lru_step cap (es, closed) ev = Some (es1, closed1)" "lru_run cap (es1, closed1) evs = Some (es', closed')"
    by (auto split: option.splits)
  have "length es1 \<le> cap"
    using step(1) ev Cons.prems(1,2)
    by (cases ev') (auto simp: lru_drop_def lru_set_length split: if_splits
        intro: le_trans [OF length_filter_le] le_trans [OF lru_get_length])
  with Cons.IH [OF Cons.prems(1) _ step(2)] show ?case .
qed simp

text \<open>A history that fills a cache of two entries, uses the older one, overflows and closes.\<close>

definition demo_events :: "(int \<times> mem_event) list" where
  "demo_events = [(0, EvSet ''a'' ''1'' 10), (1, EvSet ''b'' ''2'' 10), (2, EvGet ''a''),
     (3, EvSet ''c'' ''3'' 10), (4, EvTick [''a'', ''c'']), (5, EvClose)]"

lemmas mem_eval = NewMemory_def Memory_Set_def Memory_Get_def evict_loop.simps push_entry_def
  toMemoryEntry_def evictOldest_def list_Back_def removeElement_def list_Remove_def
  list_MoveToFront_def removeExpired_def Memory_Close_def map_del_def Let_def

lemma NewMemory_2: "mem_inv (NewMemory 2)" "1 \<le> maxSize (NewMemory 2)"
  by (simp_all add: mem_inv_NewMemory) (simp add: NewMemory_def)

text \<open>
  C1 (refinement): along any history of calls, cleanup ticks and closes, the map-and-list cache with room for at least
  one entry behaves as the plain list of entries in order of use: Set puts its entry in front and, for a new
  key in a full cache, drops the least recently used ones; Get moves what it finds to the front;
  Delete and the cleanup drop entries. Both fail at the same point, at a second Close.
\<close>

theorem memory_refines_lru:
  assumes "mem_inv m" "1 \<le> maxSize m"
  shows "map_option mem_view (mem_run m evs) = lru_run (nat (maxSize m)) (mem_view m) evs"
  using assms by (rule mem_run_refines)

theorem memory_refines_lru_witness:
  "mem_inv (NewMemory 2) \<and> 1 \<le> maxSize (NewMemory 2)
   \<and> map_option mem_view (mem_run (NewMemory 2) demo_events) =
     Some ([\<lparr>key = ''c'', val = ''3'', expiresAt = 13\<rparr>, \<lparr>key = ''a'', val = ''1'', expiresAt = 10\<rparr>], True)"
proof -
  have "lru_run (nat (maxSize (NewMemory 2))) (mem_view (NewMemory 2)) demo_events =
     Some ([\<lparr>key = ''c'', val = ''3'', expiresAt = 13\<rparr>, \<lparr>key = ''a'', val = ''1'', expiresAt = 10\<rparr>], True)"
    by (simp add: demo_events_def NewMemory_def mem_view_def mem_abs_def lru_set_def lru_get_def
        lru_find_def lru_drop_def)
  then show ?thesis using NewMemory_2 memory_refines_lru [OF NewMemory_2, of demo_events] by simp
qed

text \<open>
  C2 (safety): a cache made with room for at least one entry serves every history with at most one
  Close to its end (every Set returns), and at the end the map and the list agree, hold one element
  per key and never more entries than the limit.
\<close>

theorem memory_total_and_bounded:
  assumes "1 \<le> n" "ev_closes evs \<le> 1"
  shows "\<exists>m. mem_run (NewMemory n) evs = Some m \<and> mem_inv m
    \<and> int (length (evictList m)) \<le> n \<and> length (items m) = length (evictList m)"
proof -
  have new: "mem_inv (NewMemory n)" "maxSize (NewMemory n) = n" "mem_view (NewMemory n) = ([], False)"
    by (simp_all add: mem_inv_NewMemory) (simp_all add: NewMemory_def mem_view_def mem_abs_def)
  obtain es closed where lru: "lru_run (nat n) ([], False) evs = Some (es, closed)"
    using lru_run_total [of evs False] assms(2) by force
  with mem_run_refines(1) [OF new(1), of evs] new assms(1)
  obtain m where m: "mem_run (NewMemory n) evs = Some m" "mem_view m = (es, closed)"
    by auto
  have inv: "mem_inv m" using mem_run_refines(2) [OF new(1) _ m(1)] new assms(1) by simp
  have "length es \<le> nat n" using lru_run_length [OF _ _ lru] assms(1) by simp
  then have "int (length (evictList m)) \<le> n"
    using m(2) assms(1) by (auto simp: mem_view_def mem_abs_def)
  moreover have "length (items m) = length (evictList m)"
  proof -
    have "dom (map_of (items m)) = key ` set (mem_abs m)"
      using items_None_iff [OF inv] by (auto simp: domIff image_iff) (metis option.distinct(1))
    then show ?thesis
      using mem_invD(1) [OF inv] distinct_card [OF distinct_keys_abs [OF inv]]
      by (simp add: length_map_ok) (simp add: mem_abs_def)
  qed
  ultimately show ?thesis using m(1) inv by blast
qed

theorem memory_total_and_bounded_witness:
  "ev_closes demo_events \<le> 1 \<and> (\<exists>m. mem_run (NewMemory 2) demo_events = Some m \<and> mem_inv m
    \<and> int (length (evictList m)) \<le> 2 \<and> length (items m) = length (evictList m))"
proof -
  have "ev_closes demo_events \<le> 1"
    by (simp add: ev_closes_def demo_events_def)
  then show ?thesis using memory_total_and_bounded [of 2 demo_events] by simp
qed

text \<open>
  C3 (safety): no stale answer. Whatever Get answers after a history on a new cache is a miss or
  the value of the last Set of that key, not followed by a Delete of it, and not past its deadline.
\<close>

theorem memory_coherent:
  assumes "1 \<le> n" "mem_run (NewMemory n) evs = Some m"
  shows "allowed (foldl ideal_step Map.empty evs k) now (fst (Memory_Get now m k))"
  using mem_run_within [OF NewMemory_within [OF assms(1)] assms(2)] by (simp add: mc.within_def)

theorem memory_coherent_witness:
  "\<exists>m. mem_run (NewMemory 2) demo_events = Some m
    \<and> allowed (foldl ideal_step Map.empty demo_events ''a'') 5 (fst (Memory_Get 5 m ''a''))
    \<and> fst (Memory_Get 5 m ''a'') = Inr ''1''"
proof -
  obtain m where m: "mem_run (NewMemory 2) demo_events = Some m" "fst (Memory_Get 5 m ''a'') = Inr ''1''"
    by (simp add: demo_events_def mem_eval)
  then show ?thesis using memory_coherent [OF _ m(1), of "''a''" 5] by simp
qed

text \<open>
  C4 (type): the values in the list are what the code takes them for. After every history on a new cache the type
  assertion of toMemoryEntry succeeds on every element of the list and of the map, with the key under which
  the map has it; so Get misses or finds, and Set and Delete never return an error.
\<close>

theorem memory_assertions_hold:
  assumes "1 \<le> n" "mem_run (NewMemory n) evs = Some m"
  shows "(\<forall>e\<in>set (evictList m). \<exists>entry. toMemoryEntry m e = Inr entry \<and> map_of (items m) (key entry) = Some e)
    \<and> (\<forall>k e. map_of (items m) k = Some e \<longrightarrow> e \<in> set (evictList m) \<and> (\<exists>entry. toMemoryEntry m e = Inr entry \<and> key entry = k))
    \<and> fst (Memory_Get now m k) \<in> insert (Inl ErrCacheMiss) (range Inr)
    \<and> fst (Memory_Delete m k) = None \<and> map_option fst (Memory_Set now m k v ttl) = Some None"
proof -
  have inv: "mem_inv m" and room: "1 \<le> maxSize m"
    using mem_run_refines(2) [OF mem_inv_NewMemory _ assms(2)] assms(1) by (simp_all add: NewMemory_def)
  have "answer now f \<in> insert (Inl ErrCacheMiss) (range Inr)" for f
    by (cases "answer now f") (auto dest: answer_miss)
  then have "fst (Memory_Get now m k) \<in> insert (Inl ErrCacheMiss) (range Inr)"
    by (simp only: Memory_Get_refines(1) [OF inv] fst_lru_get)
  moreover have "fst (Memory_Delete m k) = None" by (rule Memory_Delete_refines [OF inv])
  moreover have "map_option fst (Memory_Set now m k v ttl) = Some None" using Memory_Set_refines [OF inv room] by force
  ultimately show ?thesis using inv by (auto simp: toMemoryEntry_inv mem_invD)
qed

theorem memory_assertions_hold_witness:
  "\<exists>m. mem_run (NewMemory 2) demo_events = Some m \<and> map_option fst (Memory_Set 0 m ''a'' ''v'' 0) = Some None
     \<and> fst (Memory_Delete m ''a'') = None"
proof -
  obtain m where m: "mem_run (NewMemory 2) demo_events = Some m" by (simp add: demo_events_def mem_eval)
  then show ?thesis using memory_assertions_hold [OF _ m, of 0 "''a''" "''v''" 0] by auto
qed

text \<open>
  Set returns without error and the value is there for Get until its time to live
  is over, in every state of the cache the operations can lead to.
\<close>

theorem memory_get_after_set:
  assumes "mem_inv m" "1 \<le> maxSize m"
  shows "\<exists>m'. Memory_Set t m k v ttl = Some (None, m')
    \<and> (\<forall>t'. fst (Memory_Get t' m' k) = (if t' \<le> t + ttl then Inr v else Inl ErrCacheMiss))"
proof -
  have ok: "mem_ok m" using assms by (simp add: mem_ok_def)
  with mc.put_returns mc.put_same show ?thesis
    by (metis linorder_not_le)
qed

theorem memory_get_after_set_witness:
  "\<exists>m'. Memory_Set 0 (NewMemory 2) ''k'' ''v'' 5 = Some (None, m')
    \<and> (\<forall>t'. fst (Memory_Get t' m' ''k'') = (if t' \<le> 0 + 5 then Inr ''v'' else Inl ErrCacheMiss))"
  by (rule memory_get_after_set [OF NewMemory_2])

text \<open>
  With a limit of zero or less the first Set on a new cache never returns: the
  eviction loop finds the list empty, removes nothing and tests the same condition again.
\<close>

theorem memory_set_hangs:
  assumes "n \<le> 0"
  shows "Memory_Set now (NewMemory n) k v ttl = None"
  using assms evict_loop_diverges [of "NewMemory n"] by (simp add: Memory_Set_def NewMemory_def)

theorem memory_set_hangs_witness: "Memory_Set 0 (NewMemory 0) ''k'' ''v'' 5 = None"
  by (rule memory_set_hangs) simp

end
