(* ===== verification/Utf8.thy ===== *)
theory Utf8
  imports Prelude
begin

text \<open>
  What the repository uses of the standard packages unicode/utf8, unicode and strings. A Go string
  is a list of bytes, which is what a HOL \<open>string\<close> is; a rune is a code point, a number. The table
  of decimal digits is the one of Unicode 15.0, the version Go 1.26 (the toolchain of
  src/Dockerfile.dev) carries.
\<close>

section \<open>Runes\<close>

abbreviation byte :: "char \<Rightarrow> nat" where
  "byte c \<equiv> of_char c"

definition RuneError :: nat where
  "RuneError = 0xFFFD"

definition valid_rune :: "nat \<Rightarrow> bool" where
  "valid_rune r \<longleftrightarrow> r \<le> 0x10FFFF \<and> \<not> (0xD800 \<le> r \<and> r \<le> 0xDFFF)"

definition cont :: "char \<Rightarrow> bool" where
  "cont c \<longleftrightarrow> 0x80 \<le> byte c \<and> byte c \<le> 0xBF"

text \<open>The range of the second byte, by the first one.\<close>

definition second_ok :: "nat \<Rightarrow> char \<Rightarrow> bool" where
  "second_ok b0 c \<longleftrightarrow>
     (if b0 = 0xE0 then 0xA0 else if b0 = 0xF0 then 0x90 else 0x80) \<le> byte c
   \<and> byte c \<le> (if b0 = 0xED then 0x9F else if b0 = 0xF4 then 0x8F else 0xBF)"

definition bad_rune :: "nat \<times> nat" where
  "bad_rune = (RuneError, 1)"

fun DecodeRune :: "string \<Rightarrow> nat \<times> nat" where
  "DecodeRune [] = (RuneError, 0)"
| "DecodeRune (c0 # s) =
     (let b0 = byte c0 in
      if b0 < 0x80 then (b0, 1)
      else if 0xC2 \<le> b0 \<and> b0 \<le> 0xDF then
        (case s of
           c1 # _ \<Rightarrow> if cont c1 then ((b0 - 0xC0) * 64 + (byte c1 - 0x80), 2) else bad_rune
         | [] \<Rightarrow> bad_rune)
      else if 0xE0 \<le> b0 \<and> b0 \<le> 0xEF then
        (case s of
           c1 # c2 # _ \<Rightarrow> if second_ok b0 c1 \<and> cont c2
             then ((b0 - 0xE0) * 4096 + (byte c1 - 0x80) * 64 + (byte c2 - 0x80), 3) else bad_rune
         | _ \<Rightarrow> bad_rune)
      else if 0xF0 \<le> b0 \<and> b0 \<le> 0xF4 then
        (case s of
           c1 # c2 # c3 # _ \<Rightarrow> if second_ok b0 c1 \<and> cont c2 \<and> cont c3
             then ((b0 - 0xF0) * 262144 + (byte c1 - 0x80) * 4096 + (byte c2 - 0x80) * 64
                   + (byte c3 - 0x80), 4) else bad_rune
         | _ \<Rightarrow> bad_rune)
      else bad_rune)"

text \<open>\<open>AppendRune\<close>, which \<open>strings.Builder.WriteRune\<close> uses: invalid runes become \<open>RuneError\<close>.\<close>

definition encode3 :: "nat \<Rightarrow> string" where
  "encode3 r = [char_of (0xE0 + r div 4096), char_of (0x80 + r div 64 mod 64), char_of (0x80 + r mod 64)]"

definition EncodeRune :: "nat \<Rightarrow> string" where
  "EncodeRune r =
     (if r < 0x80 then [char_of r]
      else if r < 0x800 then [char_of (0xC0 + r div 64), char_of (0x80 + r mod 64)]
      else if \<not> valid_rune r then encode3 RuneError
      else if r < 0x10000 then encode3 r
      else [char_of (0xF0 + r div 262144), char_of (0x80 + r div 4096 mod 64),
            char_of (0x80 + r div 64 mod 64), char_of (0x80 + r mod 64)])"

lemma DecodeRune_size:
  assumes "s \<noteq> []"
  shows "1 \<le> snd (DecodeRune s)" "snd (DecodeRune s) \<le> length s" "snd (DecodeRune s) \<le> 4"
  using assms
  by (cases s; auto simp: Let_def bad_rune_def split: list.splits)+

lemma length_drop_rune [simp]:
  "s \<noteq> [] \<Longrightarrow> length (drop (snd (DecodeRune s)) s) < length s"
  using DecodeRune_size(1) [of s] by simp

lemma byte_bound [simp]: "byte c < 256"
  by (rule nat_of_char_less_256)

lemma EncodeRune_length: "1 \<le> length (EncodeRune r)" "length (EncodeRune r) \<le> 4"
  by (simp_all add: EncodeRune_def encode3_def)

lemma valid_RuneError [simp]: "valid_rune RuneError"
  by (simp add: valid_rune_def RuneError_def)

text \<open>Splitting a number into groups of six bits.\<close>

lemma split64:
  "y < 64 \<Longrightarrow> (x * 64 + y) div 64 = (x::nat)" "y < 64 \<Longrightarrow> (x * 64 + y) mod 64 = (y::nat)"
  by simp_all

lemma div4096: "(r::nat) div 4096 = r div 64 div 64"
  using div_mult2_eq [of r 64 64] by simp

lemma div262144: "(r::nat) div 262144 = r div 64 div 64 div 64"
  using div_mult2_eq [of r 4096 64] by (simp add: div4096)

lemma groups3: "(r::nat) = r div 4096 * 4096 + r div 64 mod 64 * 64 + r mod 64"
proof -
  have "r = r div 64 * 64 + r mod 64" by simp
  moreover have "r div 64 = r div 64 div 64 * 64 + r div 64 mod 64" by simp
  ultimately show ?thesis unfolding div4096 by linarith
qed

lemma groups4: "(r::nat) = r div 262144 * 262144 + r div 4096 mod 64 * 4096 + r div 64 mod 64 * 64 + r mod 64"
proof -
  have "r = r div 64 * 64 + r mod 64" by simp
  moreover have "r div 64 = r div 64 div 64 * 64 + r div 64 mod 64" by simp
  moreover have "r div 64 div 64 = r div 64 div 64 div 64 * 64 + r div 64 div 64 mod 64" by simp
  ultimately show ?thesis unfolding div4096 div262144 by linarith
qed

lemma ungroup3:
  assumes "r = x * 4096 + y * 64 + z" "y < 64" "z < (64::nat)"
  shows "r div 4096 = x" "r div 64 mod 64 = y" "r mod 64 = z"
proof -
  have r: "r = (x * 64 + y) * 64 + z" using assms(1) by simp
  have "r div 64 = x * 64 + y" "r mod 64 = z" using assms(2,3) by (simp_all only: r split64)
  then show "r div 4096 = x" "r div 64 mod 64 = y" "r mod 64 = z"
    using assms(2) by (simp_all only: div4096 split64)
qed

lemma ungroup4:
  assumes "r = x * 262144 + y * 4096 + z * 64 + w" "y < 64" "z < 64" "w < (64::nat)"
  shows "r div 262144 = x" "r div 4096 mod 64 = y" "r div 64 mod 64 = z" "r mod 64 = w"
proof -
  have r: "r = ((x * 64 + y) * 64 + z) * 64 + w" using assms(1) by simp
  have "r div 64 = (x * 64 + y) * 64 + z" "r mod 64 = w" using assms(2-4) by (simp_all only: r split64)
  then show "r div 262144 = x" "r div 4096 mod 64 = y" "r div 64 mod 64 = z" "r mod 64 = w"
    using assms(2,3) by (simp_all only: div4096 div262144 split64)
qed

text \<open>Decoding an encoded rune gives it back.\<close>

lemma Decode_Encode:
  assumes "valid_rune r"
  shows "DecodeRune (EncodeRune r @ s) = (r, length (EncodeRune r))"
proof -
  consider (1) "r < 0x80" | (2) "0x80 \<le> r" "r < 0x800" | (3) "0x800 \<le> r" "r < 0x10000" | (4) "0x10000 \<le> r"
    by linarith
  then show ?thesis
  proof cases
    case 1
    then show ?thesis by (simp add: EncodeRune_def)
  next
    case 2
    then have "r div 64 < 32" "2 \<le> r div 64" by auto
    moreover have "r mod 64 \<le> 63" using pos_mod_bound [of 64 "int r"] by presburger
    ultimately
    show ?thesis using 2 by (simp add: EncodeRune_def cont_def)
  next
    case 3
    define x y z where "x = r div 4096" and "y = r div 64 mod 64" and "z = r mod 64"
    have r: "r = x * 4096 + y * 64 + z" using groups3 [of r] by (simp add: x_def y_def z_def)
    have b: "y < 64" "z < 64" by (simp_all add: y_def z_def)
    have "x < 16" using r 3 by linarith
    moreover have "32 \<le> y" if "x = 0" using r b 3 that by linarith
    moreover have "y < 32" if "x = 13" using r b assms that by (simp add: valid_rune_def)
    moreover have "EncodeRune r = [char_of (0xE0 + x), char_of (0x80 + y), char_of (0x80 + z)]"
      using 3 assms by (simp add: EncodeRune_def encode3_def x_def y_def z_def)
    ultimately show ?thesis using b by (auto simp: cont_def second_ok_def r Let_def)
  next
    case 4
    define x y z w where "x = r div 262144" and "y = r div 4096 mod 64" and "z = r div 64 mod 64"
      and "w = r mod 64"
    have r: "r = x * 262144 + y * 4096 + z * 64 + w"
      using groups4 [of r] by (simp add: x_def y_def z_def w_def)
    have b: "y < 64" "z < 64" "w < 64" by (simp_all add: y_def z_def w_def)
    have "r \<le> 0x10FFFF" using assms by (simp add: valid_rune_def)
    then have "x < 5" using r by linarith
    moreover have "16 \<le> y" if "x = 0" using r b 4 that by linarith
    moreover have "y < 16" if "x = 4" using r b \<open>r \<le> 0x10FFFF\<close> that by linarith
    moreover have "EncodeRune r =
        [char_of (0xF0 + x), char_of (0x80 + y), char_of (0x80 + z), char_of (0x80 + w)]"
      using 4 assms by (simp add: EncodeRune_def x_def y_def z_def w_def)
    ultimately show ?thesis using b by (auto simp: cont_def second_ok_def r Let_def)
  qed
qed

lemma char_of_byte: "byte c = n \<Longrightarrow> char_of n = c"
  by auto

lemma cont_bits: "cont c \<Longrightarrow> byte c - 0x80 < 64 \<and> 0x80 \<le> byte c"
  by (auto simp: cont_def)

lemma second_bits: "second_ok b c \<Longrightarrow> byte c - 0x80 < 64 \<and> 0x80 \<le> byte c"
  by (auto simp: second_ok_def split: if_splits)

text \<open>What decodes without error is the encoding of the rune it decodes to.\<close>

lemma Encode_Decode:
  assumes "s \<noteq> []" "DecodeRune s \<noteq> bad_rune"
  shows "EncodeRune (fst (DecodeRune s)) = take (snd (DecodeRune s)) s \<and> valid_rune (fst (DecodeRune s))"
proof -
  obtain c0 s' where s: "s = c0 # s'" using assms(1) by (cases s) auto
  let ?b = "byte c0"
  consider (1) "?b < 0x80" | (2) "0xC2 \<le> ?b" "?b \<le> 0xDF" | (3) "0xE0 \<le> ?b" "?b \<le> 0xEF"
    | (4) "0xF0 \<le> ?b" "?b \<le> 0xF4"
    using assms(2) s by (auto simp: Let_def split: if_splits)
  then show ?thesis
  proof cases
    case 1
    then show ?thesis by (simp add: s EncodeRune_def valid_rune_def)
  next
    case 2
    with assms(2) s obtain c1 t where t: "s' = c1 # t" and c1: "cont c1"
      by (auto simp: Let_def split: list.splits if_splits)
    define x y where "x = ?b - 0xC0" and "y = byte c1 - 0x80"
    have xy: "2 \<le> x" "x < 32" "y < 64" "?b = 0xC0 + x" "byte c1 = 0x80 + y"
      using 2 cont_bits [OF c1] by (auto simp: x_def y_def)
    have d: "DecodeRune s = (x * 64 + y, 2)"
      using 2 c1 by (simp add: s t x_def y_def)
    show ?thesis
      unfolding d fst_conv snd_conv
      using xy by (simp add: s t EncodeRune_def split64 char_of_byte [OF xy(4)] char_of_byte [OF xy(5)]
          valid_rune_def)
  next
    case 3
    with assms(2) s obtain c1 c2 t where t: "s' = c1 # c2 # t" and c: "second_ok ?b c1" "cont c2"
      by (auto simp: Let_def split: list.splits if_splits)
    define x y z where "x = ?b - 0xE0" and "y = byte c1 - 0x80" and "z = byte c2 - 0x80"
    have b: "x < 16" "y < 64" "z < 64" "?b = 0xE0 + x" "byte c1 = 0x80 + y" "byte c2 = 0x80 + z"
      "x = 0 \<longrightarrow> 32 \<le> y" "x = 13 \<longrightarrow> y < 32"
      using 3 cont_bits [OF c(2)] second_bits [OF c(1)] c(1)
      by (auto simp: x_def y_def z_def second_ok_def split: if_splits)
    define r where "r = x * 4096 + y * 64 + z"
    have d: "DecodeRune s = (r, 3)"
      using 3 c by (simp add: s t x_def y_def z_def r_def)
    have "r div 4096 = x" "r div 64 mod 64 = y" "r mod 64 = z"
      by (rule ungroup3 [OF r_def b(2,3)])+
    moreover have "0x800 \<le> r" using b(7) by (cases "x = 0") (simp_all add: r_def)
    moreover have "r < 0x10000" using b(1-3) by (simp add: r_def)
    moreover have "\<not> (0xD800 \<le> r \<and> r \<le> 0xDFFF)"
    proof (cases "x = 13")
      case True
      then show ?thesis using b(2,3,8) by (simp add: r_def)
    next
      case False
      then have "x \<le> 12 \<or> 14 \<le> x" by linarith
      then show ?thesis using b(2,3) by (auto simp: r_def)
    qed
    ultimately have r: "0x800 \<le> r" "r < 0x10000" "r div 4096 = x" "r div 64 mod 64 = y" "r mod 64 = z"
      "\<not> (0xD800 \<le> r \<and> r \<le> 0xDFFF)" by auto
    then have v: "valid_rune r" using r by (simp add: valid_rune_def)
    show ?thesis
      unfolding d fst_conv snd_conv
      using r v by (simp add: s t EncodeRune_def encode3_def char_of_byte [OF b(4)]
          char_of_byte [OF b(5)] char_of_byte [OF b(6)])
  next
    case 4
    with assms(2) s obtain c1 c2 c3 t where t: "s' = c1 # c2 # c3 # t"
      and c: "second_ok ?b c1" "cont c2" "cont c3"
      by (auto simp: Let_def split: list.splits if_splits)
    define x y z w where "x = ?b - 0xF0" and "y = byte c1 - 0x80" and "z = byte c2 - 0x80"
      and "w = byte c3 - 0x80"
    have b: "x < 5" "y < 64" "z < 64" "w < 64" "?b = 0xF0 + x" "byte c1 = 0x80 + y" "byte c2 = 0x80 + z"
      "byte c3 = 0x80 + w" "x = 0 \<longrightarrow> 16 \<le> y" "x = 4 \<longrightarrow> y < 16"
      using 4 cont_bits [OF c(2)] cont_bits [OF c(3)] second_bits [OF c(1)] c(1)
      by (auto simp: x_def y_def z_def w_def second_ok_def split: if_splits)
    define r where "r = x * 262144 + y * 4096 + z * 64 + w"
    have d: "DecodeRune s = (r, 4)"
      using 4 c by (simp add: s t x_def y_def z_def w_def r_def)
    have "r div 262144 = x" "r div 4096 mod 64 = y" "r div 64 mod 64 = z" "r mod 64 = w"
      by (rule ungroup4 [OF r_def b(2-4)])+
    moreover have "0x10000 \<le> r" using b(9) by (cases "x = 0") (simp_all add: r_def)
    moreover have "r \<le> 0x10FFFF" using b(1-4,10) by (cases "x = 4") (simp_all add: r_def)
    ultimately have r: "0x10000 \<le> r" "r \<le> 0x10FFFF" "r div 262144 = x" "r div 4096 mod 64 = y"
      "r div 64 mod 64 = z" "r mod 64 = w" by auto
    then have v: "valid_rune r" by (simp add: valid_rune_def)
    show ?thesis
      unfolding d fst_conv snd_conv
      using r v by (simp add: s t EncodeRune_def char_of_byte [OF b(5)]
          char_of_byte [OF b(6)] char_of_byte [OF b(7)] char_of_byte [OF b(8)])
  qed
qed

lemma DecodeRune_valid: "valid_rune (fst (DecodeRune s))"
proof (cases "s = [] \<or> DecodeRune s = bad_rune")
  case True
  then show ?thesis by (auto simp: bad_rune_def)
next
  case False
  with Encode_Decode [of s] show ?thesis by blast
qed


section \<open>Strings as runes\<close>

declare DecodeRune.simps(2) [simp del]

function ValidString :: "string \<Rightarrow> bool" where
  "ValidString [] = True"
| "ValidString (c # s) =
     (DecodeRune (c # s) \<noteq> bad_rune \<and> ValidString (drop (snd (DecodeRune (c # s))) (c # s)))"
  by pat_completeness auto
termination
  by (relation "measure length") (use length_drop_rune in fastforce)+

definition encode :: "nat list \<Rightarrow> string" where
  "encode rs = concat (map EncodeRune rs)"

lemma encode_simps [simp]:
  "encode [] = []" "encode (r # rs) = EncodeRune r @ encode rs" "encode (rs @ rs') = encode rs @ encode rs'"
  by (simp_all add: encode_def)

lemma EncodeRune_nonempty [simp]: "EncodeRune r \<noteq> []"
  using EncodeRune_length [of r] by auto

lemma ValidString_cons:
  assumes "valid_rune r"
  shows "ValidString (EncodeRune r @ s) = ValidString s"
proof -
  obtain c t where e: "EncodeRune r = c # t" by (cases "EncodeRune r") auto
  have d: "DecodeRune (c # t @ s) = (r, length (c # t))" using Decode_Encode [OF assms, of s] e by simp
  have "(r, length (c # t)) \<noteq> bad_rune"
  proof
    assume "(r, length (c # t)) = bad_rune"
    then have "r = RuneError" "t = []" by (auto simp: bad_rune_def)
    then show False using e by (simp add: EncodeRune_def encode3_def RuneError_def valid_rune_def)
  qed
  then show ?thesis using d by (simp add: e)
qed

lemma ValidString_encode: "list_all valid_rune rs \<Longrightarrow> ValidString (encode rs @ s) = ValidString s"
  by (induction rs) (auto simp: ValidString_cons)

lemma ValidString_runes: "ValidString s \<Longrightarrow> \<exists>rs. list_all valid_rune rs \<and> s = encode rs"
proof (induction s rule: ValidString.induct)
  case 1
  then show ?case by (intro exI [of _ "[]"]) simp
next
  case (2 c s)
  let ?d = "DecodeRune (c # s)"
  from 2 obtain rs where rs: "list_all valid_rune rs" "drop (snd ?d) (c # s) = encode rs"
    by auto
  have "EncodeRune (fst ?d) = take (snd ?d) (c # s)" "valid_rune (fst ?d)"
    using Encode_Decode [of "c # s"] 2(2) by auto
  then have "list_all valid_rune (fst ?d # rs)" "c # s = encode (fst ?d # rs)"
    using rs append_take_drop_id [of "snd ?d" "c # s"] by simp_all
  then show ?case by blast
qed

theorem ValidString_iff: "ValidString s \<longleftrightarrow> (\<exists>rs. list_all valid_rune rs \<and> s = encode rs)"
  using ValidString_runes ValidString_encode [where s = "[]"] by auto

section \<open>Classes of runes\<close>

definition IsSpace :: "nat \<Rightarrow> bool" where
  "IsSpace r \<longleftrightarrow> (9 \<le> r \<and> r \<le> 13) \<or> r = 0x20 \<or> r = 0x85 \<or> r = 0xA0 \<or> r = 0x1680 \<or> (0x2000 \<le> r \<and> r \<le> 0x200A)
     \<or> r = 0x2028 \<or> r = 0x2029 \<or> r = 0x202F \<or> r = 0x205F \<or> r = 0x3000"

definition Nd :: "(nat \<times> nat) list" where
  "Nd =
     [(0x30, 0x39), (0x660, 0x669), (0x6F0, 0x6F9), (0x7C0, 0x7C9), (0x966, 0x96F),
      (0x9E6, 0x9EF), (0xA66, 0xA6F), (0xAE6, 0xAEF), (0xB66, 0xB6F), (0xBE6, 0xBEF),
      (0xC66, 0xC6F), (0xCE6, 0xCEF), (0xD66, 0xD6F), (0xDE6, 0xDEF), (0xE50, 0xE59),
      (0xED0, 0xED9), (0xF20, 0xF29), (0x1040, 0x1049), (0x1090, 0x1099), (0x17E0, 0x17E9),
      (0x1810, 0x1819), (0x1946, 0x194F), (0x19D0, 0x19D9), (0x1A80, 0x1A89), (0x1A90, 0x1A99),
      (0x1B50, 0x1B59), (0x1BB0, 0x1BB9), (0x1C40, 0x1C49), (0x1C50, 0x1C59), (0xA620, 0xA629),
      (0xA8D0, 0xA8D9), (0xA900, 0xA909), (0xA9D0, 0xA9D9), (0xA9F0, 0xA9F9), (0xAA50, 0xAA59),
      (0xABF0, 0xABF9), (0xFF10, 0xFF19), (0x104A0, 0x104A9), (0x10D30, 0x10D39),
      (0x11066, 0x1106F), (0x110F0, 0x110F9), (0x11136, 0x1113F), (0x111D0, 0x111D9),
      (0x112F0, 0x112F9), (0x11450, 0x11459), (0x114D0, 0x114D9), (0x11650, 0x11659),
      (0x116C0, 0x116C9), (0x11730, 0x11739), (0x118E0, 0x118E9), (0x11950, 0x11959),
      (0x11C50, 0x11C59), (0x11D50, 0x11D59), (0x11DA0, 0x11DA9), (0x11F50, 0x11F59),
      (0x16A60, 0x16A69), (0x16AC0, 0x16AC9), (0x16B50, 0x16B59), (0x1D7CE, 0x1D7FF),
      (0x1E140, 0x1E149), (0x1E2F0, 0x1E2F9), (0x1E4F0, 0x1E4F9), (0x1E950, 0x1E959),
      (0x1FBF0, 0x1FBF9)]"

definition IsDigit :: "nat \<Rightarrow> bool" where
  "IsDigit r \<longleftrightarrow> list_ex (\<lambda>(lo, hi). lo \<le> r \<and> r \<le> hi) Nd"

lemma IsDigit_ascii: "r < 0x80 \<Longrightarrow> IsDigit r \<longleftrightarrow> 0x30 \<le> r \<and> r \<le> 0x39"
  by (simp add: IsDigit_def Nd_def)

end
