(* ===== verification/GoStrings.thy ===== *)
theory GoStrings
  imports Utf8
begin

text \<open>
  What the repository uses of the standard package strings, on byte strings: trimming, searching
  and lower case, and the decimal rendering of integers.
\<close>

section \<open>strings.TrimSpace\<close>

definition RuneStart :: "char \<Rightarrow> bool" where
  "RuneStart c \<longleftrightarrow> \<not> cont c"

text \<open>
  \<open>DecodeLastRune\<close> looks back from the last byte over at most three others, on the reversed string,
  for the first byte of a rune.
\<close>

fun look_back :: "nat \<Rightarrow> string \<Rightarrow> nat" where
  "look_back n [] = 0"
| "look_back 0 (c # rs) = 1"
| "look_back (Suc n) (c # rs) = 1 + (if RuneStart c then 0 else look_back n rs)"

definition DecodeLastRune :: "string \<Rightarrow> nat \<times> nat" where
  "DecodeLastRune s =
     (case rev s of
        [] \<Rightarrow> (RuneError, 0)
      | c # rs \<Rightarrow>
          if byte c < 0x80 then (byte c, 1)
          else let k = 1 + look_back 3 rs; (r, size) = DecodeRune (drop (length s - k) s)
               in if size = k then (r, size) else (RuneError, 1))"

function TrimLeftFunc :: "(nat \<Rightarrow> bool) \<Rightarrow> string \<Rightarrow> string" where
  "TrimLeftFunc f [] = []"
| "TrimLeftFunc f (c # s) =
     (if f (fst (DecodeRune (c # s))) then TrimLeftFunc f (drop (snd (DecodeRune (c # s))) (c # s)) else c # s)"
  by pat_completeness auto
termination
  by (relation "measure (\<lambda>(_, s). length s)") (use length_drop_rune in fastforce)+

lemma DecodeLastRune_size: "s \<noteq> [] \<Longrightarrow> 1 \<le> snd (DecodeLastRune s)"
  by (cases "rev s") (auto simp: DecodeLastRune_def Let_def split: prod.split)

text \<open>\<open>lastIndexFunc(s, f, false)\<close>: the index of the last rune \<open>f\<close> rejects, if any.\<close>

function lastIndexFunc :: "(nat \<Rightarrow> bool) \<Rightarrow> string \<Rightarrow> nat option" where
  "lastIndexFunc f s =
     (if s = [] then None
      else let (r, size) = DecodeLastRune s; i = length s - size
           in if f r then lastIndexFunc f (take i s) else Some i)"
  by pat_completeness auto
termination
proof (relation "measure (\<lambda>(_, s). length s)")
  fix f :: "nat \<Rightarrow> bool" and s x r size i
  assume "s \<noteq> []" "x = DecodeLastRune s" "(r, size) = x" "i = length s - size"
  then show "((f, take i s), f, s) \<in> measure (\<lambda>(_, s). length s)"
    using DecodeLastRune_size [of s] by (cases "DecodeLastRune s") simp
qed simp

declare lastIndexFunc.simps [simp del]

definition TrimRightFunc :: "(nat \<Rightarrow> bool) \<Rightarrow> string \<Rightarrow> string" where
  "TrimRightFunc f s =
     (case lastIndexFunc f s of
        None \<Rightarrow> []
      | Some i \<Rightarrow> take (if 0x80 \<le> byte (s ! i) then i + snd (DecodeRune (drop i s)) else i + 1) s)"

definition TrimSpace :: "string \<Rightarrow> string" where
  "TrimSpace s = TrimRightFunc IsSpace (TrimLeftFunc IsSpace s)"

text \<open>On a string of whole runes the trimming is that of the list of runes.\<close>

definition trim_runes :: "(nat \<Rightarrow> bool) \<Rightarrow> nat list \<Rightarrow> nat list" where
  "trim_runes f rs = rev (dropWhile f (rev (dropWhile f rs)))"

lemma EncodeRune_shape:
  assumes "valid_rune r" "EncodeRune r = c # t"
  shows "list_all cont t" "length t \<le> 3" "RuneStart c" "byte c < 0x80 \<longleftrightarrow> t = []" "t = [] \<longrightarrow> byte c = r"
proof -
  have r4: "r div 262144 < 5"
    using assms(1) groups4 [of r] unfolding valid_rune_def by linarith
  have r3: "r div 4096 < 16" if "r < 0x10000"
    using that groups3 [of r] by linarith
  have r2: "2 \<le> r div 64 \<and> r div 64 < 32" if "0x80 \<le> r" "r < 0x800"
    using that by (simp add: less_mult_imp_div_less less_eq_div_iff_mult_less_eq)
  have m: "x mod 64 \<le> 63" for x :: nat
    using mod_less_divisor [of 64 x] by linarith
  note defs = EncodeRune_def encode3_def RuneStart_def cont_def m
  consider (1) "r < 0x80" | (2) "0x80 \<le> r" "r < 0x800" | (3) "0x800 \<le> r" "r < 0x10000" | (4) "0x10000 \<le> r"
    by linarith
  then have "list_all cont t \<and> length t \<le> 3 \<and> RuneStart c \<and> (byte c < 0x80 \<longleftrightarrow> t = []) \<and> (t = [] \<longrightarrow> byte c = r)"
  proof cases
    case 1
    then show ?thesis using assms(2) by (simp add: defs) fastforce
  next
    case 2
    then have "t = [char_of (0x80 + r mod 64)]" "c = char_of (0xC0 + r div 64)"
      using assms(2) by (simp_all add: defs)
    then show ?thesis using r2 [OF 2] by (simp add: defs)
  next
    case 3
    then have "t = [char_of (0x80 + r div 64 mod 64), char_of (0x80 + r mod 64)]" "c = char_of (0xE0 + r div 4096)"
      using assms by (simp_all add: defs)
    then show ?thesis using r3 [OF 3(2)] by (simp add: defs)
  next
    case 4
    then have "t = [char_of (0x80 + r div 4096 mod 64), char_of (0x80 + r div 64 mod 64), char_of (0x80 + r mod 64)]"
      "c = char_of (0xF0 + r div 262144)"
      using assms by (simp_all add: defs)
    then show ?thesis using r4 by (simp add: defs)
  qed
  then show "list_all cont t" "length t \<le> 3" "RuneStart c" "byte c < 0x80 \<longleftrightarrow> t = []" "t = [] \<longrightarrow> byte c = r"
    by auto
qed

lemma look_back_conts:
  "list_all cont t \<Longrightarrow> length t < n \<Longrightarrow> RuneStart c \<Longrightarrow> look_back n (t @ c # rs) = Suc (length t)"
proof (induction t arbitrary: n)
  case Nil
  then show ?case by (cases n) auto
next
  case (Cons a t)
  then show ?case by (cases n) (auto simp: RuneStart_def)
qed

lemma DecodeLast_Encode:
  assumes "valid_rune r"
  shows "DecodeLastRune (s @ EncodeRune r) = (r, length (EncodeRune r))"
proof -
  obtain c t where e: "EncodeRune r = c # t" by (cases "EncodeRune r") auto
  note shape = EncodeRune_shape [OF assms e]
  show ?thesis
  proof (cases t rule: rev_cases)
    case Nil
    then show ?thesis using shape by (simp add: DecodeLastRune_def e)
  next
    case (snoc t' b)
    have "cont b" "list_all cont (rev t')" using shape(1) snoc by auto
    then have k: "look_back 3 (rev t' @ c # rev s) = Suc (length t')"
      using shape(2,3) snoc look_back_conts [of "rev t'" 3 c "rev s"] by simp
    show ?thesis
      using \<open>cont b\<close> k Decode_Encode [OF assms, of "[]"] by (simp add: DecodeLastRune_def e snoc cont_def)
  qed
qed

lemma TrimLeft_encode:
  "list_all valid_rune rs \<Longrightarrow> TrimLeftFunc f (encode rs) = encode (dropWhile f rs)"
proof (induction rs)
  case (Cons r rs)
  obtain c t where e: "EncodeRune r = c # t" by (cases "EncodeRune r") auto
  have "DecodeRune (c # t @ encode rs) = (r, length (c # t))"
    using Decode_Encode [of r "encode rs"] Cons.prems e by simp
  then show ?case using Cons by (simp add: e)
qed simp

lemma lastIndex_encode:
  "list_all valid_rune rs \<Longrightarrow>
   lastIndexFunc f (encode rs) =
     (case dropWhile f (rev rs) of [] \<Rightarrow> None | r # rs' \<Rightarrow> Some (length (encode (rev rs'))))"
proof (induction rs rule: rev_induct)
  case Nil
  then show ?case by (simp add: lastIndexFunc.simps)
next
  case (snoc r rs)
  then have "DecodeLastRune (encode rs @ EncodeRune r) = (r, length (EncodeRune r))"
    by (simp add: DecodeLast_Encode)
  with snoc show ?case by (subst lastIndexFunc.simps) simp
qed

lemma TrimRight_encode:
  assumes "list_all valid_rune rs"
  shows "TrimRightFunc f (encode rs) = encode (rev (dropWhile f (rev rs)))"
proof (cases "dropWhile f (rev rs)")
  case Nil
  show ?thesis unfolding TrimRightFunc_def lastIndex_encode [OF assms] Nil by simp
next
  case (Cons r rs')
  obtain ws where "rev rs = ws @ r # rs'"
    using Cons takeWhile_dropWhile_id [of f "rev rs"] by metis
  then have rs: "rs = rev rs' @ r # rev ws"
    by (metis append.assoc append_Cons append_Nil rev.simps(2) rev_append rev_rev_ident)
  then have v: "valid_rune r" using assms by simp
  obtain c t where e: "EncodeRune r = c # t" by (cases "EncodeRune r") auto
  let ?i = "length (encode (rev rs'))"
  have d: "drop ?i (encode rs) = EncodeRune r @ encode (rev ws)" by (simp add: rs)
  have "encode rs ! ?i = c" by (simp add: rs e nth_append)
  moreover have "DecodeRune (drop ?i (encode rs)) = (r, length (EncodeRune r))"
    unfolding d by (rule Decode_Encode [OF v])
  moreover have "take (?i + length (EncodeRune r)) (encode rs) = encode (rev rs') @ EncodeRune r"
    by (simp add: rs)
  ultimately show ?thesis
    using assms Cons EncodeRune_shape(4) [OF v e] by (auto simp: TrimRightFunc_def lastIndex_encode e)
qed

lemma TrimSpace_encode:
  assumes "list_all valid_rune rs"
  shows "TrimSpace (encode rs) = encode (trim_runes IsSpace rs)"
proof -
  have "list_all valid_rune (dropWhile IsSpace rs)"
    using assms by (auto simp: list_all_iff dest: set_dropWhileD)
  then show ?thesis
    using assms by (simp add: TrimSpace_def trim_runes_def TrimLeft_encode TrimRight_encode)
qed

lemma trim_runes_set: "set (trim_runes f rs) \<subseteq> set rs"
  by (auto simp: trim_runes_def dest!: set_dropWhileD)

lemma length_encode_dropWhile: "length (encode (dropWhile f rs)) \<le> length (encode rs)"
  by (induction rs) auto

lemma length_encode_rev [simp]: "length (encode (rev rs)) = length (encode rs)"
  by (induction rs) auto

lemma length_encode_trim: "length (encode (trim_runes f rs)) \<le> length (encode rs)"
  using length_encode_dropWhile [of f "rev (dropWhile f rs)"] length_encode_dropWhile [of f rs]
  by (simp add: trim_runes_def)

section \<open>Decoding ASCII\<close>

lemma DecodeRune_ascii: "byte c < 0x80 \<Longrightarrow> DecodeRune (c # s) = (byte c, 1)"
  by (simp add: DecodeRune.simps)

lemma DecodeRune_nonascii:
  assumes "0x80 \<le> byte c"
  shows "\<exists>a. c # s = c # a @ drop (snd (DecodeRune (c # s))) (c # s) \<and> list_all (\<lambda>b. 0x80 \<le> byte b) (c # a)"
proof -
  have "list_all (\<lambda>b. 0x80 \<le> byte b) (take (snd (DecodeRune (c # s))) (c # s))"
  proof (cases "DecodeRune (c # s) = bad_rune")
    case True
    then show ?thesis using assms by (simp add: bad_rune_def)
  next
    case False
    let ?r = "fst (DecodeRune (c # s))"
    have e: "EncodeRune ?r = take (snd (DecodeRune (c # s))) (c # s)" and v: "valid_rune ?r"
      using Encode_Decode [of "c # s"] False by auto
    obtain d t where t: "EncodeRune ?r = d # t" by (cases "EncodeRune ?r") auto
    have "d = c" using t unfolding e by (cases "snd (DecodeRune (c # s))") auto
    moreover have "list_all (\<lambda>b. 0x80 \<le> byte b) t"
      using EncodeRune_shape(1) [OF v t] by (auto simp: list_all_iff cont_def)
    ultimately show ?thesis using assms by (simp add: e [symmetric] t)
  qed
  moreover obtain k where "snd (DecodeRune (c # s)) = Suc k"
    using DecodeRune_size(1) [of "c # s"] by (cases "snd (DecodeRune (c # s))") auto
  ultimately show ?thesis by (intro exI [of _ "take k s"]) simp
qed

lemma DecodeRune_fst_ascii:
  assumes "r < 0x80"
  shows "fst (DecodeRune (c # s)) = r \<longleftrightarrow> byte c = r"
proof (cases "byte c < 0x80")
  case True
  then show ?thesis by (simp add: DecodeRune_ascii)
next
  case False
  have "fst (DecodeRune (c # s)) \<noteq> r"
  proof
    assume r: "fst (DecodeRune (c # s)) = r"
    then have "DecodeRune (c # s) \<noteq> bad_rune" using assms by (auto simp: bad_rune_def RuneError_def)
    with Encode_Decode [of "c # s"] r have "EncodeRune r = take (snd (DecodeRune (c # s))) (c # s)" by simp
    moreover have "EncodeRune r = [char_of r]" using assms by (simp add: EncodeRune_def)
    ultimately have "c = char_of r" by (cases "snd (DecodeRune (c # s))") auto
    then show False using False assms by simp
  qed
  then show ?thesis using False assms by auto
qed

section \<open>Searching\<close>

fun HasPrefix :: "string \<Rightarrow> string \<Rightarrow> bool" where
  "HasPrefix s [] = True"
| "HasPrefix [] (p # ps) = False"
| "HasPrefix (c # s) (p # ps) = (c = p \<and> HasPrefix s ps)"

fun Index :: "string \<Rightarrow> string \<Rightarrow> nat option" where
  "Index [] sep = (if sep = [] then Some 0 else None)"
| "Index (c # s) sep = (if HasPrefix (c # s) sep then Some 0 else map_option Suc (Index s sep))"

fun IndexByte :: "string \<Rightarrow> char \<Rightarrow> nat option" where
  "IndexByte [] c = None"
| "IndexByte (d # s) c = (if d = c then Some 0 else map_option Suc (IndexByte s c))"

lemma HasPrefix_iff: "HasPrefix s p \<longleftrightarrow> (\<exists>t. s = p @ t)"
  by (induction s p rule: HasPrefix.induct) auto

lemma Index_SomeD: "Index s sep = Some i \<Longrightarrow> \<exists>t. drop i s = sep @ t \<and> i + length sep \<le> length s"
proof (induction s arbitrary: i)
  case (Cons c s)
  show ?case
  proof (cases "HasPrefix (c # s) sep")
    case True
    then obtain t where t: "c # s = sep @ t" by (auto simp: HasPrefix_iff)
    have "i = 0" using Cons.prems True by simp
    then show ?thesis using t arg_cong [OF t, of length] by simp
  next
    case False
    with Cons.prems obtain j where "i = Suc j" "Index s sep = Some j" by auto
    with Cons.IH show ?thesis by simp
  qed
qed (auto split: if_splits)

lemma Index_lt: "Index s sep = Some i \<Longrightarrow> i + length sep \<le> length s"
  using Index_SomeD by blast

lemma IndexByte_SomeD:
  "IndexByte s c = Some i \<Longrightarrow> i < length s \<and> s ! i = c \<and> c \<notin> set (take i s)"
  by (induction s arbitrary: i) (auto split: if_splits)

section \<open>Decimal numbers\<close>

text \<open>\<open>strconv.Itoa\<close> and \<open>%d\<close>.\<close>

definition digit_char :: "nat \<Rightarrow> char" where
  "digit_char d = char_of (0x30 + d)"

fun utoa :: "nat \<Rightarrow> string" where
  "utoa n = (if n < 10 then [digit_char n] else utoa (n div 10) @ [digit_char (n mod 10)])"

definition itoa :: "int \<Rightarrow> string" where
  "itoa i = (if i < 0 then CHR ''-'' # utoa (nat (- i)) else utoa (nat i))"

declare utoa.simps [simp del]

definition is_digit :: "char \<Rightarrow> bool" where
  "is_digit c \<longleftrightarrow> 0x30 \<le> byte c \<and> byte c \<le> 0x39"

fun atou :: "string \<Rightarrow> nat" where
  "atou s = foldl (\<lambda>n c. n * 10 + (byte c - 0x30)) 0 s"

lemma byte_digit_char: "d < 10 \<Longrightarrow> byte (digit_char d) = 0x30 + d"
  by (simp add: digit_char_def)

lemma is_digit_char [simp]: "d < 10 \<Longrightarrow> is_digit (digit_char d)"
  by (simp add: is_digit_def byte_digit_char)

lemma utoa_nonempty [simp]: "utoa n \<noteq> []"
  by (subst utoa.simps) simp

lemma utoa_digits: "list_all is_digit (utoa n)"
proof (induction n rule: utoa.induct)
  case (1 n)
  then show ?case by (subst utoa.simps) simp
qed

lemma atou_utoa: "atou (utoa n) = n"
proof (induction n rule: utoa.induct)
  case (1 n)
  then show ?case by (subst utoa.simps) (simp add: byte_digit_char)
qed

lemma utoa_inject: "utoa m = utoa n \<longleftrightarrow> m = n"
  using atou_utoa by metis

lemma utoa_leading_zero: "hd (utoa n) = CHR ''0'' \<Longrightarrow> n = 0"
proof (induction n rule: utoa.induct)
  case (1 n)
  show ?case
  proof (cases "n < 10")
    case True
    then have "hd (utoa n) = digit_char n" by (subst utoa.simps) simp
    then have "byte (digit_char n) = byte (CHR ''0'')" using 1(2) by simp
    then show ?thesis using True by (simp add: byte_digit_char)
  next
    case False
    then have "hd (utoa n) = hd (utoa (n div 10))" by (subst utoa.simps) simp
    then have "n div 10 = 0" using 1 False by simp
    then show ?thesis using False by simp
  qed
qed

section \<open>Trimming a byte\<close>

text \<open>\<open>strings.TrimLeft\<close>, \<open>TrimRight\<close> and \<open>Trim\<close> with a cutset of one ASCII byte.\<close>

definition TrimLeftByte :: "string \<Rightarrow> char \<Rightarrow> string" where
  "TrimLeftByte s c = dropWhile (\<lambda>d. d = c) s"

definition TrimRightByte :: "string \<Rightarrow> char \<Rightarrow> string" where
  "TrimRightByte s c = rev (dropWhile (\<lambda>d. d = c) (rev s))"

definition TrimByte :: "string \<Rightarrow> char \<Rightarrow> string" where
  "TrimByte s c = TrimRightByte (TrimLeftByte s c) c"

text \<open>\<open>strings.ToLower\<close> on ASCII.\<close>

definition lower_char :: "char \<Rightarrow> char" where
  "lower_char c = (if 0x41 \<le> byte c \<and> byte c \<le> 0x5A then char_of (byte c + 0x20) else c)"

definition ToLower :: "string \<Rightarrow> string" where
  "ToLower s = map lower_char s"

lemma TrimLeftByte_idem [simp]: "TrimLeftByte (c # s) c = TrimLeftByte s c"
  by (simp add: TrimLeftByte_def)

lemma TrimRightByte_last: "TrimRightByte s c = [] \<or> last (TrimRightByte s c) \<noteq> c"
proof (cases "dropWhile (\<lambda>d. d = c) (rev s)")
  case (Cons a t)
  then have "a \<noteq> c" using hd_dropWhile [of "\<lambda>d. d = c" "rev s"] by simp
  then show ?thesis by (simp add: TrimRightByte_def Cons)
qed (simp add: TrimRightByte_def)

lemma TrimRightByte_id: "s = [] \<or> last s \<noteq> c \<Longrightarrow> TrimRightByte s c = s"
  by (cases s rule: rev_cases) (auto simp: TrimRightByte_def)

end
