(* ===== verification/GormLogger.thy ===== *)
theory GormLogger
  imports GoStrings CtxErrors
begin

text \<open>
  The GORM logger of src/db/gorm_slog_logger.go: the redaction of SQL statements, the truncation of
  the preview, and the decision of \<open>Trace\<close> whether and how a query is logged. The scanners of the
  source walk an index \<open>i\<close> through the query and only ever look at \<open>query[i:]\<close>; here they walk the
  suffix itself, so the index of the source is the length of the part already consumed.
\<close>

section \<open>Scanners\<close>

abbreviation quote :: char where
  "quote \<equiv> CHR 0x27"

definition isEscapeStringStart :: "string \<Rightarrow> bool" where
  "isEscapeStringStart q =
     (case q of c # d # _ \<Rightarrow> (c = CHR ''E'' \<or> c = CHR ''e'') \<and> d = quote | _ \<Rightarrow> False)"

text \<open>The rest of the string after its first rune.\<close>

abbreviation after_rune :: "string \<Rightarrow> string" where
  "after_rune q \<equiv> drop (snd (DecodeRune q)) q"

lemma length_after_rune: "length (after_rune (c # q)) \<le> length q"
  using length_drop_rune [of "c # q"] by (simp del: length_drop_rune)

lemma length_after_rune_tl: "after_rune (c # q) = d # t \<Longrightarrow> length t < length q"
  using length_after_rune [of c q] by simp

function skipEscapeQuotedLiteral :: "string \<Rightarrow> string" where
  "skipEscapeQuotedLiteral [] = []"
| "skipEscapeQuotedLiteral (c # q) =
     (if c = CHR 0x5C then skipEscapeQuotedLiteral (if q = [] then [] else after_rune q)
      else let rest = after_rune (c # q) in
        if fst (DecodeRune (c # q)) \<noteq> 0x27 then skipEscapeQuotedLiteral rest
        else (case rest of
                d # rest' \<Rightarrow> if d = quote then skipEscapeQuotedLiteral rest' else rest
              | [] \<Rightarrow> rest))"
  by pat_completeness auto
termination
proof (relation "measure length")
  fix c q show "(if q = [] then [] else after_rune q, c # q) \<in> measure length" by (simp add: less_Suc_eq_le)
next
  fix c q x assume "x = after_rune (c # q)"
  then show "(x, c # q) \<in> measure length" using length_after_rune [of c q] by simp
next
  fix c q x d rest' assume "x = after_rune (c # q)" "x = d # rest'"
  then show "(rest', c # q) \<in> measure length" using length_after_rune_tl [of c q d rest'] by simp
qed simp

fun validDollarQuoteTagChar :: "char \<Rightarrow> bool \<Rightarrow> bool" where
  "validDollarQuoteTagChar c first =
     (if c = CHR ''_'' then True
      else if 0x30 \<le> byte c \<and> byte c \<le> 0x39 then \<not> first
      else (0x61 \<le> byte c \<and> byte c \<le> 0x7A) \<or> (0x41 \<le> byte c \<and> byte c \<le> 0x5A))"

definition validDollarQuoteTag :: "string \<Rightarrow> bool" where
  "validDollarQuoteTag tag =
     (case tag of
        [] \<Rightarrow> True
      | c # t \<Rightarrow> validDollarQuoteTagChar c True \<and> list_all (\<lambda>d. validDollarQuoteTagChar d False) t)"

definition dollarQuoteDelimiter :: "string \<Rightarrow> string option" where
  "dollarQuoteDelimiter q =
     (case q of
        [] \<Rightarrow> None
      | c # q' \<Rightarrow>
          if c \<noteq> CHR ''$'' then None
          else (case IndexByte q' (CHR ''$'') of
                  None \<Rightarrow> None
                | Some relativeEnd \<Rightarrow>
                    if validDollarQuoteTag (take relativeEnd q') then Some (take (relativeEnd + 2) q) else None))"

definition skipDollarQuotedLiteral :: "string \<Rightarrow> string \<Rightarrow> string" where
  "skipDollarQuotedLiteral q delimiter =
     (case Index q delimiter of None \<Rightarrow> [] | Some relativeEnd \<Rightarrow> drop (relativeEnd + length delimiter) q)"

function skipQuotedLiteral :: "string \<Rightarrow> string" where
  "skipQuotedLiteral [] = []"
| "skipQuotedLiteral (c # q) =
     (let rest = after_rune (c # q) in
      if fst (DecodeRune (c # q)) \<noteq> 0x27 then skipQuotedLiteral rest
      else (case rest of
              d # rest' \<Rightarrow> if d = quote then skipQuotedLiteral rest' else rest
            | [] \<Rightarrow> rest))"
  by pat_completeness auto
termination
proof (relation "measure length")
  fix c q x assume "x = after_rune (c # q)"
  then show "(x, c # q) \<in> measure length" using length_after_rune [of c q] by simp
next
  fix c q x d rest' assume "x = after_rune (c # q)" "x = d # rest'"
  then show "(rest', c # q) \<in> measure length" using length_after_rune_tl [of c q d rest'] by simp
qed simp

function skipNumericLiteral :: "string \<Rightarrow> string" where
  "skipNumericLiteral [] = []"
| "skipNumericLiteral (c # q) =
     (let r = fst (DecodeRune (c # q)) in
      if \<not> IsDigit r \<and> r \<noteq> 0x2E then c # q else skipNumericLiteral (after_rune (c # q)))"
  by pat_completeness auto
termination
proof (relation "measure length")
  fix c q show "(after_rune (c # q), c # q) \<in> measure length" using length_after_rune [of c q] by simp
qed simp

text \<open>
  The scanners of quoted literals decode whole runes. Since no byte of a multi-byte rune, and no byte
  taken for a malformed one, can be a quote or a backslash, they do what a scanner by bytes does.
\<close>

fun quoted_bytes :: "string \<Rightarrow> string" where
  "quoted_bytes [] = []"
| "quoted_bytes (c # q) =
     (if c \<noteq> quote then quoted_bytes q
      else (case q of d # q' \<Rightarrow> if d = quote then quoted_bytes q' else q | [] \<Rightarrow> q))"

fun escaped_bytes :: "string \<Rightarrow> string" where
  "escaped_bytes [] = []"
| "escaped_bytes (c # q) =
     (if c = CHR 0x5C then (case q of [] \<Rightarrow> [] | d # q' \<Rightarrow> escaped_bytes q')
      else if c \<noteq> quote then escaped_bytes q
      else (case q of d # q' \<Rightarrow> if d = quote then escaped_bytes q' else q | [] \<Rightarrow> q))"

abbreviation high :: "string \<Rightarrow> bool" where
  "high a \<equiv> list_all (\<lambda>b. 0x80 \<le> byte b) a"

lemma quoted_bytes_high: "high a \<Longrightarrow> quoted_bytes (a @ q) = quoted_bytes q"
  by (induction a) auto

lemma escaped_bytes_high: "high a \<Longrightarrow> escaped_bytes (a @ q) = escaped_bytes q"
  by (induction a) auto

lemma rune_parts:
  obtains (ascii) "byte c < 0x80" "DecodeRune (c # q) = (byte c, 1)" "after_rune (c # q) = q"
  | (multi) a where "0x80 \<le> byte c" "q = a @ after_rune (c # q)" "high (c # a)"
proof (cases "byte c < 0x80")
  case True
  then show ?thesis using ascii DecodeRune_ascii [of c q] by simp
next
  case False
  then obtain a where "c # q = c # a @ after_rune (c # q)" "high (c # a)"
    using DecodeRune_nonascii [of c q] by auto
  then show ?thesis using multi [of a] False by simp
qed

declare skipQuotedLiteral.simps(2) [simp del] skipEscapeQuotedLiteral.simps(2) [simp del]
  skipNumericLiteral.simps(2) [simp del]

lemma byte_quote: "byte c = 0x27 \<longleftrightarrow> c = quote"
  using of_char_eq_iff [of c quote] by simp

lemma skipQuoted_bytes: "skipQuotedLiteral q = quoted_bytes q"
proof (induction q rule: skipQuotedLiteral.induct)
  case (2 c q)
  show ?case
  proof (cases c q rule: rune_parts)
    case ascii
    then show ?thesis
      using 2 by (auto simp: skipQuotedLiteral.simps(2) Let_def byte_quote split: list.split)
  next
    case (multi a)
    then have "quoted_bytes (c # q) = quoted_bytes (after_rune (c # q))"
      using quoted_bytes_high [of "c # a" "after_rune (c # q)"] by simp
    moreover have "fst (DecodeRune (c # q)) \<noteq> 0x27" using multi(1) by (simp add: DecodeRune_fst_ascii)
    ultimately show ?thesis using 2(1) by (simp add: skipQuotedLiteral.simps(2) Let_def)
  qed
qed simp

lemma escaped_after_rune:
  "escaped_bytes (case q of [] \<Rightarrow> [] | d # q' \<Rightarrow> q') = escaped_bytes (if q = [] then [] else after_rune q)"
proof (cases q)
  case (Cons d t)
  show ?thesis
  proof (cases d t rule: rune_parts)
    case (multi a)
    then show ?thesis
      using escaped_bytes_high [of a "after_rune (d # t)"] Cons by simp
  qed (simp add: Cons)
qed simp

lemma skipEscape_bytes: "skipEscapeQuotedLiteral q = escaped_bytes q"
proof (induction q rule: skipEscapeQuotedLiteral.induct)
  case (2 c q)
  show ?case
  proof (cases "c = CHR 0x5C")
    case True
    then show ?thesis
      using 2(1) escaped_after_rune [of q] by (simp add: skipEscapeQuotedLiteral.simps(2) split: list.splits)
  next
    case nb: False
    show ?thesis
    proof (cases c q rule: rune_parts)
      case ascii
      then show ?thesis
        using 2(2,3) nb by (auto simp: skipEscapeQuotedLiteral.simps(2) Let_def byte_quote split: list.split)
    next
      case (multi a)
      then have "escaped_bytes (c # q) = escaped_bytes (after_rune (c # q))"
        using escaped_bytes_high [of "c # a" "after_rune (c # q)"] by simp
      moreover have "fst (DecodeRune (c # q)) \<noteq> 0x27" using multi(1) by (simp add: DecodeRune_fst_ascii)
      ultimately show ?thesis using 2(2) nb by (simp add: skipEscapeQuotedLiteral.simps(2) Let_def)
    qed
  qed
qed simp

text \<open>The scanners return a suffix, never more than they are given.\<close>

lemma quoted_bytes_length: "length (quoted_bytes q) \<le> length q"
proof (induction q rule: quoted_bytes.induct)
  case (2 c q)
  then show ?case by (cases q) (simp_all add: le_SucI)
qed simp

lemma escaped_bytes_length: "length (escaped_bytes q) \<le> length q"
proof (induction q rule: escaped_bytes.induct)
  case (2 c q)
  then show ?case by (cases q) (simp_all add: le_SucI)
qed simp

lemma skipNumeric_length: "length (skipNumericLiteral q) \<le> length q"
proof (induction q rule: skipNumericLiteral.induct)
  case (2 c q)
  show ?case
  proof (cases "\<not> IsDigit (fst (DecodeRune (c # q))) \<and> fst (DecodeRune (c # q)) \<noteq> 0x2E")
    case True
    then show ?thesis by (simp add: skipNumericLiteral.simps(2))
  next
    case False
    with 2 have "length (skipNumericLiteral (after_rune (c # q))) \<le> length (after_rune (c # q))" by blast
    also have "\<dots> \<le> length q" by (rule length_after_rune)
    finally show ?thesis using False by (simp add: skipNumericLiteral.simps(2) Let_def)
  qed
qed simp

lemma skipDollar_length: "length (skipDollarQuotedLiteral q d) \<le> length q"
  by (simp add: skipDollarQuotedLiteral_def split: option.split)

lemma dollarQuoteDelimiter_length: "dollarQuoteDelimiter q = Some d \<Longrightarrow> 2 \<le> length d \<and> length d \<le> length q"
  by (auto simp: dollarQuoteDelimiter_def dest!: IndexByte_SomeD split: list.splits if_splits option.splits)

section \<open>Truncation\<close>

text \<open>The marker is one rune of three bytes.\<close>

definition truncationMarker :: string where
  "truncationMarker = [CHR 0xE2, CHR 0x80, CHR 0xA6]"

fun cut_end :: "string \<Rightarrow> nat \<Rightarrow> nat" where
  "cut_end value 0 = 0"
| "cut_end value (Suc end') =
     (if ValidString (take (Suc end') value) then Suc end' else cut_end value end')"

text \<open>None is the panic of a slice expression with a negative bound.\<close>

definition truncateUTF8 :: "string \<Rightarrow> int \<Rightarrow> (string \<times> bool) option" where
  "truncateUTF8 value maxBytes =
     (if int (length value) \<le> maxBytes then Some (value, False)
      else let end' = maxBytes - int (length truncationMarker) in
        if end' < 0 then None
        else Some (take (cut_end value (nat end')) value @ truncationMarker, True))"

section \<open>Redaction\<close>

record redaction =
  out :: string
  lastWasSpace :: bool
  rest :: string

definition redact_step :: "redaction \<Rightarrow> redaction" where
  "redact_step st =
     (let q = rest st; mark = (\<lambda>q'. \<lparr>out = out st @ ''?'', lastWasSpace = False, rest = q'\<rparr>) in
      if isEscapeStringStart q then mark (skipEscapeQuotedLiteral (drop 2 q))
      else case dollarQuoteDelimiter q of
        Some delimiter \<Rightarrow> mark (skipDollarQuotedLiteral (drop (length delimiter) q) delimiter)
      | None \<Rightarrow>
          let (r, size) = DecodeRune q; q' = drop size q in
          if r = 0x27 then mark (skipQuotedLiteral q')
          else if IsSpace r then
            \<lparr>out = (if \<not> lastWasSpace st \<and> out st \<noteq> [] then out st @ '' '' else out st),
             lastWasSpace = True, rest = q'\<rparr>
          else if IsDigit r then mark (skipNumericLiteral q')
          else \<lparr>out = out st @ EncodeRune r, lastWasSpace = False, rest = q'\<rparr>)"

text \<open>The branches of the step, each with its condition.\<close>

abbreviation marked :: "redaction \<Rightarrow> string \<Rightarrow> redaction" where
  "marked st q \<equiv> \<lparr>out = out st @ ''?'', lastWasSpace = False, rest = q\<rparr>"

lemma redact_step_cases [consumes 1]:
  assumes "rest st = c # q"
  obtains (escape) "isEscapeStringStart (c # q)" "redact_step st = marked st (skipEscapeQuotedLiteral (drop 2 (c # q)))"
  | (dollar) d where "\<not> isEscapeStringStart (c # q)" "dollarQuoteDelimiter (c # q) = Some d"
      "redact_step st = marked st (skipDollarQuotedLiteral (drop (length d) (c # q)) d)"
  | (quoted) "c = quote" "redact_step st = marked st (skipQuotedLiteral q)"
  | (space) r where "r = fst (DecodeRune (c # q))" "\<not> isEscapeStringStart (c # q)" "IsSpace r"
      "redact_step st =
         \<lparr>out = (if \<not> lastWasSpace st \<and> out st \<noteq> [] then out st @ '' '' else out st),
          lastWasSpace = True, rest = after_rune (c # q)\<rparr>"
  | (digit) r where "r = fst (DecodeRune (c # q))" "\<not> isEscapeStringStart (c # q)" "IsDigit r"
      "redact_step st = marked st (skipNumericLiteral (after_rune (c # q)))"
  | (other) r where "r = fst (DecodeRune (c # q))" "\<not> isEscapeStringStart (c # q)"
      "r \<noteq> 0x27" "\<not> IsSpace r" "\<not> IsDigit r"
      "redact_step st = \<lparr>out = out st @ EncodeRune r, lastWasSpace = False, rest = after_rune (c # q)\<rparr>"
proof -
  let ?r = "fst (DecodeRune (c # q))"
  note step = redact_step_def assms Let_def split_def
  show ?thesis
  proof (cases "isEscapeStringStart (c # q)")
    case True
    then show ?thesis using escape by (simp add: step)
  next
    case ne: False
    show ?thesis
    proof (cases "dollarQuoteDelimiter (c # q)")
      case (Some d)
      then show ?thesis using dollar ne by (simp add: step)
    next
      case None
      have q27: "?r = 0x27 \<longleftrightarrow> c = quote" by (simp add: DecodeRune_fst_ascii byte_quote)
      consider "?r = 0x27" | "?r \<noteq> 0x27" "IsSpace ?r" | "?r \<noteq> 0x27" "\<not> IsSpace ?r" "IsDigit ?r"
        | "?r \<noteq> 0x27" "\<not> IsSpace ?r" "\<not> IsDigit ?r" by blast
      then show ?thesis
      proof cases
        case 1
        then have "c = quote" "after_rune (c # q) = q" using q27 by (auto simp: DecodeRune_ascii)
        then show ?thesis using quoted 1 ne None by (simp add: step)
      next
        case 2
        then show ?thesis using space [of ?r] ne None by (simp add: step)
      next
        case 3
        then show ?thesis using digit [of ?r] ne None by (simp add: step)
      next
        case 4
        then show ?thesis using other [of ?r] ne None by (simp add: step)
      qed
    qed
  qed
qed

lemma redact_step_rest:
  assumes "rest st \<noteq> []"
  shows "length (rest (redact_step st)) < length (rest st)"
proof -
  obtain c q where q: "rest st = c # q" using assms by (cases "rest st") auto
  note less = length_after_rune [of c q]
  from q show ?thesis
  proof (cases rule: redact_step_cases)
    case escape
    then show ?thesis
      using escaped_bytes_length [of "tl q"] by (cases q) (auto simp: q skipEscape_bytes isEscapeStringStart_def)
  next
    case (dollar d)
    then show ?thesis
      using skipDollar_length [of "drop (length d) (c # q)" d] dollarQuoteDelimiter_length [OF dollar(2)]
      by (auto simp: q)
  next
    case quoted
    then show ?thesis using quoted_bytes_length [of q] by (simp add: q skipQuoted_bytes)
  next
    case (digit r)
    then show ?thesis using skipNumeric_length [of "after_rune (c # q)"] less by (simp add: q)
  qed (use less in \<open>simp_all add: q\<close>)
qed

function redact_loop :: "int \<Rightarrow> redaction \<Rightarrow> (string \<times> bool) option" where
  "redact_loop maxBytes st =
     (if rest st = [] then Some (TrimSpace (out st), False)
      else let st' = redact_step st in
        if maxBytes \<le> int (length (out st')) \<and> rest st' \<noteq> []
        then map_option (\<lambda>(preview, _). (preview, True)) (truncateUTF8 (TrimSpace (out st')) maxBytes)
        else redact_loop maxBytes st')"
  by pat_completeness auto
termination
  by (relation "measure (\<lambda>(_, st). length (rest st))") (simp_all add: redact_step_rest)

declare redact_loop.simps [simp del]

lemma redact_loop_end: "rest st = [] \<Longrightarrow> redact_loop m st = Some (TrimSpace (out st), False)"
  by (subst redact_loop.simps) simp

lemma redact_loop_cut:
  "rest st \<noteq> [] \<Longrightarrow> m \<le> int (length (out (redact_step st))) \<Longrightarrow> rest (redact_step st) \<noteq> [] \<Longrightarrow>
   redact_loop m st =
     map_option (\<lambda>(preview, _). (preview, True)) (truncateUTF8 (TrimSpace (out (redact_step st))) m)"
  by (subst redact_loop.simps) simp

lemma redact_loop_go:
  "rest st \<noteq> [] \<Longrightarrow> \<not> (m \<le> int (length (out (redact_step st))) \<and> rest (redact_step st) \<noteq> []) \<Longrightarrow>
   redact_loop m st = redact_loop m (redact_step st)"
  by (subst redact_loop.simps) (auto simp: Let_def)

text \<open>\<open>strings.Builder.Grow\<close> panics on a negative count.\<close>

definition redactSQLValues :: "string \<Rightarrow> int \<Rightarrow> (string \<times> bool) option" where
  "redactSQLValues query maxBytes =
     (if min (int (length query)) maxBytes < 0 then None
      else redact_loop maxBytes \<lparr>out = [], lastWasSpace = False, rest = query\<rparr>)"

definition maxSQLPreviewBytes :: int where
  "maxSQLPreviewBytes = 2048"

record sqlSummary =
  Preview :: string
  Bytes :: nat
  Truncated :: bool

definition summarizeSQL :: "string \<Rightarrow> sqlSummary option" where
  "summarizeSQL query =
     map_option (\<lambda>(preview, truncated). \<lparr>Preview = preview, Bytes = length query, Truncated = truncated\<rparr>)
       (redactSQLValues query maxSQLPreviewBytes)"

section \<open>What a preview can contain\<close>

definition kept :: "nat \<Rightarrow> bool" where
  "kept r \<longleftrightarrow> valid_rune r \<and> r \<noteq> 0x27 \<and> \<not> IsDigit r"

definition clean :: "string \<Rightarrow> bool" where
  "clean s \<longleftrightarrow> (\<exists>rs. list_all kept rs \<and> s = encode rs)"

lemma kept_valid: "list_all kept rs \<Longrightarrow> list_all valid_rune rs"
  by (auto simp: list_all_iff kept_def)

lemma EncodeRune_byte: "r < 0x80 \<Longrightarrow> EncodeRune r = [char_of r]"
  by (simp add: EncodeRune_def)

lemma clean_Nil [simp]: "clean []"
  by (auto simp: clean_def intro: exI [of _ "[]"])

lemma clean_append: "clean a \<Longrightarrow> clean b \<Longrightarrow> clean (a @ b)"
  unfolding clean_def by (metis encode_simps(3) list_all_append)

lemma clean_rune: "kept r \<Longrightarrow> clean (EncodeRune r)"
  unfolding clean_def by (rule exI [of _ "[r]"]) simp

lemma clean_marks [simp]: "clean ''?''" "clean '' ''" "clean truncationMarker"
proof -
  have "kept 0x3F" "kept 0x20" "kept 0x2026"
    by (simp_all add: kept_def valid_rune_def IsDigit_def Nd_def)
  moreover have "EncodeRune 0x3F = ''?''" "EncodeRune 0x20 = '' ''" "EncodeRune 0x2026 = truncationMarker"
    by (simp_all add: EncodeRune_def encode3_def valid_rune_def truncationMarker_def char_of_byte)
  ultimately show "clean ''?''" "clean '' ''" "clean truncationMarker"
    using clean_rune by metis+
qed

lemma clean_TrimSpace:
  assumes "clean s"
  shows "clean (TrimSpace s)" "length (TrimSpace s) \<le> length s"
proof -
  obtain rs where rs: "list_all kept rs" "s = encode rs" using assms by (auto simp: clean_def)
  have t: "TrimSpace s = encode (trim_runes IsSpace rs)"
    using TrimSpace_encode [OF kept_valid [OF rs(1)]] rs(2) by simp
  have "list_all kept (trim_runes IsSpace rs)"
    using rs(1) trim_runes_set [of IsSpace rs] by (auto simp: list_all_iff)
  then show "clean (TrimSpace s)" using t by (auto simp: clean_def)
  show "length (TrimSpace s) \<le> length s" using t rs(2) length_encode_trim by simp
qed

lemma encode_prefix:
  "list_all valid_rune rs \<Longrightarrow> list_all valid_rune rs' \<Longrightarrow> encode rs = encode rs' @ t \<Longrightarrow> \<exists>us. rs = rs' @ us"
proof (induction rs' arbitrary: rs)
  case (Cons r' rs')
  then obtain r us where rs: "rs = r # us" by (cases rs) auto
  have "DecodeRune (encode rs) = (r, length (EncodeRune r))"
    "DecodeRune (encode rs) = (r', length (EncodeRune r'))"
    using Cons.prems Decode_Encode [of r "encode us"] Decode_Encode [of r' "encode rs' @ t"] by (simp_all add: rs)
  then have "r = r'" by simp
  then show ?case using Cons by (auto simp: rs)
qed simp

lemma clean_prefix:
  assumes "clean s" "ValidString (take n s)"
  shows "clean (take n s)"
proof -
  obtain rs where rs: "list_all kept rs" "s = encode rs" using assms(1) by (auto simp: clean_def)
  obtain rs' where rs': "list_all valid_rune rs'" "take n s = encode rs'"
    using assms(2) ValidString_runes by blast
  have "encode rs = encode rs' @ drop n s" using rs rs' append_take_drop_id by metis
  then obtain us where "rs = rs' @ us" using encode_prefix kept_valid rs rs' by blast
  then show ?thesis using rs rs' by (auto simp: clean_def)
qed

lemma cut_end_valid: "ValidString (take (cut_end s n) s) \<and> cut_end s n \<le> n"
  by (induction n) auto

lemma truncate_clean:
  assumes "clean s" "3 \<le> m"
  shows "\<exists>p b. truncateUTF8 s m = Some (p, b) \<and> clean p \<and> int (length p) \<le> m"
proof (cases "int (length s) \<le> m")
  case True
  then show ?thesis using assms by (auto simp: truncateUTF8_def)
next
  case False
  let ?n = "cut_end s (nat (m - 3))"
  have "int ?n \<le> m - 3" using cut_end_valid [of s "nat (m - 3)"] assms(2) by linarith
  moreover have "clean (take ?n s @ truncationMarker)"
    using clean_prefix [OF assms(1)] cut_end_valid by (simp add: clean_append)
  ultimately show ?thesis
    using False assms(2) by (auto simp: truncateUTF8_def truncationMarker_def Let_def)
qed

lemma redact_step_clean:
  assumes "rest st \<noteq> []" "clean (out st)"
  shows "clean (out (redact_step st)) \<and> length (out (redact_step st)) \<le> length (out st) + 4"
proof -
  obtain c q where q: "rest st = c # q" using assms by (cases "rest st") auto
  note clean = clean_append [OF assms(2)]
  from q show ?thesis
  proof (cases rule: redact_step_cases)
    case (other r)
    then have "kept r" using DecodeRune_valid by (simp add: kept_def)
    then show ?thesis using other clean clean_rune EncodeRune_length [of r] by simp
  qed (use clean assms(2) in simp_all)
qed

lemma redact_loop_clean:
  assumes "3 \<le> m" "clean (out st)" "int (length (out st)) < m \<or> rest st = [] \<and> int (length (out st)) \<le> m + 3"
  shows "\<exists>p b. redact_loop m st = Some (p, b) \<and> clean p \<and> int (length p) \<le> (if b then m else m + 3)"
  using assms
proof (induction m st rule: redact_loop.induct)
  case (1 m st)
  show ?case
  proof (cases "rest st = []")
    case True
    moreover have "int (length (out st)) \<le> m + 3" using 1(4) by linarith
    ultimately show ?thesis
      using clean_TrimSpace [OF 1(3)] by (auto simp: redact_loop_end)
  next
    case False
    let ?st = "redact_step st"
    have c: "clean (out ?st)" "int (length (out ?st)) \<le> m + 3"
      using redact_step_clean [OF False 1(3)] 1(4) False by auto
    show ?thesis
    proof (cases "m \<le> int (length (out ?st)) \<and> rest ?st \<noteq> []")
      case True
      obtain p b where "truncateUTF8 (TrimSpace (out ?st)) m = Some (p, b)" "clean p" "int (length p) \<le> m"
        using truncate_clean [OF clean_TrimSpace(1) [OF c(1)] 1(2)] by blast
      then show ?thesis using True redact_loop_cut [OF False, of m] by auto
    next
      case go: False
      then have "int (length (out ?st)) < m \<or> rest ?st = [] \<and> int (length (out ?st)) \<le> m + 3"
        using c(2) by linarith
      from 1(1) [OF False refl go 1(2) c(1) this] show ?thesis
        using redact_loop_go [OF False go] by simp
    qed
  qed
qed

lemma kept_bytes:
  assumes "kept r" "c \<in> set (EncodeRune r)"
  shows "c \<noteq> quote \<and> \<not> (0x30 \<le> byte c \<and> byte c \<le> 0x39)"
proof -
  have v: "valid_rune r" using assms(1) by (simp add: kept_def)
  obtain d t where e: "EncodeRune r = d # t" by (cases "EncodeRune r") auto
  note shape = EncodeRune_shape [OF v e]
  have "byte c = r \<and> t = [] \<or> 0x80 \<le> byte c"
  proof (cases "c = d")
    case True
    then show ?thesis using shape(4,5) by (cases "t = []") auto
  next
    case False
    then show ?thesis using shape(1) assms(2) by (auto simp: e list_all_iff cont_def)
  qed
  moreover have "r < 0x80" if "byte c = r" "t = []"
    using that shape(4) assms(2) e by auto
  ultimately show ?thesis using assms(1) by (auto simp: kept_def IsDigit_ascii)
qed

lemma clean_ValidString: "clean s \<Longrightarrow> ValidString s"
  unfolding clean_def ValidString_iff using kept_valid by blast

lemma clean_bytes:
  assumes "clean s"
  shows "set s \<inter> ({quote} \<union> set ''0123456789'') = {}"
proof -
  obtain rs where rs: "list_all kept rs" "s = encode rs" using assms by (auto simp: clean_def)
  have "c \<noteq> quote \<and> \<not> (0x30 \<le> byte c \<and> byte c \<le> 0x39)" if "c \<in> set s" for c
    using that rs kept_bytes by (auto simp: encode_def list_all_iff)
  then show ?thesis by fastforce
qed

text \<open>
  C11 (safety): summarising any statement succeeds, and the preview is valid UTF-8 without a single
  quote or an ASCII digit in it, at most 2048 bytes long when the statement was cut and at most 2051
  when it was not; the byte count is that of the statement.
\<close>

theorem preview_safe:
  "\<exists>s. summarizeSQL query = Some s \<and> ValidString (Preview s)
     \<and> set (Preview s) \<inter> ({quote} \<union> set ''0123456789'') = {}
     \<and> length (Preview s) \<le> (if Truncated s then 2048 else 2051) \<and> Bytes s = length query"
proof -
  obtain p b where p: "redact_loop 2048 \<lparr>out = [], lastWasSpace = False, rest = query\<rparr> = Some (p, b)"
    "clean p" "int (length p) \<le> (if b then 2048 else 2048 + 3)"
    using redact_loop_clean [of 2048 "\<lparr>out = [], lastWasSpace = False, rest = query\<rparr>"] by auto
  then show ?thesis
    using clean_ValidString clean_bytes
    by (auto simp: summarizeSQL_def redactSQLValues_def maxSQLPreviewBytes_def split: if_splits)
qed

end
