(* ===== verification/GormRedaction.thy ===== *)
theory GormRedaction
  imports GormLogger
begin

text \<open>
  What the redaction of src/db/gorm_slog_logger.go hides. A statement is described by its pieces, text
  and literals; the redaction of a rendered statement is a function of the text and of the places of
  the literals, so no value of a literal can show in the preview. The theory also has the two ways in
  which a preview differs from its description: its length, and quoted identifiers.
\<close>

section \<open>Literals do not show\<close>

text \<open>
  A statement as its pieces: the runes of its text, and its literals, each with the value it carries.
  String literals double their quotes, E-strings escape with backslashes, dollar-quoted strings are
  bracketed by a delimiter that does not occur inside.
\<close>

datatype sql_piece =
    SqlRune nat
  | SqlString string
  | SqlNumber string
  | SqlEscape string
  | SqlDollar string string

fun double_quotes :: "string \<Rightarrow> string" where
  "double_quotes [] = []"
| "double_quotes (c # v) = (if c = quote then [quote, quote] else [c]) @ double_quotes v"

fun backslash :: "string \<Rightarrow> string" where
  "backslash [] = []"
| "backslash (c # v) = (if c = quote \<or> c = CHR 0x5C then [CHR 0x5C, c] else [c]) @ backslash v"

definition delimiter :: "string \<Rightarrow> string" where
  "delimiter tag = CHR ''$'' # tag @ ''$''"

fun render_piece :: "sql_piece \<Rightarrow> string" where
  "render_piece (SqlRune r) = EncodeRune r"
| "render_piece (SqlString v) = quote # double_quotes v @ [quote]"
| "render_piece (SqlNumber n) = n"
| "render_piece (SqlEscape v) = CHR ''E'' # quote # backslash v @ [quote]"
| "render_piece (SqlDollar tag v) = delimiter tag @ v @ delimiter tag"

definition render :: "sql_piece list \<Rightarrow> string" where
  "render ps = concat (map render_piece ps)"

definition number_char :: "char \<Rightarrow> bool" where
  "number_char c \<longleftrightarrow> (0x30 \<le> byte c \<and> byte c \<le> 0x39) \<or> byte c = 0x2E"

definition text_rune :: "nat \<Rightarrow> bool" where
  "text_rune r \<longleftrightarrow> kept r \<and> r \<noteq> 0x24"

fun starts_string :: "sql_piece list \<Rightarrow> bool" where
  "starts_string (SqlString v # ps) = True"
| "starts_string ps = False"

fun starts_number :: "sql_piece list \<Rightarrow> bool" where
  "starts_number (SqlNumber n # ps) = True"
| "starts_number (SqlRune r # ps) = (r = 0x2E)"
| "starts_number ps = False"

text \<open>
  Pieces that do not run into each other: no string literal right after another one or after a letter
  E, no digit or point right after a number.
\<close>

fun wf_sql :: "sql_piece list \<Rightarrow> bool" where
  "wf_sql [] = True"
| "wf_sql (SqlRune r # ps) = (text_rune r \<and> (if r = 0x45 \<or> r = 0x65 then \<not> starts_string ps else True) \<and> wf_sql ps)"
| "wf_sql (SqlString v # ps) = (\<not> starts_string ps \<and> wf_sql ps)"
| "wf_sql (SqlNumber n # ps) =
     (n \<noteq> [] \<and> byte (hd n) \<noteq> 0x2E \<and> list_all number_char n \<and> \<not> starts_number ps \<and> wf_sql ps)"
| "wf_sql (SqlEscape v # ps) = (\<not> starts_string ps \<and> wf_sql ps)"
| "wf_sql (SqlDollar tag v # ps) =
     (validDollarQuoteTag tag \<and> Index (v @ delimiter tag) (delimiter tag) = Some (length v) \<and> wf_sql ps)"

text \<open>What is left of a piece when its value is forgotten.\<close>

fun shape :: "sql_piece \<Rightarrow> nat option" where
  "shape (SqlRune r) = Some r"
| "shape _ = None"

text \<open>The redaction of a statement seen only by the shapes of its pieces.\<close>

fun shape_step :: "string \<times> bool \<Rightarrow> nat option \<Rightarrow> string \<times> bool" where
  "shape_step st None = (fst st @ ''?'', False)"
| "shape_step st (Some r) =
     (if IsSpace r then (if \<not> snd st \<and> fst st \<noteq> [] then fst st @ '' '' else fst st, True)
      else (fst st @ EncodeRune r, False))"

fun shape_loop :: "int \<Rightarrow> string \<times> bool \<Rightarrow> nat option list \<Rightarrow> (string \<times> bool) option" where
  "shape_loop m st [] = Some (TrimSpace (fst st), False)"
| "shape_loop m st (t # ts) =
     (let st' = shape_step st t in
      if m \<le> int (length (fst st')) \<and> ts \<noteq> []
      then map_option (\<lambda>(preview, _). (preview, True)) (truncateUTF8 (TrimSpace (fst st')) m)
      else shape_loop m st' ts)"

lemma render_simps [simp]: "render [] = []" "render (p # ps) = render_piece p @ render ps"
  by (simp_all add: render_def)

text \<open>The first byte of a rendered statement.\<close>

lemma EncodeRune_hd: "valid_rune r \<Longrightarrow> byte (hd (EncodeRune r)) = r \<and> r < 0x80 \<or> 0x80 \<le> byte (hd (EncodeRune r)) \<and> 0x80 \<le> r"
proof -
  assume v: "valid_rune r"
  obtain c t where e: "EncodeRune r = c # t" by (cases "EncodeRune r") auto
  note shape = EncodeRune_shape [OF v e]
  show ?thesis
  proof (cases "r < 0x80")
    case True
    then show ?thesis by (simp add: EncodeRune_byte)
  next
    case False
    then have "t \<noteq> []" using shape(4,5) by auto
    then show ?thesis using False shape(4) by (simp add: e)
  qed
qed

lemma number_char_bound: "number_char c \<Longrightarrow> byte c < 0x80 \<and> c \<noteq> quote \<and> c \<noteq> CHR ''$'' \<and> c \<noteq> CHR ''E'' \<and> c \<noteq> CHR ''e''"
  by (auto simp: number_char_def)

lemma head_not_quote:
  assumes "wf_sql ps" "\<not> starts_string ps"
  shows "render ps = [] \<or> hd (render ps) \<noteq> quote"
proof (cases ps)
  case (Cons p ps')
  show ?thesis
  proof (cases p)
    case (SqlRune r)
    then have "valid_rune r" "r \<noteq> 0x27" using assms(1) Cons by (auto simp: text_rune_def kept_def)
    then have "hd (EncodeRune r) \<noteq> quote" using EncodeRune_hd [of r] by auto
    then show ?thesis by (simp add: Cons SqlRune)
  next
    case (SqlNumber n)
    then show ?thesis using assms(1) Cons number_char_bound by (cases n) auto
  qed (use assms(2) Cons in \<open>auto simp: delimiter_def\<close>)
qed simp

lemma head_not_number:
  assumes "wf_sql ps" "\<not> starts_number ps"
  shows "render ps = [] \<or> \<not> IsDigit (fst (DecodeRune (render ps))) \<and> fst (DecodeRune (render ps)) \<noteq> 0x2E"
proof (cases ps)
  case (Cons p ps')
  show ?thesis
  proof (cases p)
    case (SqlRune r)
    then have "valid_rune r" "\<not> IsDigit r" "r \<noteq> 0x2E" using assms Cons by (auto simp: text_rune_def kept_def)
    then show ?thesis by (simp add: Cons SqlRune Decode_Encode)
  qed (use assms(2) Cons in \<open>auto simp: delimiter_def DecodeRune_ascii IsDigit_ascii\<close>)
qed simp

lemma quoted_literal: "s = [] \<or> hd s \<noteq> quote \<Longrightarrow> quoted_bytes (double_quotes v @ quote # s) = s"
  by (induction v) (auto split: list.split)

lemma escaped_literal: "s = [] \<or> hd s \<noteq> quote \<Longrightarrow> escaped_bytes (backslash v @ quote # s) = s"
  by (induction v) (auto split: list.split)

lemma numeric_literal:
  assumes "s = [] \<or> \<not> IsDigit (fst (DecodeRune s)) \<and> fst (DecodeRune s) \<noteq> 0x2E"
  shows "list_all number_char n \<Longrightarrow> skipNumericLiteral (n @ s) = s"
proof (induction n)
  case Nil
  then show ?case using assms by (cases s) (auto simp: skipNumericLiteral.simps(2) Let_def)
next
  case (Cons c n)
  then show ?case
    using number_char_bound [of c]
    by (auto simp: skipNumericLiteral.simps(2) DecodeRune_ascii IsDigit_ascii number_char_def)
qed

lemma HasPrefix_append: "length p \<le> length a \<Longrightarrow> HasPrefix (a @ b) p = HasPrefix a p"
  by (induction a p rule: HasPrefix.induct) auto

lemma Index_append:
  "Index (v @ d) d = Some (length v) \<Longrightarrow> Index (v @ d @ s) d = Some (length v)"
proof (induction v)
  case Nil
  have "HasPrefix (d @ s) d" by (simp add: HasPrefix_iff)
  then show ?case by (cases "d @ s") (auto simp del: HasPrefix.simps)
next
  case (Cons c v)
  have "HasPrefix (c # v @ d @ s) d = HasPrefix (c # v @ d) d"
    using HasPrefix_append [of d "c # v @ d" s] by simp
  then show ?case using Cons by (auto split: if_splits)
qed

lemma tag_no_dollar: "validDollarQuoteTag tag \<Longrightarrow> CHR ''$'' \<notin> set tag"
  by (cases tag) (auto simp: validDollarQuoteTag_def list_all_iff)

lemma IndexByte_append: "c \<notin> set a \<Longrightarrow> IndexByte (a @ c # b) c = Some (length a)"
  by (induction a) auto

lemma dollar_literal:
  assumes "validDollarQuoteTag tag"
  shows "dollarQuoteDelimiter (delimiter tag @ s) = Some (delimiter tag)"
  using IndexByte_append [OF tag_no_dollar [OF assms], of s] assms
  by (simp add: dollarQuoteDelimiter_def delimiter_def)

abbreviation scan :: "string \<times> bool \<Rightarrow> string \<Rightarrow> redaction" where
  "scan st q \<equiv> \<lparr>out = fst st, lastWasSpace = snd st, rest = q\<rparr>"

text \<open>The three ways a step starts, by what the statement begins with.\<close>

lemma redact_step_escape:
  "isEscapeStringStart q \<Longrightarrow> redact_step (scan st q) = scan (fst st @ ''?'', False) (skipEscapeQuotedLiteral (drop 2 q))"
  by (simp add: redact_step_def)

lemma redact_step_dollar:
  "\<not> isEscapeStringStart q \<Longrightarrow> dollarQuoteDelimiter q = Some d \<Longrightarrow>
   redact_step (scan st q) = scan (fst st @ ''?'', False) (skipDollarQuotedLiteral (drop (length d) q) d)"
  by (simp add: redact_step_def)

lemma redact_step_decode:
  "\<not> isEscapeStringStart q \<Longrightarrow> dollarQuoteDelimiter q = None \<Longrightarrow> DecodeRune q = (r, n) \<Longrightarrow>
   redact_step (scan st q) =
     (if r = 0x27 then scan (fst st @ ''?'', False) (skipQuotedLiteral (drop n q))
      else if IsSpace r then scan (shape_step st (Some r)) (drop n q)
      else if IsDigit r then scan (fst st @ ''?'', False) (skipNumericLiteral (drop n q))
      else scan (fst st @ EncodeRune r, False) (drop n q))"
  by (simp add: redact_step_def)

lemma not_dollar: "c \<noteq> CHR ''$'' \<Longrightarrow> dollarQuoteDelimiter (c # q) = None"
  by (simp add: dollarQuoteDelimiter_def)

lemma not_escape: "c \<noteq> CHR ''E'' \<Longrightarrow> c \<noteq> CHR ''e'' \<Longrightarrow> \<not> isEscapeStringStart (c # q)"
  by (simp add: isEscapeStringStart_def split: list.split)

lemma redact_step_rune:
  assumes "wf_sql (SqlRune r # ps)"
  shows "redact_step (scan st (EncodeRune r @ render ps)) = scan (shape_step st (Some r)) (render ps)"
proof -
  have r: "valid_rune r" "r \<noteq> 0x27" "\<not> IsDigit r" "r \<noteq> 0x24"
    using assms by (auto simp: text_rune_def kept_def)
  obtain c t where e: "EncodeRune r = c # t" by (cases "EncodeRune r") auto
  have c: "byte c = r \<and> t = [] \<or> 0x80 \<le> byte c"
    using EncodeRune_hd [OF r(1)] EncodeRune_shape(4,5) [OF r(1) e] e by auto
  then have "dollarQuoteDelimiter (c # t @ render ps) = None" using r by (auto intro: not_dollar)
  moreover have "\<not> isEscapeStringStart (c # t @ render ps)"
  proof (cases "r = 0x45 \<or> r = 0x65")
    case True
    then have "render ps = [] \<or> hd (render ps) \<noteq> quote" "t = []"
      using assms head_not_quote [of ps] e by (auto simp: EncodeRune_byte)
    then show ?thesis by (cases "render ps") (auto simp: isEscapeStringStart_def)
  next
    case False
    then show ?thesis using c by (intro not_escape) auto
  qed
  moreover have "DecodeRune (c # t @ render ps) = (r, length (c # t))"
    using Decode_Encode [OF r(1), of "render ps"] e by simp
  ultimately show ?thesis
    using r by (simp add: redact_step_decode e)
qed

lemma redact_step_piece:
  assumes "wf_sql (p # ps)"
  shows "redact_step (scan st (render (p # ps))) = scan (shape_step st (shape p)) (render ps)"
proof (cases p)
  case (SqlRune r)
  then show ?thesis using assms redact_step_rune by simp
next
  case (SqlString v)
  have "DecodeRune (quote # q) = (0x27, 1)" for q by (simp add: DecodeRune_ascii)
  then show ?thesis
    using assms quoted_literal [OF head_not_quote [of ps], of v] SqlString
    by (simp add: redact_step_decode not_dollar not_escape skipQuoted_bytes)
next
  case (SqlNumber n)
  then obtain d t where n: "n = d # t" using assms by (cases n) auto
  then have d: "number_char d" "byte d \<noteq> 0x2E" "list_all number_char t" using assms SqlNumber by auto
  then have "0x30 \<le> byte d" "byte d \<le> 0x39" by (auto simp: number_char_def)
  then have "DecodeRune (d # q) = (byte d, 1)" "byte d \<noteq> 0x27" "IsDigit (byte d)" "\<not> IsSpace (byte d)" for q
    by (simp_all add: DecodeRune_ascii IsDigit_ascii IsSpace_def)
  then show ?thesis
    using assms SqlNumber n d number_char_bound [OF d(1)] numeric_literal [OF head_not_number [of ps] d(3)]
    by (simp add: redact_step_decode not_dollar not_escape)
next
  case (SqlEscape v)
  have "isEscapeStringStart (CHR ''E'' # quote # q)" for q by (simp add: isEscapeStringStart_def)
  then show ?thesis
    using assms escaped_literal [OF head_not_quote [of ps], of v] SqlEscape
    by (simp add: redact_step_escape skipEscape_bytes)
next
  case (SqlDollar tag v)
  then have d: "dollarQuoteDelimiter (delimiter tag @ v @ delimiter tag @ render ps) = Some (delimiter tag)"
    and i: "Index (v @ delimiter tag @ render ps) (delimiter tag) = Some (length v)"
    using assms dollar_literal Index_append by auto
  have "\<not> isEscapeStringStart (delimiter tag @ q)" for q by (simp add: delimiter_def not_escape)
  then show ?thesis
    using SqlDollar i redact_step_dollar [OF _ d, of st] by (simp add: skipDollarQuotedLiteral_def)
qed

lemma render_nonempty: "wf_sql ps \<Longrightarrow> render ps = [] \<longleftrightarrow> ps = []"
proof (cases ps)
  case (Cons p ps')
  assume "wf_sql ps"
  then have "render_piece p \<noteq> []" using Cons by (cases p) (auto simp: delimiter_def)
  then show ?thesis by (simp add: Cons)
qed simp

lemma wf_sql_tl: "wf_sql (p # ps) \<Longrightarrow> wf_sql ps"
  by (cases p) auto

text \<open>The scanner implements the redaction by shapes.\<close>

lemma redact_loop_shapes:
  "wf_sql ps \<Longrightarrow> redact_loop m (scan st (render ps)) = shape_loop m st (map shape ps)"
proof (induction ps arbitrary: st)
  case Nil
  then show ?case by (simp add: redact_loop_end)
next
  case (Cons p ps)
  let ?st = "shape_step st (shape p)"
  have wf: "wf_sql ps" using Cons.prems wf_sql_tl by blast
  have ne: "rest (scan st (render (p # ps))) \<noteq> []" using render_nonempty [OF Cons.prems] by simp
  note step = redact_step_piece [OF Cons.prems, of st]
  show ?case
  proof (cases "m \<le> int (length (fst ?st)) \<and> ps \<noteq> []")
    case True
    then show ?thesis
      using redact_loop_cut [OF ne, of m] render_nonempty [OF wf] unfolding step by (simp add: Let_def)
  next
    case False
    then show ?thesis
      using redact_loop_go [OF ne, of m] render_nonempty [OF wf] Cons.IH [OF wf, of ?st]
      unfolding step by (auto simp: Let_def)
  qed
qed

text \<open>
  C10 (safety): two statements made of the same text and of literals of whatever values in the same places have the same
  preview, so that it tells nothing of the values, be they quoted, escaped, dollar-quoted or numeric. The statements are
  those whose text has no apostrophe, no digit and no dollar sign outside of literals, no string literal right after
  another one or after a letter E, and no point or number right after a number. Of other statements it need not hold: an
  apostrophe in a quoted identifier lets a literal through (\<open>quoted_identifier_leak\<close>).
\<close>

theorem redaction_hides_literals:
  assumes "wf_sql ps" "wf_sql ps'" "map shape ps = map shape ps'"
  shows "redactSQLValues (render ps) maxBytes = redactSQLValues (render ps') maxBytes"
  using redact_loop_shapes [OF assms(1), of maxBytes "([], False)"]
    redact_loop_shapes [OF assms(2), of maxBytes "([], False)"] assms(3)
  by (auto simp: redactSQLValues_def)

theorem redaction_hides_literals_witness:
  "redactSQLValues (render [SqlRune 0x78, SqlRune 0x3D, SqlString ''it'', SqlRune 0x20, SqlNumber ''12'',
      SqlRune 0x20, SqlDollar ''t'' ''x'']) 2048
   = redactSQLValues (render [SqlRune 0x78, SqlRune 0x3D, SqlString [], SqlRune 0x20, SqlNumber ''7.5'',
      SqlRune 0x20, SqlEscape ''secret'']) 2048"
  by (rule redaction_hides_literals)
    (simp_all add: text_rune_def kept_def valid_rune_def IsDigit_ascii number_char_def
      validDollarQuoteTag_def delimiter_def)

section \<open>Where the preview departs from its description\<close>

definition shape_rune :: "nat option \<Rightarrow> nat" where
  "shape_rune t = (case t of None \<Rightarrow> 0x3F | Some r \<Rightarrow> r)"

lemma encode_mark: "EncodeRune 0x3F = ''?''"
  by (simp add: EncodeRune_def char_of_byte)

lemma shape_step_plain:
  "\<not> IsSpace (shape_rune t) \<Longrightarrow> shape_step st t = (fst st @ EncodeRune (shape_rune t), False)"
  by (cases t) (simp_all add: shape_rune_def encode_mark)

lemma shape_loop_plain:
  "list_all (\<lambda>r. \<not> IsSpace r) (map shape_rune ts) \<Longrightarrow>
   ts = [] \<or> int (length (fst st @ encode (map shape_rune (butlast ts)))) < m \<Longrightarrow>
   shape_loop m st ts = Some (TrimSpace (fst st @ encode (map shape_rune ts)), False)"
proof (induction ts arbitrary: st)
  case (Cons t ts)
  let ?st = "(fst st @ EncodeRune (shape_rune t), False)"
  have "shape_step st t = ?st" using Cons.prems(1) by (simp add: shape_step_plain)
  moreover have "ts = [] \<or> int (length (fst ?st @ encode (map shape_rune (butlast ts)))) < m"
    using Cons.prems(2) by (cases ts) auto
  ultimately show ?case using Cons.IH [of ?st] Cons.prems by auto
qed simp

lemma trim_runes_id: "list_all (\<lambda>r. \<not> f r) rs \<Longrightarrow> trim_runes f rs = rs"
proof -
  assume a: "list_all (\<lambda>r. \<not> f r) rs"
  then have "dropWhile f rs = rs" "dropWhile f (rev rs) = rev rs"
    by (cases rs; simp) (metis a dropWhile_eq_self_iff hd_in_set list_all_iff set_rev)
  then show ?thesis by (simp add: trim_runes_def)
qed

text \<open>A statement without white space that fits is copied, its literals replaced by question marks.\<close>

lemma redact_plain:
  assumes "wf_sql ps" "0 \<le> m"
    and "list_all (\<lambda>r. valid_rune r \<and> \<not> IsSpace r) (map (shape_rune \<circ> shape) ps)"
    and "ps = [] \<or> int (length (encode (map (shape_rune \<circ> shape) (butlast ps)))) < m"
  shows "redactSQLValues (render ps) m = Some (encode (map (shape_rune \<circ> shape) ps), False)"
proof -
  let ?rs = "map (shape_rune \<circ> shape) ps"
  have "TrimSpace (encode ?rs) = encode ?rs"
    using assms(3) TrimSpace_encode [of ?rs] trim_runes_id [of IsSpace ?rs] by (simp add: list_all_iff)
  moreover have "shape_loop m ([], False) (map shape ps) = Some (TrimSpace (encode ?rs), False)"
    using shape_loop_plain [of "map shape ps" "([], False)" m] assms(3,4)
    by (simp add: list_all_iff map_butlast [symmetric])
  ultimately show ?thesis
    using redact_loop_shapes [OF assms(1), of m "([], False)"] assms(2) by (simp add: redactSQLValues_def)
qed

text \<open>
  The bound of 2048 bytes on a preview is not exact. A statement of 2047 letters and one
  rune of four bytes is logged whole, with a preview of 2051 bytes that does not count as truncated.
\<close>

theorem preview_overlong:
  "\<exists>query s. summarizeSQL query = Some s \<and> length (Preview s) = 2051 \<and> \<not> Truncated s"
proof -
  let ?ps = "replicate 2047 (SqlRune 0x61) @ [SqlRune 0x1F600]"
  have wf: "wf_sql (replicate n (SqlRune 0x61) @ [SqlRune 0x1F600])" for n
    by (induction n) (simp_all add: text_rune_def kept_def valid_rune_def IsDigit_def Nd_def)
  have len: "length (encode (replicate n 0x61)) = n" for n
    by (induction n) (simp_all add: EncodeRune_def)
  have "redactSQLValues (render ?ps) 2048 = Some (encode (replicate 2047 0x61 @ [0x1F600]), False)"
    using redact_plain [OF wf, of 2048 2047] len [of 2047]
    by (simp add: shape_rune_def list_all_iff valid_rune_def IsSpace_def)
  moreover have "length (encode (replicate 2047 0x61 @ [0x1F600])) = 2051"
    using len [of 2047] by (simp add: EncodeRune_def valid_rune_def)
  ultimately show ?thesis
    by (intro exI [of _ "render ?ps"]) (simp add: summarizeSQL_def maxSQLPreviewBytes_def)
qed

lemma eq_char_of: "n < 256 \<Longrightarrow> c = char_of n \<longleftrightarrow> byte c = n"
  by auto

text \<open>
  The redaction does not know quoted identifiers. In a statement that compares an
  identifier with an apostrophe in its name, written between double quotes, with a string literal, the
  scanner takes the apostrophe for the start of a literal, and the literal of the statement, pw, is
  copied to the preview.
\<close>

theorem quoted_identifier_leak:
  "redactSQLValues
     ([CHR 0x22, CHR ''a'', quote, CHR ''b'', CHR 0x22, CHR ''='', quote] @ ''pw''
       @ [quote, CHR ''='', CHR 0x22, CHR ''c'', quote, CHR 0x22]) 2048
   = Some ([CHR 0x22, CHR ''a''] @ ''?pw?'' @ [CHR 0x22], False)"
proof -
  let ?ps = "[SqlRune 0x22, SqlRune 0x61, SqlString [CHR ''b'', CHR 0x22, CHR ''=''], SqlRune 0x70, SqlRune 0x77,
    SqlString [CHR ''='', CHR 0x22, CHR ''c''], SqlRune 0x22]"
  have r: "[CHR 0x22, CHR ''a'', quote, CHR ''b'', CHR 0x22, CHR ''='', quote] @ ''pw''
       @ [quote, CHR ''='', CHR 0x22, CHR ''c'', quote, CHR 0x22] = render ?ps"
    by (simp add: EncodeRune_def eq_char_of)
  have "wf_sql ?ps" by (simp add: text_rune_def kept_def valid_rune_def IsDigit_ascii)
  then show ?thesis
    unfolding r using redact_plain [of ?ps 2048]
    by (simp add: shape_rune_def valid_rune_def IsSpace_def EncodeRune_def eq_char_of char_of_byte)
qed

end
