(* ===== verification/GormTrace.thy ===== *)
theory GormTrace
  imports GormRedaction
begin

text \<open>
  The logger object of src/db/gorm_slog_logger.go: its level, what it counts as an error, and which
  query is logged how. The methods are functions to the list of effects they have, in order: the call
  of the function that renders the statement, and the records handed to the context's logger. Time is
  in nanoseconds. The slog handler behind the context is a parameter, the function \<open>enabled\<close>.
\<close>

section \<open>Levels and records\<close>

abbreviation Silent :: int where "Silent \<equiv> 1"
abbreviation LError :: int where "LError \<equiv> 2"
abbreviation LWarn :: int where "LWarn \<equiv> 3"
abbreviation LInfo :: int where "LInfo \<equiv> 4"

datatype slog_level = LevelDebug | LevelInfo | LevelWarn | LevelError

datatype log_value = VDuration int | VInt int | VStr string | VBool bool | VErr go_error

record log_record =
  rec_level :: slog_level
  rec_msg :: string
  rec_attrs :: "(string \<times> log_value) list"

datatype trace_effect = CallFc | Emit log_record

abbreviation gorm_ErrRecordNotFound :: go_error where
  "gorm_ErrRecordNotFound \<equiv> ErrNew ''gorm.ErrRecordNotFound''"

section \<open>The logger\<close>

record GormSlogLogger =
  LogLevel :: int
  IgnoreRecordNotFoundError :: bool

definition NewGormSlogLogger :: GormSlogLogger where
  "NewGormSlogLogger = \<lparr>LogLevel = LInfo, IgnoreRecordNotFoundError = True\<rparr>"

definition LogMode :: "GormSlogLogger \<Rightarrow> int \<Rightarrow> GormSlogLogger" where
  "LogMode l level = l\<lparr>LogLevel := level\<rparr>"

definition gorm_message :: "slog_level \<Rightarrow> string \<Rightarrow> log_record" where
  "gorm_message lvl detail = \<lparr>rec_level = lvl, rec_msg = ''gorm message'', rec_attrs = [(''detail'', VStr detail)]\<rparr>"

text \<open>\<open>sprintf\<close> renders the message with its values.\<close>

definition Logger_Info :: "(string \<Rightarrow> 'v list \<Rightarrow> string) \<Rightarrow> GormSlogLogger \<Rightarrow> string \<Rightarrow> 'v list \<Rightarrow> trace_effect list" where
  "Logger_Info sprintf l msg data =
     (if LInfo \<le> LogLevel l then [Emit (gorm_message LevelInfo (sprintf msg data))] else [])"

definition Logger_Warn :: "(string \<Rightarrow> 'v list \<Rightarrow> string) \<Rightarrow> GormSlogLogger \<Rightarrow> string \<Rightarrow> 'v list \<Rightarrow> trace_effect list" where
  "Logger_Warn sprintf l msg data =
     (if LWarn \<le> LogLevel l then [Emit (gorm_message LevelWarn (sprintf msg data))] else [])"

definition Logger_Error :: "(string \<Rightarrow> 'v list \<Rightarrow> string) \<Rightarrow> GormSlogLogger \<Rightarrow> string \<Rightarrow> 'v list \<Rightarrow> trace_effect list" where
  "Logger_Error sprintf l msg data =
     (if LError \<le> LogLevel l then [Emit (gorm_message LevelError (sprintf msg data))] else [])"

definition isLoggedError :: "GormSlogLogger \<Rightarrow> err \<Rightarrow> bool" where
  "isLoggedError l e =
     (case e of
        None \<Rightarrow> False
      | Some _ \<Rightarrow> \<not> IgnoreRecordNotFoundError l \<or> \<not> err_is e gorm_ErrRecordNotFound)"

definition slowQueryThreshold :: int where
  "slowQueryThreshold = 200 * 1000000"

definition traceSlogLevel :: "GormSlogLogger \<Rightarrow> int \<Rightarrow> bool \<Rightarrow> slog_level \<times> string \<times> bool" where
  "traceSlogLevel l elapsed isError =
     (if isError \<and> LError \<le> LogLevel l then (LevelError, ''gorm error'', True)
      else if slowQueryThreshold < elapsed \<and> LWarn \<le> LogLevel l then (LevelWarn, ''SLOW QUERY'', True)
      else if LInfo \<le> LogLevel l then (LevelDebug, ''SQL EXECUTED'', True)
      else (LevelDebug, [], False))"

definition trace_attrs :: "err \<Rightarrow> bool \<Rightarrow> int \<Rightarrow> int \<Rightarrow> sqlSummary \<Rightarrow> (string \<times> log_value) list" where
  "trace_attrs e isError elapsed rows summary =
     (case e of Some e' \<Rightarrow> if isError then [(''error'', VErr e')] else [] | None \<Rightarrow> []) @
     [(''duration'', VDuration elapsed), (''rows'', VInt rows), (''sql_preview'', VStr (Preview summary)),
      (''sql_bytes'', VInt (int (Bytes summary))), (''sql_truncated'', VBool (Truncated summary))]"

text \<open>\<open>fc\<close> is what the rendering function returns when it is called; None is a panic.\<close>

definition Trace :: "(slog_level \<Rightarrow> bool) \<Rightarrow> GormSlogLogger \<Rightarrow> int \<Rightarrow> string \<times> int \<Rightarrow> err \<Rightarrow> trace_effect list option" where
  "Trace enabled l elapsed fc e =
     (if LogLevel l \<le> Silent then Some []
      else let isError = isLoggedError l e; (logLevel, message, shouldLog) = traceSlogLevel l elapsed isError in
        if \<not> shouldLog then Some []
        else if \<not> enabled logLevel then Some []
        else let (sql, rows) = fc in
          map_option (\<lambda>summary. [CallFc, Emit \<lparr>rec_level = logLevel, rec_msg = message,
              rec_attrs = trace_attrs e isError elapsed rows summary\<rparr>])
            (summarizeSQL sql))"

section \<open>What is logged\<close>

lemma summarizeSQL_total: "\<exists>s. summarizeSQL q = Some s"
proof -
  have "\<exists>p b. redact_loop 2048 \<lparr>out = [], lastWasSpace = False, rest = q\<rparr> = Some (p, b)"
    using redact_loop_clean [of 2048 "\<lparr>out = [], lastWasSpace = False, rest = q\<rparr>"] by auto
  then show ?thesis by (auto simp: summarizeSQL_def redactSQLValues_def maxSQLPreviewBytes_def)
qed

text \<open>
  A query is logged exactly when its level is one the logger lets through and the
  handler enables: an error at ERROR, a slow query at WARN, any other at DEBUG. The statement is
  rendered only for a query that is logged, and once; the record carries the summary of the
  statement and, for an error, the error in front. Tracing never panics.
\<close>

theorem Trace_spec:
  "Trace enabled l elapsed (sql, rows) e =
     (let isErr = isLoggedError l e;
          lvl = (if isErr then LevelError else if elapsed > 200000000 \<and> LogLevel l \<ge> LWarn then LevelWarn else LevelDebug);
          msg = (if isErr then ''gorm error'' else if elapsed > 200000000 \<and> LogLevel l \<ge> LWarn then ''SLOW QUERY'' else ''SQL EXECUTED'')
      in Some (if (if isErr then LogLevel l \<ge> LError else if elapsed > 200000000 then LogLevel l \<ge> LWarn else LogLevel l \<ge> LInfo)
                  \<and> enabled lvl
               then [CallFc, Emit \<lparr>rec_level = lvl, rec_msg = msg,
                       rec_attrs = trace_attrs e isErr elapsed rows (the (summarizeSQL sql))\<rparr>]
               else []))"
proof -
  obtain s where "summarizeSQL sql = Some s" using summarizeSQL_total by blast
  then show ?thesis
    by (auto simp: Trace_def traceSlogLevel_def slowQueryThreshold_def Let_def)
qed

lemma isLoggedError_default: "err_is e gorm_ErrRecordNotFound \<Longrightarrow> \<not> isLoggedError NewGormSlogLogger e"
  by (auto simp: isLoggedError_def NewGormSlogLogger_def split: option.split)

text \<open>
  For the logger the package makes, at whatever level it is then set to, a query that
  found no record is never logged as an error, however deep the sentinel is wrapped.
\<close>

theorem missing_record_is_no_error:
  assumes "err_is e gorm_ErrRecordNotFound"
    and "Trace enabled (LogMode NewGormSlogLogger level) elapsed fc e = Some effects"
    and "Emit r \<in> set effects"
  shows "rec_level r \<noteq> LevelError \<and> ''error'' \<notin> set (map fst (rec_attrs r))"
proof -
  have n: "\<not> isLoggedError (LogMode NewGormSlogLogger level) e"
    using isLoggedError_default [OF assms(1)] by (simp add: isLoggedError_def LogMode_def split: option.splits)
  show ?thesis
    using assms(2,3) n
    by (auto simp: Trace_def traceSlogLevel_def trace_attrs_def Let_def split: prod.splits if_splits option.splits)
qed

lemma summarizeSQL_Nil: "summarizeSQL [] = Some \<lparr>Preview = [], Bytes = 0, Truncated = False\<rparr>"
  by (simp add: summarizeSQL_def redactSQLValues_def maxSQLPreviewBytes_def redact_loop_end TrimSpace_def
      TrimRightFunc_def lastIndexFunc.simps)

theorem missing_record_is_no_error_witness:
  "rec_level \<lparr>rec_level = LevelDebug, rec_msg = ''SQL EXECUTED'',
       rec_attrs = trace_attrs (Some (CTXError (Some gorm_ErrRecordNotFound) ''load'')) False 5 0
         \<lparr>Preview = [], Bytes = 0, Truncated = False\<rparr>\<rparr> \<noteq> LevelError"
  using missing_record_is_no_error [where e = "Some (CTXError (Some gorm_ErrRecordNotFound) ''load'')"
      and enabled = "\<lambda>_. True" and level = LInfo and elapsed = 5 and fc = "([], 0)"
      and effects = "[CallFc, Emit \<lparr>rec_level = LevelDebug, rec_msg = ''SQL EXECUTED'',
       rec_attrs = trace_attrs (Some (CTXError (Some gorm_ErrRecordNotFound) ''load'')) False 5 0
         \<lparr>Preview = [], Bytes = 0, Truncated = False\<rparr>\<rparr>]"
      and r = "\<lparr>rec_level = LevelDebug, rec_msg = ''SQL EXECUTED'',
       rec_attrs = trace_attrs (Some (CTXError (Some gorm_ErrRecordNotFound) ''load'')) False 5 0
         \<lparr>Preview = [], Bytes = 0, Truncated = False\<rparr>\<rparr>"]
  by (simp add: Trace_def traceSlogLevel_def slowQueryThreshold_def isLoggedError_def LogMode_def
      NewGormSlogLogger_def summarizeSQL_Nil)

end
