(* ===== verification/AppRunner.thy ===== *)
theory AppRunner
  imports CtxErrors
begin

text \<open>
  The application runner of src/app-runner/app_runner.go as a system of concurrent steps: the main
  goroutine, the goroutine that runs the application, the one that stops it and the one that waits
  for both. Channels are buffers with a closed flag; the application, the signals and the clock are
  the environment, whose steps carry the results they choose. The fields \<open>runResult\<close> and
  \<open>stopResult\<close> record what Run and Stop returned and are read by no step.
\<close>

section \<open>State\<close>

abbreviation ErrShutdownTimeout :: go_error where
  "ErrShutdownTimeout \<equiv> ErrNew ''runner.ErrShutdownTimeout''"

abbreviation DeadlineExceeded :: go_error where
  "DeadlineExceeded \<equiv> Foreign ''context.DeadlineExceeded''"

abbreviation Canceled :: go_error where
  "Canceled \<equiv> Foreign ''context.Canceled''"

text \<open>Where each goroutine is.\<close>

datatype main_pc = MWait | MSelect err | MReturn err
datatype app_pc = ARun | ASent | AClosed | ADone
datatype stop_pc = SIdle | SRun | SSent | SDone
datatype waiter_pc = WIdle | WWait | WClosed

record appRunner =
  main :: main_pc
  app :: app_pc
  stop :: stop_pc
  waiter :: waiter_pc
  sigCh :: nat
  errCh :: "err list"
  errClosed :: bool
  stopCh :: "go_error list"
  wg :: int
  ctxErr :: err
  runResult :: "err option"
  stopResult :: "err option"

text \<open>The state when \<open>run\<close> reaches \<open>waitForShutdown\<close>: the application has been started.\<close>

definition run_init :: appRunner where
  "run_init = \<lparr>main = MWait, app = ARun, stop = SIdle, waiter = WIdle, sigCh = 0, errCh = [], errClosed = False,
     stopCh = [], wg = 1, ctxErr = None, runResult = None, stopResult = None\<rparr>"

section \<open>Steps\<close>

text \<open>\<open>signal.Notify\<close> delivers to a channel of capacity one and drops what does not fit.\<close>

definition setupSignalHandling :: "appRunner \<Rightarrow> appRunner" where
  "setupSignalHandling s = s\<lparr>sigCh := min 1 (sigCh s + 1)\<rparr>"

text \<open>
  The steps of \<open>runApp\<close> after \<open>Run\<close> has returned \<open>e\<close>: the send, which needs room in the channel, then
  the deferred calls in reverse order. None is a goroutine that cannot move or, for a second close or
  a send on a closed channel, a panic.
\<close>

definition runApp :: "err \<Rightarrow> appRunner \<Rightarrow> appRunner option" where
  "runApp e s =
     (case app s of
        ARun \<Rightarrow> if errClosed s \<or> 1 \<le> length (errCh s) then None
                else Some (s\<lparr>errCh := errCh s @ [e], app := ASent, runResult := Some e\<rparr>)
      | ASent \<Rightarrow> if errClosed s then None else Some (s\<lparr>errClosed := True, app := AClosed\<rparr>)
      | AClosed \<Rightarrow> if wg s \<le> 0 then None else Some (s\<lparr>wg := wg s - 1, app := ADone\<rparr>)
      | ADone \<Rightarrow> None)"

text \<open>The start of \<open>performGracefulShutdown\<close>, up to its select.\<close>

definition performGracefulShutdown :: "err \<Rightarrow> appRunner \<Rightarrow> appRunner" where
  "performGracefulShutdown shutdownErr s =
     s\<lparr>wg := wg s + 1, stopCh := [], stop := SRun, waiter := WWait, main := MSelect shutdownErr\<rparr>"

datatype ready = OnSignal | OnErr

definition waitForShutdown :: "ready \<Rightarrow> appRunner \<Rightarrow> appRunner option" where
  "waitForShutdown r s =
     (case (main s, r) of
        (MWait, OnSignal) \<Rightarrow>
          if 0 < sigCh s then Some (performGracefulShutdown None (s\<lparr>sigCh := sigCh s - 1\<rparr>)) else None
      | (MWait, OnErr) \<Rightarrow>
          (case errCh s of
             e # es \<Rightarrow> Some (performGracefulShutdown e (s\<lparr>errCh := es\<rparr>))
           | [] \<Rightarrow> if errClosed s then Some (performGracefulShutdown None s) else None)
      | _ \<Rightarrow> None)"

text \<open>The goroutine that calls \<open>Stop\<close>, which returned \<open>e\<close>.\<close>

definition stopApp :: "err \<Rightarrow> appRunner \<Rightarrow> appRunner option" where
  "stopApp e s =
     (case stop s of
        SRun \<Rightarrow>
          (case e of
             None \<Rightarrow> Some (s\<lparr>stop := SSent, stopResult := Some None\<rparr>)
           | Some x \<Rightarrow> if 1 \<le> length (stopCh s) then None
                       else Some (s\<lparr>stopCh := stopCh s @ [x], stop := SSent, stopResult := Some (Some x)\<rparr>))
      | SSent \<Rightarrow> if wg s \<le> 0 then None else Some (s\<lparr>wg := wg s - 1, stop := SDone\<rparr>)
      | _ \<Rightarrow> None)"

text \<open>The goroutine that waits for the other two and closes \<open>doneCh\<close>.\<close>

definition waitAll :: "appRunner \<Rightarrow> appRunner option" where
  "waitAll s = (if waiter s = WWait \<and> wg s = 0 then Some (s\<lparr>waiter := WClosed\<rparr>) else None)"

text \<open>The select that ends the shutdown; \<open>etext\<close> is the Error method.\<close>

datatype outcome = OnStopErr | OnCtx | OnDone

definition ctx_result :: "(go_error \<Rightarrow> string) \<Rightarrow> err \<Rightarrow> go_error \<Rightarrow> err" where
  "ctx_result etext shutdownErr e =
     (if errors_Is e DeadlineExceeded then Some ErrShutdownTimeout
      else if shutdownErr \<noteq> None then Wrap shutdownErr (etext e)
      else Wrap (Some e) ''shutdown error'')"

definition shutdownSelect :: "(go_error \<Rightarrow> string) \<Rightarrow> outcome \<Rightarrow> appRunner \<Rightarrow> appRunner option" where
  "shutdownSelect etext r s =
     (case main s of
        MSelect shutdownErr \<Rightarrow>
          (case r of
             OnStopErr \<Rightarrow>
               (case stopCh s of
                  x # xs \<Rightarrow> Some (s\<lparr>stopCh := xs, main := MReturn (Wrap shutdownErr (etext x))\<rparr>)
                | [] \<Rightarrow> None)
           | OnCtx \<Rightarrow>
               (case ctxErr s of
                  Some e \<Rightarrow> Some (s\<lparr>main := MReturn (ctx_result etext shutdownErr e)\<rparr>)
                | None \<Rightarrow> None)
           | OnDone \<Rightarrow> if waiter s = WClosed then Some (s\<lparr>main := MReturn shutdownErr\<rparr>) else None)
      | _ \<Rightarrow> None)"

text \<open>
  One step of the system. The deadline of the shutdown context can pass only once the context exists;
  \<open>canc\<close> says whether the caller may cancel the context it gave \<open>run\<close>.
\<close>

inductive ar_step :: "(go_error \<Rightarrow> string) \<Rightarrow> bool \<Rightarrow> appRunner \<Rightarrow> appRunner \<Rightarrow> bool"
  for etext :: "go_error \<Rightarrow> string" and canc :: bool where
  signal: "ar_step etext canc s (setupSignalHandling s)"
| runApp: "runApp e s = Some t \<Longrightarrow> ar_step etext canc s t"
| wait: "waitForShutdown r s = Some t \<Longrightarrow> ar_step etext canc s t"
| stopApp: "stopApp e s = Some t \<Longrightarrow> ar_step etext canc s t"
| waitAll: "waitAll s = Some t \<Longrightarrow> ar_step etext canc s t"
| deadline: "main s = MSelect e \<Longrightarrow> ctxErr s = None \<Longrightarrow> ar_step etext canc s (s\<lparr>ctxErr := Some DeadlineExceeded\<rparr>)"
| cancel: "canc \<Longrightarrow> ctxErr s = None \<Longrightarrow> ar_step etext canc s (s\<lparr>ctxErr := Some Canceled\<rparr>)"
| select: "shutdownSelect etext r s = Some t \<Longrightarrow> ar_step etext canc s t"

inductive_cases ar_stepE: "ar_step etext canc s t"

definition ar_reach :: "(go_error \<Rightarrow> string) \<Rightarrow> bool \<Rightarrow> appRunner \<Rightarrow> bool" where
  "ar_reach etext canc s \<longleftrightarrow> (ar_step etext canc)\<^sup>*\<^sup>* run_init s"

text \<open>
  \<open>Run\<close>: the configuration first, with \<open>parse\<close> the environment parser of package gonfiguration (from
  the defaults to the parsed timeout or an error), then the system. The relation says what Run may
  return.
\<close>

definition defaultShutdownTimeout :: int where
  "defaultShutdownTimeout = 10 * 1000000000"

definition getConfig :: "((string \<times> int) list \<Rightarrow> int res) \<Rightarrow> int res" where
  "getConfig parse =
     (case parse [(''APPRUNNER_SHUTDOWNTIMEOUT'', defaultShutdownTimeout)] of
        Inl e \<Rightarrow> Inl (wrapped e ''could not configparser.Parse'')
      | Inr timeout \<Rightarrow> Inr timeout)"

definition Run_returns :: "(go_error \<Rightarrow> string) \<Rightarrow> ((string \<times> int) list \<Rightarrow> int res) \<Rightarrow> err \<Rightarrow> bool" where
  "Run_returns etext parse r =
     (case getConfig parse of
        Inl e \<Rightarrow> r = Some e
      | Inr _ \<Rightarrow> (\<exists>s. ar_reach etext False s \<and> main s = MReturn r))"

section \<open>Invariant\<close>

definition wg_inv :: "appRunner \<Rightarrow> bool" where
  "wg_inv s \<longleftrightarrow>
     wg s = of_bool (app s \<noteq> ADone) + of_bool (stop s = SRun \<or> stop s = SSent)
   \<and> (stop s = SIdle \<longleftrightarrow> main s = MWait) \<and> (waiter s = WIdle \<longleftrightarrow> main s = MWait)
   \<and> (waiter s = WClosed \<longrightarrow> app s = ADone \<and> stop s = SDone)"

definition app_inv :: "appRunner \<Rightarrow> bool" where
  "app_inv s \<longleftrightarrow>
     (errClosed s \<longleftrightarrow> app s = AClosed \<or> app s = ADone)
   \<and> (app s = ARun \<longrightarrow> errCh s = [] \<and> runResult s = None)
   \<and> (app s \<noteq> ARun \<longrightarrow> (\<exists>e. runResult s = Some e \<and> (errCh s = [e] \<or> errCh s = [] \<and> main s \<noteq> MWait)))"

definition stop_inv :: "appRunner \<Rightarrow> bool" where
  "stop_inv s \<longleftrightarrow>
     (stop s = SIdle \<or> stop s = SRun \<longrightarrow> stopCh s = [] \<and> stopResult s = None)
   \<and> (stop s = SSent \<or> stop s = SDone \<longrightarrow> stopResult s \<noteq> None)
   \<and> (\<forall>x\<in>set (stopCh s). stopResult s = Some (Some x))"

text \<open>What the main goroutine may hold: nil after a signal, otherwise what Run returned.\<close>

definition heard :: "appRunner \<Rightarrow> err \<Rightarrow> bool" where
  "heard s e \<longleftrightarrow> e = None \<or> runResult s = Some e"

definition main_inv :: "(go_error \<Rightarrow> string) \<Rightarrow> bool \<Rightarrow> appRunner \<Rightarrow> bool" where
  "main_inv etext canc s \<longleftrightarrow>
     (\<forall>e. ctxErr s = Some e \<longrightarrow> e = DeadlineExceeded \<or> canc \<and> e = Canceled)
   \<and> (case main s of
        MWait \<Rightarrow> True
      | MSelect e \<Rightarrow> heard s e
      | MReturn r \<Rightarrow> (\<exists>e. heard s e \<and>
          (r = e \<and> waiter s = WClosed
           \<or> (\<exists>x. stopResult s = Some (Some x) \<and> r = Wrap e (etext x))
           \<or> (\<exists>c. ctxErr s = Some c \<and> r = ctx_result etext e c))))"

definition ar_inv :: "(go_error \<Rightarrow> string) \<Rightarrow> bool \<Rightarrow> appRunner \<Rightarrow> bool" where
  "ar_inv etext canc s \<longleftrightarrow> wg_inv s \<and> app_inv s \<and> stop_inv s \<and> main_inv etext canc s"

lemmas ar_inv_defs = ar_inv_def wg_inv_def app_inv_def stop_inv_def main_inv_def heard_def

lemma ar_inv_init: "ar_inv etext canc run_init"
  by (simp add: ar_inv_defs run_init_def)

text \<open>The main goroutine's part survives every step that only adds to what has happened.\<close>

lemma main_inv_mono:
  assumes "main_inv etext canc s" "main t = main s" "waiter s = WClosed \<Longrightarrow> waiter t = WClosed"
    and "ctxErr s = None \<or> ctxErr t = ctxErr s"
    and "ctxErr t = ctxErr s \<or> ctxErr t = Some DeadlineExceeded \<or> canc \<and> ctxErr t = Some Canceled"
    and "runResult s = None \<or> runResult t = runResult s"
    and "stopResult s = None \<or> stopResult t = stopResult s"
  shows "main_inv etext canc t"
proof -
  have h: "heard s e \<Longrightarrow> heard t e" for e using assms(6) by (auto simp: heard_def)
  have c: "\<forall>e. ctxErr t = Some e \<longrightarrow> e = DeadlineExceeded \<or> canc \<and> e = Canceled"
    using assms(1,5) by (auto simp: main_inv_def)
  show ?thesis
  proof (cases "main s")
    case (MReturn r)
    then obtain e where "heard s e" "r = e \<and> waiter s = WClosed
        \<or> (\<exists>x. stopResult s = Some (Some x) \<and> r = Wrap e (etext x))
        \<or> (\<exists>c. ctxErr s = Some c \<and> r = ctx_result etext e c)"
      using assms(1) by (auto simp: main_inv_def)
    then have "heard t e" "r = e \<and> waiter t = WClosed
        \<or> (\<exists>x. stopResult t = Some (Some x) \<and> r = Wrap e (etext x))
        \<or> (\<exists>c. ctxErr t = Some c \<and> r = ctx_result etext e c)"
      using h assms(3,4,7) by auto
    then show ?thesis using c MReturn assms(2) unfolding main_inv_def by auto
  qed (use c h assms(1,2) in \<open>auto simp: main_inv_def\<close>)
qed

lemma app_inv_cong:
  "app_inv s \<Longrightarrow> app t = app s \<and> errClosed t = errClosed s \<and> errCh t = errCh s \<and> runResult t = runResult s
     \<and> (main s = MWait \<longleftrightarrow> main t = MWait) \<Longrightarrow> app_inv t"
  unfolding app_inv_def by metis

lemma stop_inv_cong:
  "stop_inv s \<Longrightarrow> stop t = stop s \<and> stopCh t = stopCh s \<and> stopResult t = stopResult s \<Longrightarrow> stop_inv t"
  unfolding stop_inv_def by metis

lemma ar_inv_runApp:
  assumes "ar_inv etext canc s" "runApp e s = Some t"
  shows "ar_inv etext canc t"
proof -
  have inv: "wg_inv s" "app_inv s" "stop_inv s" "main_inv etext canc s" using assms(1) by (simp_all add: ar_inv_def)
  have "wg_inv t" using inv(1) assms(2) by (cases "app s") (auto simp: wg_inv_def runApp_def split: if_splits)
  moreover have "app_inv t"
    using inv(2) assms(2) by (auto simp: app_inv_def runApp_def split: app_pc.splits if_splits)
  moreover have "stop_inv t"
    by (rule stop_inv_cong [OF inv(3)]) (use assms(2) in \<open>auto simp: runApp_def split: app_pc.splits if_splits\<close>)
  moreover have "main_inv etext canc t"
    by (rule main_inv_mono [OF inv(4)])
      (use inv(2) assms(2) in \<open>auto simp: app_inv_def runApp_def split: app_pc.splits if_splits\<close>)
  ultimately show ?thesis by (simp add: ar_inv_def)
qed

lemma ar_inv_start:
  assumes "ar_inv etext canc s" "main s = MWait" "heard s e"
    and "t = s\<lparr>sigCh := n, errCh := es\<rparr>" "errCh s = es \<or> es = [] \<and> app s \<noteq> ARun"
  shows "ar_inv etext canc (performGracefulShutdown e t)"
proof -
  have inv: "wg_inv s" "app_inv s" "stop_inv s" "main_inv etext canc s" using assms(1) by (simp_all add: ar_inv_def)
  have "wg_inv (performGracefulShutdown e t)"
    using inv(1) assms(2,4) by (auto simp: wg_inv_def performGracefulShutdown_def)
  moreover have "app_inv (performGracefulShutdown e t)"
    using inv(2) assms(2,4,5) by (auto simp: app_inv_def performGracefulShutdown_def)
  moreover have "stop_inv (performGracefulShutdown e t)"
    using inv(1,3) assms(2,4) by (auto simp: wg_inv_def stop_inv_def performGracefulShutdown_def)
  moreover have "main_inv etext canc (performGracefulShutdown e t)"
    using inv(4) assms(3,4) by (auto simp: main_inv_def heard_def performGracefulShutdown_def)
  ultimately show ?thesis by (simp add: ar_inv_def)
qed

lemma ar_inv_wait:
  assumes "ar_inv etext canc s" "waitForShutdown r s = Some t"
  shows "ar_inv etext canc t"
proof -
  have w: "main s = MWait" using assms(2) by (auto simp: waitForShutdown_def split: main_pc.splits)
  consider (signal) "t = performGracefulShutdown None (s\<lparr>sigCh := sigCh s - 1, errCh := errCh s\<rparr>)"
    | (err) e es where "errCh s = e # es" "t = performGracefulShutdown e (s\<lparr>sigCh := sigCh s, errCh := es\<rparr>)"
    | (closed) "t = performGracefulShutdown None (s\<lparr>sigCh := sigCh s, errCh := errCh s\<rparr>)"
    using assms(2) w by (auto simp: waitForShutdown_def split: ready.splits list.splits if_splits)
  then show ?thesis
  proof cases
    case (err e es)
    then have "runResult s = Some e" "es = []" "app s \<noteq> ARun"
      using assms(1) by (auto simp: ar_inv_def app_inv_def)
    then show ?thesis unfolding err(2)
      by (intro ar_inv_start [OF assms(1) w _ refl]) (simp_all add: heard_def)
  next
    case signal
    show ?thesis unfolding signal by (intro ar_inv_start [OF assms(1) w _ refl]) (simp_all add: heard_def)
  next
    case closed
    show ?thesis unfolding closed by (intro ar_inv_start [OF assms(1) w _ refl]) (simp_all add: heard_def)
  qed
qed

lemma ar_inv_stopApp:
  assumes "ar_inv etext canc s" "stopApp e s = Some t"
  shows "ar_inv etext canc t"
proof -
  have inv: "wg_inv s" "app_inv s" "stop_inv s" "main_inv etext canc s" using assms(1) by (simp_all add: ar_inv_def)
  have "wg_inv t" using inv(1) assms(2) by (cases "stop s") (auto simp: wg_inv_def stopApp_def split: if_splits option.splits)
  moreover have "app_inv t"
    by (rule app_inv_cong [OF inv(2)])
      (use assms(2) in \<open>auto simp: stopApp_def split: stop_pc.splits if_splits option.splits\<close>)
  moreover have "stop_inv t"
    using inv(3) assms(2) by (auto simp: stop_inv_def stopApp_def split: stop_pc.splits if_splits option.splits)
  moreover have "main_inv etext canc t"
    by (rule main_inv_mono [OF inv(4)])
      (use inv(3) assms(2) in \<open>auto simp: stop_inv_def stopApp_def split: stop_pc.splits if_splits option.splits\<close>)
  ultimately show ?thesis by (simp add: ar_inv_def)
qed

lemma ar_inv_waitAll:
  assumes "ar_inv etext canc s" "waitAll s = Some t"
  shows "ar_inv etext canc t"
proof -
  have t: "waiter s = WWait" "wg s = 0" "t = s\<lparr>waiter := WClosed\<rparr>"
    using assms(2) by (auto simp: waitAll_def split: if_splits)
  have inv: "wg_inv s" "app_inv s" "stop_inv s" "main_inv etext canc s" using assms(1) by (simp_all add: ar_inv_def)
  have "wg_inv t" using inv(1) t by (cases "stop s"; cases "app s") (auto simp: wg_inv_def)
  moreover have "app_inv t" by (rule app_inv_cong [OF inv(2)]) (simp add: t)
  moreover have "stop_inv t" by (rule stop_inv_cong [OF inv(3)]) (simp add: t)
  moreover have "main_inv etext canc t" by (rule main_inv_mono [OF inv(4)]) (use t in auto)
  ultimately show ?thesis by (simp add: ar_inv_def)
qed

lemma shutdownSelect_cases [consumes 1]:
  assumes "shutdownSelect etext r s = Some t"
  obtains (stopErr) e x xs where "main s = MSelect e" "stopCh s = x # xs"
      "t = s\<lparr>stopCh := xs, main := MReturn (Wrap e (etext x))\<rparr>"
  | (ctx) e c where "main s = MSelect e" "ctxErr s = Some c" "t = s\<lparr>main := MReturn (ctx_result etext e c)\<rparr>"
  | (finished) e where "main s = MSelect e" "waiter s = WClosed" "t = s\<lparr>main := MReturn e\<rparr>"
proof -
  obtain e where e: "main s = MSelect e" using assms by (auto simp: shutdownSelect_def split: main_pc.splits)
  show ?thesis
  proof (cases r)
    case OnStopErr
    then show ?thesis using assms e stopErr by (cases "stopCh s") (auto simp: shutdownSelect_def)
  next
    case OnCtx
    then show ?thesis using assms e ctx by (cases "ctxErr s") (auto simp: shutdownSelect_def)
  next
    case OnDone
    then show ?thesis using assms e finished by (auto simp: shutdownSelect_def split: if_splits)
  qed
qed

lemma ar_inv_return:
  assumes "ar_inv etext canc s" "main s = MSelect e"
    and "r = e \<and> waiter s = WClosed \<or> (\<exists>x. stopResult s = Some (Some x) \<and> r = Wrap e (etext x))
           \<or> (\<exists>c. ctxErr s = Some c \<and> r = ctx_result etext e c)"
    and "set xs \<subseteq> set (stopCh s)"
  shows "ar_inv etext canc (s\<lparr>stopCh := xs, main := MReturn r\<rparr>)"
proof -
  let ?t = "s\<lparr>stopCh := xs, main := MReturn r\<rparr>"
  have inv: "wg_inv s" "app_inv s" "stop_inv s" "main_inv etext canc s" using assms(1) by (simp_all add: ar_inv_def)
  have "wg_inv ?t" using inv(1) assms(2) by (simp add: wg_inv_def)
  moreover have "app_inv ?t" by (rule app_inv_cong [OF inv(2)]) (simp add: assms(2))
  moreover have "stop_inv ?t" using inv(3) assms(4) by (auto simp: stop_inv_def)
  moreover have "main_inv etext canc ?t"
  proof -
    have "heard ?t e" "\<forall>c. ctxErr ?t = Some c \<longrightarrow> c = DeadlineExceeded \<or> canc \<and> c = Canceled"
      using inv(4) assms(2) by (simp_all add: main_inv_def heard_def)
    moreover have "r = e \<and> waiter ?t = WClosed \<or> (\<exists>x. stopResult ?t = Some (Some x) \<and> r = Wrap e (etext x))
           \<or> (\<exists>c. ctxErr ?t = Some c \<and> r = ctx_result etext e c)" using assms(3) by simp
    ultimately show ?thesis unfolding main_inv_def by auto
  qed
  ultimately show ?thesis by (simp add: ar_inv_def)
qed

lemma ar_inv_select:
  assumes "ar_inv etext canc s" "shutdownSelect etext r s = Some t"
  shows "ar_inv etext canc t"
  using assms(2)
proof (cases rule: shutdownSelect_cases)
  case (stopErr e x xs)
  moreover have "stopResult s = Some (Some x)"
    using stopErr(2) assms(1) by (simp add: ar_inv_def stop_inv_def)
  ultimately show ?thesis using ar_inv_return [OF assms(1) stopErr(1), of "Wrap e (etext x)" xs] by auto
next
  case (ctx e c)
  then show ?thesis using ar_inv_return [OF assms(1) ctx(1), of "ctx_result etext e c" "stopCh s"] by simp
next
  case (finished e)
  then show ?thesis using ar_inv_return [OF assms(1) finished(1), of e "stopCh s"] by simp
qed

lemma ar_inv_env:
  assumes "ar_inv etext canc s"
  shows "ar_inv etext canc (setupSignalHandling s)"
    "ctxErr s = None \<Longrightarrow> ar_inv etext canc (s\<lparr>ctxErr := Some DeadlineExceeded\<rparr>)"
    "ctxErr s = None \<Longrightarrow> canc \<Longrightarrow> ar_inv etext canc (s\<lparr>ctxErr := Some Canceled\<rparr>)"
proof -
  have inv: "wg_inv s" "app_inv s" "stop_inv s" "main_inv etext canc s" using assms(1) by (simp_all add: ar_inv_def)
  note defs = ar_inv_def wg_inv_def app_inv_def stop_inv_def
  show "ar_inv etext canc (setupSignalHandling s)"
    using inv main_inv_mono [OF inv(4), of "setupSignalHandling s"] by (simp add: defs setupSignalHandling_def)
  show "ar_inv etext canc (s\<lparr>ctxErr := Some DeadlineExceeded\<rparr>)" if "ctxErr s = None"
    using inv that main_inv_mono [OF inv(4), of "s\<lparr>ctxErr := Some DeadlineExceeded\<rparr>"] by (simp add: defs)
  show "ar_inv etext canc (s\<lparr>ctxErr := Some Canceled\<rparr>)" if "ctxErr s = None" canc
    using inv that main_inv_mono [OF inv(4), of "s\<lparr>ctxErr := Some Canceled\<rparr>"] by (simp add: defs)
qed

lemma ar_inv_step: "ar_step etext canc s t \<Longrightarrow> ar_inv etext canc s \<Longrightarrow> ar_inv etext canc t"
  by (induction rule: ar_step.induct)
    (auto intro: ar_inv_runApp ar_inv_wait ar_inv_stopApp ar_inv_waitAll ar_inv_select ar_inv_env)

lemma ar_inv_reach: "ar_reach etext canc s \<Longrightarrow> ar_inv etext canc s"
  unfolding ar_reach_def
  by (induction rule: rtranclp_induct) (auto intro: ar_inv_init ar_inv_step)

section \<open>Runs\<close>

text \<open>A schedule, executed.\<close>

datatype ar_act = ActSignal | ActApp err | ActWait ready | ActStop err | ActWaitAll | ActDeadline | ActSelect outcome

fun ar_do :: "(go_error \<Rightarrow> string) \<Rightarrow> ar_act \<Rightarrow> appRunner \<Rightarrow> appRunner option" where
  "ar_do etext ActSignal s = Some (setupSignalHandling s)"
| "ar_do etext (ActApp e) s = runApp e s"
| "ar_do etext (ActWait r) s = waitForShutdown r s"
| "ar_do etext (ActStop e) s = stopApp e s"
| "ar_do etext ActWaitAll s = waitAll s"
| "ar_do etext ActDeadline s =
     (case (main s, ctxErr s) of (MSelect _, None) \<Rightarrow> Some (s\<lparr>ctxErr := Some DeadlineExceeded\<rparr>) | _ \<Rightarrow> None)"
| "ar_do etext (ActSelect r) s = shutdownSelect etext r s"

fun ar_run :: "(go_error \<Rightarrow> string) \<Rightarrow> ar_act list \<Rightarrow> appRunner \<Rightarrow> appRunner option" where
  "ar_run etext [] s = Some s"
| "ar_run etext (a # as) s = (case ar_do etext a s of None \<Rightarrow> None | Some t \<Rightarrow> ar_run etext as t)"

lemma ar_do_step: "ar_do etext a s = Some t \<Longrightarrow> ar_step etext canc s t"
  by (cases a) (auto intro: ar_step.intros split: main_pc.splits option.splits)

lemma ar_run_steps: "ar_run etext as s = Some t \<Longrightarrow> (ar_step etext canc)\<^sup>*\<^sup>* s t"
proof (induction as arbitrary: s)
  case (Cons a as)
  then obtain u where "ar_do etext a s = Some u" "ar_run etext as u = Some t" by (auto split: option.splits)
  then show ?case using Cons.IH [of u] ar_do_step [of etext a s u canc] by (simp add: converse_rtranclp_into_rtranclp)
qed simp

lemma ar_run_reach: "ar_run etext as run_init = Some t \<Longrightarrow> ar_reach etext canc t"
  unfolding ar_reach_def by (rule ar_run_steps)

lemmas ar_eval = run_init_def setupSignalHandling_def runApp_def waitForShutdown_def performGracefulShutdown_def
  stopApp_def waitAll_def shutdownSelect_def ctx_result_def

section \<open>Properties\<close>

text \<open>
  C13 (invariant): as long as its goroutine has not ended, the application's goroutine can always take its
  next step, whatever Run returns, and so can the one that calls Stop: no send blocks or hits a closed
  channel, no channel is closed twice and the wait group never drops below zero.
\<close>

theorem goroutines_not_stuck:
  assumes "ar_reach etext canc s"
  shows "(app s \<noteq> ADone \<longrightarrow> runApp e s \<noteq> None) \<and> (stop s = SRun \<or> stop s = SSent \<longrightarrow> stopApp e s \<noteq> None)"
proof -
  have inv: "wg_inv s" "app_inv s" "stop_inv s" using ar_inv_reach [OF assms] by (simp_all add: ar_inv_def)
  have "app s \<noteq> ADone \<longrightarrow> runApp e s \<noteq> None"
    using inv(1,2) by (cases "app s") (auto simp: wg_inv_def app_inv_def runApp_def)
  moreover have "stop s = SRun \<or> stop s = SSent \<longrightarrow> stopApp e s \<noteq> None"
    using inv(1,3) by (cases "stop s") (auto simp: wg_inv_def stop_inv_def stopApp_def split: option.split)
  ultimately show ?thesis by blast
qed

text \<open>What can be returned, when nobody cancels the context.\<close>

lemma return_cases:
  assumes "ar_reach etext False s" "main s = MReturn r"
  obtains (timeout) "r = Some ErrShutdownTimeout" "ctxErr s = Some DeadlineExceeded"
  | (finished) "heard s r" "waiter s = WClosed"
  | (stopped) e x where "heard s e" "stopResult s = Some (Some x)" "r = Wrap e (etext x)"
proof -
  have inv: "main_inv etext False s" using ar_inv_reach [OF assms(1)] by (simp add: ar_inv_def)
  then have c: "c = DeadlineExceeded" if "ctxErr s = Some c" for c using that by (auto simp: main_inv_def)
  from inv assms(2) obtain e where "heard s e" "r = e \<and> waiter s = WClosed
           \<or> (\<exists>x. stopResult s = Some (Some x) \<and> r = Wrap e (etext x))
           \<or> (\<exists>c. ctxErr s = Some c \<and> r = ctx_result etext e c)" by (auto simp: main_inv_def)
  then show ?thesis using timeout finished stopped c by (auto simp: ctx_result_def)
qed

text \<open>
  C12 (functional): what a run of the application returns. It is nil, the timeout of the shutdown, or
  the error Run returned, bare or wrapped once.
\<close>

theorem run_returns:
  assumes "ar_reach etext False s" "main s = MReturn r"
  shows "r = None \<or> r = Some ErrShutdownTimeout
    \<or> (\<exists>e. runResult s = Some (Some e) \<and> (r = Some e \<or> (\<exists>m. r = Some (wrapped e m))))"
  using assms
proof (cases rule: return_cases)
  case finished
  then show ?thesis by (cases r) (auto simp: heard_def)
next
  case (stopped e x)
  then show ?thesis by (cases e) (auto simp: heard_def)
qed auto

text \<open>
  C14 (safety): a shutdown that ends in nothing but its own success has stopped everything. When it
  returns without a timeout and Stop did not fail, both the application and Stop have returned.
\<close>

theorem clean_shutdown_leaves_nothing:
  assumes "ar_reach etext False s" "main s = MReturn r" "r \<noteq> Some ErrShutdownTimeout"
    and "stopResult s = None \<or> stopResult s = Some None"
  shows "app s = ADone \<and> stop s = SDone \<and> wg s = 0"
proof -
  have w: "wg_inv s" using ar_inv_reach [OF assms(1)] by (simp add: ar_inv_def)
  from assms(1,2) show ?thesis
  proof (cases rule: return_cases)
    case finished
    then show ?thesis using w by (simp add: wg_inv_def)
  qed (use assms(3,4) in auto)
qed

text \<open>
  The error of Stop is lost unless Run failed too. When Run has not returned an error, run
  returns nil or the timeout, whatever Stop returned.
\<close>

theorem stop_error_swallowed:
  assumes "ar_reach etext False s" "main s = MReturn r" "runResult s = None \<or> runResult s = Some None"
  shows "r = None \<or> r = Some ErrShutdownTimeout"
  using assms(1,2)
proof (cases rule: return_cases)
  case finished
  then show ?thesis using assms(3) by (auto simp: heard_def)
next
  case (stopped e x)
  then show ?thesis using assms(3) by (auto simp: heard_def)
qed simp

text \<open>
  C15 (liveness): once the shutdown has begun it ends without any help of the application: the deadline
  passes and the select returns, with the goroutines of Run and Stop where they are.
\<close>

theorem shutdown_always_ends:
  assumes "ar_reach etext canc s" "main s = MSelect e"
  shows "\<exists>t r. (ar_step etext canc)\<^sup>*\<^sup>* s t \<and> main t = MReturn r \<and> app t = app s \<and> stop t = stop s"
proof -
  obtain s' where s': "(ar_step etext canc)\<^sup>*\<^sup>* s s'" "main s' = MSelect e" "ctxErr s' \<noteq> None"
    "app s' = app s" "stop s' = stop s"
  proof (cases "ctxErr s")
    case None
    then show ?thesis
      using that [of "s\<lparr>ctxErr := Some DeadlineExceeded\<rparr>"] ar_step.deadline [OF assms(2)] assms(2) by auto
  qed (use that assms(2) in auto)
  then obtain c where "ctxErr s' = Some c" by auto
  then have "shutdownSelect etext OnCtx s' = Some (s'\<lparr>main := MReturn (ctx_result etext e c)\<rparr>)"
    using s'(2) by (simp add: shutdownSelect_def)
  then have "ar_step etext canc s' (s'\<lparr>main := MReturn (ctx_result etext e c)\<rparr>)" by (rule ar_step.select)
  with s'(1) have "(ar_step etext canc)\<^sup>*\<^sup>* s (s'\<lparr>main := MReturn (ctx_result etext e c)\<rparr>)" by simp
  moreover have "main (s'\<lparr>main := MReturn (ctx_result etext e c)\<rparr>) = MReturn (ctx_result etext e c)" by simp
  ultimately show ?thesis using s'(4,5) by fastforce
qed

section \<open>Instances\<close>

definition demo_stop_fails :: appRunner where
  "demo_stop_fails = the (ar_run (\<lambda>_. []) [ActSignal, ActWait OnSignal, ActStop (Some (Foreign ''x'')), ActSelect OnStopErr] run_init)"

definition demo_app_fails :: appRunner where
  "demo_app_fails = the (ar_run (\<lambda>_. []) [ActApp (Some (Foreign ''x'')), ActWait OnErr, ActApp None, ActApp None,
     ActStop None, ActStop None, ActWaitAll, ActSelect OnDone] run_init)"

definition demo_select :: appRunner where
  "demo_select = the (ar_run (\<lambda>_. []) [ActSignal, ActWait OnSignal] run_init)"

lemma demo_stop_fails_run:
  "ar_reach (\<lambda>_. []) canc demo_stop_fails" "main demo_stop_fails = MReturn None"
  "runResult demo_stop_fails = None" "stopResult demo_stop_fails = Some (Some (Foreign ''x''))"
  unfolding demo_stop_fails_def
  by (rule ar_run_reach [where as = "[ActSignal, ActWait OnSignal, ActStop (Some (Foreign ''x'')), ActSelect OnStopErr]"])
    (simp_all add: ar_eval)

lemma demo_app_fails_run:
  "ar_reach (\<lambda>_. []) canc demo_app_fails" "main demo_app_fails = MReturn (Some (Foreign ''x''))"
  "stopResult demo_app_fails = Some None"
  unfolding demo_app_fails_def
  by (rule ar_run_reach [where as = "[ActApp (Some (Foreign ''x'')), ActWait OnErr, ActApp None, ActApp None,
     ActStop None, ActStop None, ActWaitAll, ActSelect OnDone]"])
    (simp_all add: ar_eval)

lemma demo_select_run:
  "ar_reach (\<lambda>_. []) canc demo_select" "main demo_select = MSelect None" "app demo_select = ARun" "stop demo_select = SRun"
  unfolding demo_select_def
  by (rule ar_run_reach [where as = "[ActSignal, ActWait OnSignal]"]) (simp_all add: ar_eval)

theorem goroutines_not_stuck_witness: "runApp None demo_select \<noteq> None \<and> stopApp None demo_select \<noteq> None"
  using goroutines_not_stuck [OF demo_select_run(1), of None] demo_select_run by simp

theorem run_returns_witness:
  "main demo_app_fails = MReturn (Some (Foreign ''x'')) \<and> (\<exists>e. runResult demo_app_fails = Some (Some e))"
  using run_returns [OF demo_app_fails_run(1,2)] demo_app_fails_run(2) by auto

theorem clean_shutdown_leaves_nothing_witness: "app demo_app_fails = ADone \<and> stop demo_app_fails = SDone"
  using clean_shutdown_leaves_nothing [OF demo_app_fails_run(1,2)] demo_app_fails_run(3) by simp

theorem stop_error_swallowed_witness:
  "stopResult demo_stop_fails = Some (Some (Foreign ''x'')) \<and> main demo_stop_fails = MReturn None
   \<and> (None = (None :: err) \<or> None = Some ErrShutdownTimeout)"
  using stop_error_swallowed [OF demo_stop_fails_run(1,2)] demo_stop_fails_run by simp

theorem shutdown_always_ends_witness:
  "\<exists>t r. (ar_step (\<lambda>_. []) False)\<^sup>*\<^sup>* demo_select t \<and> main t = MReturn r \<and> app t = ARun"
  using shutdown_always_ends [OF demo_select_run(1) [of False] demo_select_run(2)] demo_select_run(3) by auto

end
