(* ===== verification/Json.thy ===== *)
theory Json
  imports GoStrings
begin

text \<open>
  What the repository uses of the standard package encoding/json: \<open>Marshal\<close> on structs of strings,
  integers, booleans, lists and nested structs, and \<open>Unmarshal\<close> on whole documents. A document is a
  value of type \<open>json\<close>; a number is kept as its literal.
\<close>

section \<open>Documents\<close>

datatype json =
    JNull
  | JBool bool
  | JNum string
  | JStr string
  | JArr "json list"
  | JObj "(string \<times> json) list"

definition JInt :: "int \<Rightarrow> json" where
  "JInt i = JNum (itoa i)"

section \<open>Encoding\<close>

definition hex_char :: "nat \<Rightarrow> char" where
  "hex_char d = (if d < 10 then char_of (0x30 + d) else char_of (0x61 + (d - 10)))"

definition u4 :: "nat \<Rightarrow> string" where
  "u4 n = [CHR 0x5C, CHR ''u'', hex_char (n div 4096 mod 16), hex_char (n div 256 mod 16),
     hex_char (n div 16 mod 16), hex_char (n mod 16)]"

text \<open>The escape of one rune; \<open>malformed\<close> marks a byte that is not part of a rune.\<close>

definition escape_rune :: "bool \<Rightarrow> nat \<Rightarrow> string" where
  "escape_rune malformed r =
     (if malformed then u4 0xFFFD
      else if r = 0x5C \<or> r = 0x22 then [CHR 0x5C, char_of r]
      else if r = 0x08 then [CHR 0x5C, CHR ''b'']
      else if r = 0x0C then [CHR 0x5C, CHR ''f'']
      else if r = 0x0A then [CHR 0x5C, CHR ''n'']
      else if r = 0x0D then [CHR 0x5C, CHR ''r'']
      else if r = 0x09 then [CHR 0x5C, CHR ''t'']
      else if r < 0x20 \<or> r = 0x3C \<or> r = 0x3E \<or> r = 0x26 \<or> r = 0x2028 \<or> r = 0x2029 then u4 r
      else EncodeRune r)"

function escape_string :: "string \<Rightarrow> string" where
  "escape_string [] = []"
| "escape_string (c # s) =
     escape_rune (DecodeRune (c # s) = bad_rune) (fst (DecodeRune (c # s))) @
     escape_string (drop (snd (DecodeRune (c # s))) (c # s))"
  by pat_completeness auto
termination
  by (relation "measure length") (use length_drop_rune in fastforce)+

definition encode_string :: "string \<Rightarrow> string" where
  "encode_string s = CHR 0x22 # escape_string s @ [CHR 0x22]"

fun Marshal :: "json \<Rightarrow> string"
  and marshal_items :: "json list \<Rightarrow> string"
  and marshal_fields :: "(string \<times> json) list \<Rightarrow> string" where
  "Marshal JNull = ''null''"
| "Marshal (JBool b) = (if b then ''true'' else ''false'')"
| "Marshal (JNum n) = n"
| "Marshal (JStr s) = encode_string s"
| "Marshal (JArr vs) = CHR ''['' # marshal_items vs"
| "Marshal (JObj fs) = CHR ''{'' # marshal_fields fs"
| "marshal_items [] = '']''"
| "marshal_items [v] = Marshal v @ '']''"
| "marshal_items (v # w # vs) = Marshal v @ CHR '','' # marshal_items (w # vs)"
| "marshal_fields [] = ''}''"
| "marshal_fields [(k, v)] = encode_string k @ CHR '':'' # Marshal v @ ''}''"
| "marshal_fields ((k, v) # f # fs) = encode_string k @ CHR '':'' # Marshal v @ CHR '','' # marshal_fields (f # fs)"

section \<open>Decoding\<close>

fun skip_ws :: "string \<Rightarrow> string" where
  "skip_ws (c # s) = (if c \<in> {CHR '' '', CHR 0x09, CHR 0x0A, CHR 0x0D} then skip_ws s else c # s)"
| "skip_ws [] = []"

definition hex_value :: "char \<Rightarrow> nat option" where
  "hex_value c =
     (let b = byte c in
      if 0x30 \<le> b \<and> b \<le> 0x39 then Some (b - 0x30)
      else if 0x61 \<le> b \<and> b \<le> 0x66 then Some (b - 0x61 + 10)
      else if 0x41 \<le> b \<and> b \<le> 0x46 then Some (b - 0x41 + 10)
      else None)"

text \<open>Four hex digits.\<close>

definition getu4 :: "string \<Rightarrow> (nat \<times> string) option" where
  "getu4 s =
     (case s of
        a # b # c # d # t \<Rightarrow>
          (case (hex_value a, hex_value b, hex_value c, hex_value d) of
             (Some w, Some x, Some y, Some z) \<Rightarrow> Some (w * 4096 + x * 256 + y * 16 + z, t)
           | _ \<Rightarrow> None)
      | _ \<Rightarrow> None)"

lemma getu4_length: "getu4 s = Some (n, t) \<Longrightarrow> length s = length t + 4"
  by (auto simp: getu4_def split: list.splits option.splits)

text \<open>A surrogate is followed by its other half or stands for a replacement character.\<close>

definition surrogate :: "nat \<Rightarrow> string \<Rightarrow> nat \<times> string" where
  "surrogate r t =
     (case t of
        c # d # t' \<Rightarrow>
          (case (c = CHR 0x5C \<and> d = CHR ''u'', getu4 t') of
             (True, Some (r2, t2)) \<Rightarrow>
               if 0xD800 \<le> r \<and> r < 0xDC00 \<and> 0xDC00 \<le> r2 \<and> r2 < 0xE000
               then ((r - 0xD800) * 1024 + (r2 - 0xDC00) + 0x10000, t2) else (RuneError, t)
           | _ \<Rightarrow> (RuneError, t))
      | _ \<Rightarrow> (RuneError, t))"

definition is_surrogate :: "nat \<Rightarrow> bool" where
  "is_surrogate r \<longleftrightarrow> 0xD800 \<le> r \<and> r < 0xE000"

text \<open>The rune of an escape sequence, after its backslash.\<close>

definition unescape :: "string \<Rightarrow> (nat \<times> string) option" where
  "unescape s =
     (case s of
        [] \<Rightarrow> None
      | c # t \<Rightarrow>
          if c \<in> {CHR 0x22, CHR 0x5C, CHR ''/''} then Some (byte c, t)
          else if c = CHR ''b'' then Some (0x08, t)
          else if c = CHR ''f'' then Some (0x0C, t)
          else if c = CHR ''n'' then Some (0x0A, t)
          else if c = CHR ''r'' then Some (0x0D, t)
          else if c = CHR ''t'' then Some (0x09, t)
          else if c = CHR ''u'' then
            (case getu4 t of
               None \<Rightarrow> None
             | Some (r, t') \<Rightarrow> Some (if is_surrogate r then surrogate r t' else (r, t')))
          else None)"

lemma surrogate_length: "length (snd (surrogate r t)) \<le> length t"
  by (auto simp: surrogate_def dest: getu4_length split: list.split option.split bool.split)

lemma unescape_length: "unescape s = Some (r, t) \<Longrightarrow> length t < length s"
proof (cases s)
  case (Cons c s')
  assume a: "unescape s = Some (r, t)"
  show ?thesis
  proof (cases "c = CHR ''u''")
    case True
    then obtain r' t' where g: "getu4 s' = Some (r', t')" "(if is_surrogate r' then surrogate r' t' else (r', t')) = (r, t)"
      using a Cons by (auto simp: unescape_def split: option.splits)
    then have "length t \<le> length t'" using surrogate_length [of r' t'] by (auto split: if_splits)
    then show ?thesis using getu4_length [OF g(1)] Cons by simp
  qed (use a Cons in \<open>auto simp: unescape_def split: if_splits\<close>)
qed (simp add: unescape_def)

function parse_string :: "string \<Rightarrow> (string \<times> string) option" where
  "parse_string [] = None"
| "parse_string (c # s) =
     (if c = CHR 0x22 then Some ([], s)
      else if c = CHR 0x5C then
        (case unescape s of
           None \<Rightarrow> None
         | Some (r, t) \<Rightarrow> map_option (\<lambda>(v, u). (EncodeRune r @ v, u)) (parse_string t))
      else if byte c < 0x20 then None
      else map_option (\<lambda>(v, u). (EncodeRune (fst (DecodeRune (c # s))) @ v, u))
             (parse_string (drop (snd (DecodeRune (c # s))) (c # s))))"
  by pat_completeness auto
termination
proof (relation "measure length")
  fix c s x r t
  assume "unescape s = Some x" "(r, t) = x"
  then show "(t, c # s) \<in> measure length" using unescape_length [of s r t] by auto
next
  fix c s
  show "(drop (snd (DecodeRune (c # s))) (c # s), c # s) \<in> measure length"
    using length_drop_rune [of "c # s"] by (simp del: length_drop_rune)
qed simp

declare parse_string.simps(2) [simp del] escape_string.simps(2) [simp del]

definition num_char :: "char \<Rightarrow> bool" where
  "num_char c \<longleftrightarrow> is_digit c \<or> c \<in> {CHR ''-'', CHR ''+'', CHR ''.'', CHR ''e'', CHR ''E''}"

definition exponent_ok :: "string \<Rightarrow> bool" where
  "exponent_ok s =
     (case s of
        [] \<Rightarrow> True
      | e # t \<Rightarrow>
          (e = CHR ''e'' \<or> e = CHR ''E'') \<and>
          (let d = (case t of c # u \<Rightarrow> if c = CHR ''-'' \<or> c = CHR ''+'' then u else t | [] \<Rightarrow> []) in
           d \<noteq> [] \<and> list_all is_digit d))"

definition fraction_ok :: "string \<Rightarrow> bool" where
  "fraction_ok s =
     (case s of
        c # d # t \<Rightarrow> if c = CHR ''.'' then is_digit d \<and> exponent_ok (dropWhile is_digit t) else exponent_ok s
      | _ \<Rightarrow> exponent_ok s)"

definition valid_number :: "string \<Rightarrow> bool" where
  "valid_number n =
     (let m = (case n of c # t \<Rightarrow> if c = CHR ''-'' then t else n | [] \<Rightarrow> []) in
      case m of
        [] \<Rightarrow> False
      | c # t \<Rightarrow> is_digit c \<and> fraction_ok (if c = CHR ''0'' then t else dropWhile is_digit t))"

definition parse_number :: "string \<Rightarrow> (string \<times> string) option" where
  "parse_number s =
     (let n = takeWhile num_char s in if valid_number n then Some (n, dropWhile num_char s) else None)"

definition literal :: "string \<Rightarrow> json \<Rightarrow> string \<Rightarrow> (json \<times> string) option" where
  "literal w v s = (if HasPrefix s w then Some (v, drop (length w) s) else None)"

text \<open>
  The parser takes fuel, of which \<open>Unmarshal\<close> gives it enough for any document, and the number of arrays and objects that
  may still be opened inside one another: the scanner gives up on a document nested deeper than ten thousand.
\<close>

definition maxNestingDepth :: nat where
  "maxNestingDepth = 10000"

fun parse_value :: "nat \<Rightarrow> nat \<Rightarrow> string \<Rightarrow> (json \<times> string) option"
  and parse_items :: "nat \<Rightarrow> nat \<Rightarrow> string \<Rightarrow> (json list \<times> string) option"
  and parse_fields :: "nat \<Rightarrow> nat \<Rightarrow> string \<Rightarrow> ((string \<times> json) list \<times> string) option" where
  "parse_value 0 d s = None"
| "parse_value (Suc n) d s =
     (case skip_ws s of
        [] \<Rightarrow> None
      | c # t \<Rightarrow>
          if c = CHR ''{'' then
            (if d = 0 then None
             else if HasPrefix (skip_ws t) ''}'' then Some (JObj [], tl (skip_ws t))
             else map_option (\<lambda>(fs, u). (JObj fs, u)) (parse_fields n (d - 1) t))
          else if c = CHR ''['' then
            (if d = 0 then None
             else if HasPrefix (skip_ws t) '']'' then Some (JArr [], tl (skip_ws t))
             else map_option (\<lambda>(vs, u). (JArr vs, u)) (parse_items n (d - 1) t))
          else if c = CHR 0x22 then map_option (\<lambda>(v, u). (JStr v, u)) (parse_string t)
          else if c = CHR ''n'' then literal ''null'' JNull (c # t)
          else if c = CHR ''t'' then literal ''true'' (JBool True) (c # t)
          else if c = CHR ''f'' then literal ''false'' (JBool False) (c # t)
          else map_option (\<lambda>(m, u). (JNum m, u)) (parse_number (c # t)))"
| "parse_items 0 d s = None"
| "parse_items (Suc n) d s =
     (case parse_value n d s of
        None \<Rightarrow> None
      | Some (v, u) \<Rightarrow>
          (case skip_ws u of
             [] \<Rightarrow> None
           | c # w \<Rightarrow>
               if c = CHR '','' then map_option (\<lambda>(vs, x). (v # vs, x)) (parse_items n d w)
               else if c = CHR '']'' then Some ([v], w) else None))"
| "parse_fields 0 d s = None"
| "parse_fields (Suc n) d s =
     (case skip_ws s of
        [] \<Rightarrow> None
      | c # t \<Rightarrow>
          if c \<noteq> CHR 0x22 then None
          else (case parse_string t of
                  None \<Rightarrow> None
                | Some (k, u) \<Rightarrow>
                    (case skip_ws u of
                       [] \<Rightarrow> None
                     | a # w \<Rightarrow>
                         if a \<noteq> CHR '':'' then None
                         else (case parse_value n d w of
                                 None \<Rightarrow> None
                               | Some (v, x) \<Rightarrow>
                                   (case skip_ws x of
                                      [] \<Rightarrow> None
                                    | e # y \<Rightarrow>
                                        if e = CHR '','' then map_option (\<lambda>(fs, z). ((k, v) # fs, z)) (parse_fields n d y)
                                        else if e = CHR ''}'' then Some ([(k, v)], y) else None)))))"

definition Unmarshal :: "string \<Rightarrow> json option" where
  "Unmarshal s =
     (case parse_value (2 * length s + 2) maxNestingDepth s of
        None \<Rightarrow> None
      | Some (v, u) \<Rightarrow> if skip_ws u = [] then Some v else None)"

section \<open>Strings come back\<close>

text \<open>A string with every malformed byte replaced by the replacement character.\<close>

function runes_of :: "string \<Rightarrow> nat list" where
  "runes_of [] = []"
| "runes_of (c # s) = fst (DecodeRune (c # s)) # runes_of (drop (snd (DecodeRune (c # s))) (c # s))"
  by pat_completeness auto
termination
  by (relation "measure length") (use length_drop_rune in fastforce)+

declare runes_of.simps(2) [simp del]

definition sanitize :: "string \<Rightarrow> string" where
  "sanitize s = encode (runes_of s)"

lemma runes_of_encode: "list_all valid_rune rs \<Longrightarrow> runes_of (encode rs) = rs"
proof (induction rs)
  case (Cons r rs)
  obtain c t where e: "EncodeRune r = c # t" by (cases "EncodeRune r") auto
  have "DecodeRune (c # t @ encode rs) = (r, length (c # t))"
    using Decode_Encode [of r "encode rs"] Cons.prems e by simp
  then show ?case using Cons by (simp add: e runes_of.simps(2))
qed simp

lemma sanitize_valid: "ValidString s \<Longrightarrow> sanitize s = s"
  using ValidString_runes [of s] runes_of_encode by (auto simp: sanitize_def)

lemma sanitize_ValidString: "ValidString (sanitize s)"
proof -
  have "list_all valid_rune (runes_of s)"
    by (induction s rule: runes_of.induct) (simp_all add: runes_of.simps(2) DecodeRune_valid)
  then show ?thesis unfolding sanitize_def ValidString_iff by blast
qed

lemma hex_value_char: "d < 16 \<Longrightarrow> hex_value (hex_char d) = Some d"
  by (auto simp: hex_value_def hex_char_def)

lemma hex_groups: "n < 65536 \<Longrightarrow> (n::nat) div 4096 mod 16 * 4096 + n div 256 mod 16 * 256 + n div 16 mod 16 * 16 + n mod 16 = n"
proof -
  assume "n < 65536"
  then have "n div 4096 < 16" using less_mult_imp_div_less [of n 16 4096] by simp
  then have m: "n div 4096 mod 16 = n div 4096" by simp
  have d: "n div 256 = n div 16 div 16" "n div 4096 = n div 16 div 16 div 16"
    using div_mult2_eq [of n 16 16] div_mult2_eq [of n 16 256] div_mult2_eq [of "n div 16" 16 16] by simp_all
  have "n = n div 16 * 16 + n mod 16" "n div 16 = n div 16 div 16 * 16 + n div 16 mod 16"
    "n div 16 div 16 = n div 16 div 16 div 16 * 16 + n div 16 div 16 mod 16"
    by simp_all
  then show ?thesis unfolding m unfolding d by linarith
qed

lemma unescape_u4:
  assumes "n < 65536" "\<not> is_surrogate n"
  shows "unescape (tl (u4 n) @ t) = Some (n, t)"
proof -
  define a b c d where "a = n div 4096 mod 16" and "b = n div 256 mod 16" and "c = n div 16 mod 16" and "d = n mod 16"
  have n: "a * 4096 + b * 256 + c * 16 + d = n"
    using hex_groups [OF assms(1)] by (simp only: a_def b_def c_def d_def)
  have "a < 16" "b < 16" "c < 16" "d < 16" by (simp_all add: a_def b_def c_def d_def)
  then have "getu4 ([hex_char a, hex_char b, hex_char c, hex_char d] @ t) = Some (n, t)"
    by (simp add: getu4_def hex_value_char n)
  moreover have "u4 n = [CHR 0x5C, CHR ''u'', hex_char a, hex_char b, hex_char c, hex_char d]"
    by (simp only: u4_def a_def b_def c_def d_def)
  ultimately show ?thesis using assms(2) by (simp add: unescape_def)
qed

abbreviation cons_rune :: "nat \<Rightarrow> (string \<times> string) option \<Rightarrow> (string \<times> string) option" where
  "cons_rune r \<equiv> map_option (\<lambda>(v, u). (EncodeRune r @ v, u))"

lemma parse_u4: "n < 65536 \<Longrightarrow> \<not> is_surrogate n \<Longrightarrow> parse_string (u4 n @ t) = cons_rune n (parse_string t)"
  using unescape_u4 [of n t] by (simp add: u4_def parse_string.simps(2))

lemma parse_plain_rune:
  assumes "valid_rune r" "0x20 \<le> r" "r \<noteq> 0x22" "r \<noteq> 0x5C"
  shows "parse_string (EncodeRune r @ t) = cons_rune r (parse_string t)"
proof -
  obtain c u where e: "EncodeRune r = c # u" by (cases "EncodeRune r") auto
  have "byte c = r \<or> 0x80 \<le> byte c"
    using EncodeRune_shape(4,5) [OF assms(1) e] by auto
  then have "c \<noteq> CHR 0x22" "c \<noteq> CHR 0x5C" "\<not> byte c < 0x20" using assms by auto
  moreover have "DecodeRune (c # u @ t) = (r, length (c # u))" using Decode_Encode [OF assms(1), of t] e by simp
  ultimately show ?thesis by (simp add: e parse_string.simps(2))
qed

lemma parse_short_escape:
  "unescape (c # t) = Some (r, t) \<Longrightarrow> parse_string (CHR 0x5C # c # t) = cons_rune r (parse_string t)"
  by (simp add: parse_string.simps(2))

lemma parse_escape_rune:
  assumes "valid_rune r" "malformed \<Longrightarrow> r = RuneError"
  shows "parse_string (escape_rune malformed r @ t) = cons_rune r (parse_string t)"
proof -
  note u = parse_u4 [of r t]
  consider (bad) malformed | (short) "r \<in> {0x5C, 0x22, 0x08, 0x0C, 0x0A, 0x0D, 0x09}" "\<not> malformed"
    | (long) "r < 0x20 \<or> r \<in> {0x3C, 0x3E, 0x26, 0x2028, 0x2029}" "r \<notin> {0x5C, 0x22, 0x08, 0x0C, 0x0A, 0x0D, 0x09}" "\<not> malformed"
    | (plain) "0x20 \<le> r" "r \<notin> {0x5C, 0x22, 0x3C, 0x3E, 0x26, 0x2028, 0x2029}" "\<not> malformed"
    by fastforce
  then show ?thesis
  proof cases
    case bad
    then show ?thesis using assms u by (simp add: escape_rune_def RuneError_def is_surrogate_def)
  next
    case short
    then show ?thesis
      by (auto simp: escape_rune_def char_of_byte intro!: parse_short_escape simp: unescape_def)
  next
    case long
    then have "escape_rune malformed r = u4 r" by (auto simp: escape_rune_def)
    moreover have "r < 65536" "\<not> is_surrogate r" using long by (auto simp: is_surrogate_def)
    ultimately show ?thesis using u by simp
  next
    case plain
    then have "escape_rune malformed r = EncodeRune r" by (auto simp: escape_rune_def)
    then show ?thesis using plain parse_plain_rune [OF assms(1)] by simp
  qed
qed

lemma parse_escape_string: "parse_string (escape_string s @ CHR 0x22 # t) = Some (sanitize s, t)"
proof (induction s rule: escape_string.induct)
  case 1
  then show ?case by (simp add: parse_string.simps(2) sanitize_def)
next
  case (2 c s)
  have "parse_string (escape_rune (DecodeRune (c # s) = bad_rune) (fst (DecodeRune (c # s))) @ u)
      = cons_rune (fst (DecodeRune (c # s))) (parse_string u)" for u
    by (rule parse_escape_rune) (auto simp: DecodeRune_valid bad_rune_def)
  then show ?case
    using 2 by (simp add: escape_string.simps(2) sanitize_def runes_of.simps(2))
qed

section \<open>Documents come back\<close>

fun json_ok :: "json \<Rightarrow> bool" where
  "json_ok (JNum n) = (valid_number n \<and> list_all num_char n)"
| "json_ok (JArr vs) = list_all json_ok vs"
| "json_ok (JObj fs) = list_all (\<lambda>(k, v). json_ok v) fs"
| "json_ok _ = True"

text \<open>What is left of a document: its strings sanitised.\<close>

fun norm :: "json \<Rightarrow> json" where
  "norm (JStr s) = JStr (sanitize s)"
| "norm (JArr vs) = JArr (map norm vs)"
| "norm (JObj fs) = JObj (map (\<lambda>(k, v). (sanitize k, norm v)) fs)"
| "norm v = v"

text \<open>The arrays and objects of a document are at most so many levels deep.\<close>

fun nests_within :: "nat \<Rightarrow> json \<Rightarrow> bool" where
  "nests_within d (JArr vs) = (d \<noteq> 0 \<and> list_all (nests_within (d - 1)) vs)"
| "nests_within d (JObj fs) = (d \<noteq> 0 \<and> list_all (\<lambda>(k, v). nests_within (d - 1) v) fs)"
| "nests_within d _ = True"

definition ends_number :: "string \<Rightarrow> bool" where
  "ends_number u \<longleftrightarrow> u = [] \<or> \<not> num_char (hd u)"

lemma ends_number_simps [simp]:
  "ends_number []" "ends_number (CHR '','' # u)" "ends_number (CHR '']'' # u)" "ends_number (CHR ''}'' # u)"
  by (simp_all add: ends_number_def num_char_def is_digit_def)

lemma number_head:
  assumes "valid_number n"
  obtains c t where "n = c # t" "is_digit c \<or> c = CHR ''-''"
  using assms by (cases n) (auto simp: valid_number_def Let_def split: if_splits)

lemma digit_or_minus:
  "is_digit c \<or> c = CHR ''-'' \<Longrightarrow>
   num_char c \<and> c \<notin> {CHR ''{'', CHR ''['', CHR 0x22, CHR ''n'', CHR ''t'', CHR ''f'', CHR '']'', CHR ''}'',
     CHR '' '', CHR 0x09, CHR 0x0A, CHR 0x0D}"
  by (auto simp: num_char_def is_digit_def)

lemma parse_number_literal:
  assumes "valid_number n" "list_all num_char n" "ends_number u"
  shows "parse_number (n @ u) = Some (n, u)"
proof -
  have "takeWhile num_char (n @ u) = n" "dropWhile num_char (n @ u) = u"
    using assms(2,3) by (cases u; simp add: ends_number_def list_all_iff takeWhile_append dropWhile_append; fail)+
  then show ?thesis using assms(1) by (simp add: parse_number_def)
qed

lemma parse_encoded: "parse_string (escape_string s @ CHR 0x22 # u) = Some (sanitize s, u)"
  by (rule parse_escape_string)

lemma skip_ws_head: "c \<notin> {CHR '' '', CHR 0x09, CHR 0x0A, CHR 0x0D} \<Longrightarrow> skip_ws (c # s) = c # s"
  by simp

lemma Marshal_head:
  assumes "json_ok v"
  shows "\<exists>c t. Marshal v = c # t \<and> c \<notin> {CHR '' '', CHR 0x09, CHR 0x0A, CHR 0x0D, CHR '']'', CHR ''}''}"
proof (cases v)
  case (JNum n)
  then obtain c t where "n = c # t" "is_digit c \<or> c = CHR ''-''" using assms by (auto elim: number_head)
  then show ?thesis using JNum digit_or_minus [of c] by auto
qed (auto simp: encode_string_def)

lemma parse_number_value:
  assumes "valid_number m" "list_all num_char m" "ends_number u" "0 < n"
  shows "parse_value n d (m @ u) = Some (JNum m, u)"
proof -
  obtain c t where m: "m = c # t" "is_digit c \<or> c = CHR ''-''" using assms(1) by (rule number_head)
  obtain k where "n = Suc k" using assms(4) by (cases n) auto
  then show ?thesis
    using digit_or_minus [OF m(2)] parse_number_literal [OF assms(1-3)] by (simp add: m(1))
qed

lemma parse_marshal:
  shows "json_ok v \<Longrightarrow> nests_within d v \<Longrightarrow> 2 * length (Marshal v) \<le> n \<Longrightarrow> ends_number u \<Longrightarrow>
      parse_value n d (Marshal v @ u) = Some (norm v, u)"
    and "vs \<noteq> [] \<Longrightarrow> list_all json_ok vs \<Longrightarrow> list_all (nests_within d) vs \<Longrightarrow> 2 * length (marshal_items vs) \<le> n \<Longrightarrow>
      parse_items n d (marshal_items vs @ u) = Some (map norm vs, u)"
    and "fs \<noteq> [] \<Longrightarrow> list_all (\<lambda>(k, v). json_ok v) fs \<Longrightarrow> list_all (\<lambda>(k, v). nests_within d v) fs \<Longrightarrow> 2 * length (marshal_fields fs) \<le> n \<Longrightarrow>
      parse_fields n d (marshal_fields fs @ u) = Some (map (\<lambda>(k, v). (sanitize k, norm v)) fs, u)"
proof (induction v and vs and fs arbitrary: n d u and n d u and n d u rule: Marshal_marshal_items_marshal_fields.induct)
  case 1
  then show ?case by (cases n) (simp_all add: literal_def)
next
  case (2 b)
  then show ?case by (cases b; cases n) (simp_all add: literal_def)
next
  case (3 m)
  then obtain c t where "m = c # t" by (auto elim: number_head)
  then show ?case using 3 parse_number_value [of m u n d] by simp
next
  case (4 s)
  then show ?case by (cases n) (simp_all add: encode_string_def parse_encoded)
next
  case (5 vs)
  then obtain k where n: "n = Suc k" by (cases n) auto
  show ?case
  proof (cases vs)
    case Nil
    then show ?thesis using 5(3) by (simp add: n)
  next
    case (Cons w ws)
    have "json_ok w" using 5 Cons by simp
    then obtain c t where h: "Marshal w = c # t" "c \<notin> {CHR '' '', CHR 0x09, CHR 0x0A, CHR 0x0D, CHR '']'', CHR ''}''}"
      using Marshal_head by blast
    then obtain t' where t': "marshal_items vs = c # t'" using Cons by (cases ws) auto
    have "parse_items k (d - 1) (marshal_items vs @ u) = Some (map norm vs, u)"
      using 5(1) [of "d - 1" k u] 5(2-4) Cons n by simp
    then show ?thesis using h(2) 5(3) by (simp add: n t')
  qed
next
  case (6 fs)
  then obtain k where n: "n = Suc k" by (cases n) auto
  show ?case
  proof (cases fs)
    case Nil
    then show ?thesis using 6(3) by (simp add: n)
  next
    case (Cons f fs')
    obtain t' where t': "marshal_fields fs = CHR 0x22 # t'"
      using Cons by (cases f; cases fs') (auto simp: encode_string_def)
    have "parse_fields k (d - 1) (marshal_fields fs @ u) = Some (map (\<lambda>(k, v). (sanitize k, norm v)) fs, u)"
      using 6(1) [of "d - 1" k u] 6(2-4) Cons n by simp
    then show ?thesis using 6(3) by (simp add: n t')
  qed
next
  case (8 v)
  then obtain k where n: "n = Suc k" by (cases n) auto
  show ?case using 8(1) [of d k "CHR '']'' # u"] 8(3-5) by (simp add: n)
next
  case (9 v w vs)
  then obtain k where n: "n = Suc k" by (cases n) auto
  show ?case
    using 9(1) [of d k "CHR '','' # marshal_items (w # vs) @ u"] 9(2) [of d k u] 9(4-6) by (simp add: n)
next
  case (11 k v)
  then obtain m where n: "n = Suc m" by (cases n) auto
  show ?case
    using 11(1) [of d m "CHR ''}'' # u"] 11(3-5) by (simp add: n encode_string_def parse_encoded)
next
  case (12 k v f fs)
  then obtain m where n: "n = Suc m" by (cases n) auto
  show ?case
    using 12(1) [of d m "CHR '','' # marshal_fields (f # fs) @ u"] 12(2) [of d m u] 12(4-6)
    by (simp add: n encode_string_def parse_encoded)
qed simp_all

theorem Unmarshal_Marshal: "json_ok v \<Longrightarrow> nests_within maxNestingDepth v \<Longrightarrow> Unmarshal (Marshal v) = Some (norm v)"
  using parse_marshal(1) [of v maxNestingDepth "2 * length (Marshal v) + 2" "[]"] by (simp add: Unmarshal_def)

lemma dropWhile_digits: "list_all is_digit t \<Longrightarrow> dropWhile is_digit t = []"
  by (induction t) auto

lemma valid_utoa: "valid_number (utoa n) \<and> hd (utoa n) \<noteq> CHR ''-'' \<and>
   (\<exists>c t. utoa n = c # t \<and> is_digit c \<and> fraction_ok (if c = CHR ''0'' then t else dropWhile is_digit t))"
proof -
  obtain c t where u: "utoa n = c # t" by (cases "utoa n") auto
  have d: "is_digit c" "list_all is_digit t" using utoa_digits [of n] u by simp_all
  have "c = CHR ''0'' \<Longrightarrow> t = []"
  proof -
    assume "c = CHR ''0''"
    then have "n = 0" using utoa_leading_zero [of n] u by simp
    then show "t = []" using u by (simp add: utoa.simps)
  qed
  moreover have "fraction_ok []" by (simp add: fraction_ok_def exponent_ok_def)
  ultimately have f: "fraction_ok (if c = CHR ''0'' then t else dropWhile is_digit t)"
    using d(2) by (simp add: dropWhile_digits)
  have m: "c \<noteq> CHR ''-''" using d(1) by (auto simp: is_digit_def)
  show ?thesis using d f m u by (simp add: valid_number_def)
qed

lemma json_ok_JInt [simp]: "json_ok (JInt i)"
proof -
  have digits: "list_all num_char (utoa n)" for n
    using utoa_digits [of n] by (auto simp: list_all_iff num_char_def)
  show ?thesis
  proof (cases "i < 0")
    case True
    obtain c t where "utoa (nat (- i)) = c # t" "is_digit c" "fraction_ok (if c = CHR ''0'' then t else dropWhile is_digit t)"
      using valid_utoa [of "nat (- i)"] by blast
    then have "valid_number (CHR ''-'' # utoa (nat (- i)))" by (simp add: valid_number_def)
    then show ?thesis using True digits by (simp add: JInt_def itoa_def num_char_def)
  next
    case False
    then show ?thesis using valid_utoa [of "nat i"] digits by (simp add: JInt_def itoa_def)
  qed
qed

lemma norm_JInt [simp]: "norm (JInt i) = JInt i"
  by (simp add: JInt_def)

text \<open>A document of valid strings comes back as it is.\<close>

fun json_utf8 :: "json \<Rightarrow> bool" where
  "json_utf8 (JStr s) = ValidString s"
| "json_utf8 (JArr vs) = list_all json_utf8 vs"
| "json_utf8 (JObj fs) = list_all (\<lambda>(k, v). ValidString k \<and> json_utf8 v) fs"
| "json_utf8 _ = True"

lemma norm_utf8: "json_utf8 v \<Longrightarrow> norm v = v"
  by (induction v rule: json_utf8.induct) (auto simp: sanitize_valid list_all_iff intro!: map_idI)

section \<open>What is encoded is valid UTF-8\<close>

lemma ValidString_append: "ValidString a \<Longrightarrow> ValidString (a @ b) = ValidString b"
  using ValidString_runes [of a] ValidString_encode by blast

lemma ValidString_ascii: "list_all (\<lambda>c. byte c < 0x80) s \<Longrightarrow> ValidString s"
proof (induction s)
  case (Cons c s)
  then have "DecodeRune (c # s) = (byte c, 1)" by (simp add: DecodeRune_ascii)
  moreover have "byte c \<noteq> RuneError" using Cons.prems by (auto simp: RuneError_def)
  ultimately show ?case using Cons by (auto simp: bad_rune_def)
qed simp

lemma hex_char_ascii: "d < 16 \<Longrightarrow> byte (hex_char d) < 0x80"
  by (simp add: hex_char_def)

lemma u4_ascii: "list_all (\<lambda>c. byte c < 0x80) (u4 n)"
  by (simp add: u4_def hex_char_ascii)

lemma escape_rune_valid: "valid_rune r \<Longrightarrow> ValidString (escape_rune m r)"
  using ValidString_cons [of r "[]"] u4_ascii
  by (auto simp: escape_rune_def simp del: ValidString.simps(2) intro!: ValidString_ascii)

lemma escape_string_valid: "ValidString (escape_string s)"
proof (induction s rule: escape_string.induct)
  case (2 c s)
  then show ?case
    using escape_rune_valid [OF DecodeRune_valid] by (simp add: escape_string.simps(2) ValidString_append)
qed simp

lemma encode_string_valid: "ValidString (encode_string s)"
  using ValidString_append [of "[CHR 0x22]"] ValidString_append [OF escape_string_valid, of s "[CHR 0x22]"]
    ValidString_ascii [of "[CHR 0x22]"]
  by (simp add: encode_string_def)

lemma num_char_ascii: "list_all num_char n \<Longrightarrow> list_all (\<lambda>c. byte c < 0x80) n"
  by (auto simp: list_all_iff num_char_def is_digit_def)

lemma ValidString_Cons: "byte c < 0x80 \<Longrightarrow> ValidString (c # s) = ValidString s"
  using ValidString_append [of "[c]" s] ValidString_ascii [of "[c]"] by simp

lemma Marshal_valid:
  shows "json_ok v \<Longrightarrow> ValidString (Marshal v)"
    and "list_all json_ok vs \<Longrightarrow> ValidString (marshal_items vs)"
    and "list_all (\<lambda>(k, v). json_ok v) fs \<Longrightarrow> ValidString (marshal_fields fs)"
proof (induction v and vs and fs rule: Marshal_marshal_items_marshal_fields.induct)
  case (3 n)
  then show ?case by (simp add: ValidString_ascii num_char_ascii)
next
  case (4 s)
  then show ?case by (simp add: encode_string_valid)
qed (simp_all add: ValidString_append ValidString_Cons encode_string_valid ValidString_ascii del: ValidString.simps(2))

lemma Marshal_sanitized: "json_ok v \<Longrightarrow> sanitize (Marshal v) = Marshal v"
  by (simp add: sanitize_valid Marshal_valid)

end
