(* ===== verification/Mq.thy ===== *)
theory Mq
  imports Json CtxErrors
begin

text \<open>
  Package mq (src/mq): messages with their acknowledgement, handlers, and the wrappers that fix a
  topic. A Go value handed to a publisher is what \<open>json.Marshal\<close> sees of it: a document, or the error
  Marshal gives for a value it cannot encode. A publisher is a function on the state of the broker.
\<close>

type_synonym 'w publish = "'w \<Rightarrow> string \<Rightarrow> json res \<Rightarrow> err \<times> 'w"
type_synonym 'w subscribe = "'w \<Rightarrow> string \<Rightarrow> err \<times> 'w"

section \<open>Messages\<close>

text \<open>The acknowledgement function of a message, on a state of the outside world.\<close>

record 'w Message =
  Data :: string
  ack :: "'w \<Rightarrow> err \<times> 'w"

definition NewMessage :: "string \<Rightarrow> ('w \<Rightarrow> err \<times> 'w) \<Rightarrow> 'w Message" where
  "NewMessage data a = \<lparr>Data = data, ack = a\<rparr>"

definition Message_Ack :: "'w Message \<Rightarrow> 'w \<Rightarrow> err \<times> 'w" where
  "Message_Ack m w = ack m w"

text \<open>
  \<open>Decode\<close> unmarshals into a Go value; \<open>into\<close> is what the type of that value makes of a document (an
  error when the document does not fit). A syntax error is an error of encoding/json.
\<close>

definition Message_Decode :: "(json \<Rightarrow> 'v res) \<Rightarrow> 'w Message \<Rightarrow> 'v res" where
  "Message_Decode into m =
     (case Unmarshal (Data m) of
        None \<Rightarrow> Inl (wrapped (Foreign ''json.SyntaxError'') ''decode message'')
      | Some v \<Rightarrow> (case into v of Inl e \<Rightarrow> Inl (wrapped e ''decode message'') | Inr x \<Rightarrow> Inr x))"

section \<open>Handlers\<close>

text \<open>A handler may change the world, and acknowledge the message itself.\<close>

type_synonym 'w HandlerFunc = "'w \<Rightarrow> 'w Message \<Rightarrow> err \<times> 'w"

definition HandlerFunc_Handle :: "'w HandlerFunc \<Rightarrow> 'w \<Rightarrow> 'w Message \<Rightarrow> err \<times> 'w" where
  "HandlerFunc_Handle f w msg = f w msg"

section \<open>Wrappers with a fixed topic\<close>

record 'w TopicPublisher =
  publisher :: "'w publish"
  tp_topic :: string

definition NewTopicPublisher :: "'w publish \<Rightarrow> string \<Rightarrow> 'w TopicPublisher" where
  "NewTopicPublisher p topic = \<lparr>publisher = p, tp_topic = topic\<rparr>"

definition TopicPublisher_Publish :: "'w TopicPublisher \<Rightarrow> 'w \<Rightarrow> json res \<Rightarrow> err \<times> 'w" where
  "TopicPublisher_Publish tp w v =
     (case publisher tp w (tp_topic tp) v of
        (Some e, w') \<Rightarrow> (Wrap (Some e) ''topic publisher publish'', w')
      | (None, w') \<Rightarrow> (None, w'))"

record 'w TopicSubscriber =
  client :: "'w subscribe"
  ts_topic :: string

definition NewTopicSubscriber :: "'w subscribe \<Rightarrow> string \<Rightarrow> 'w TopicSubscriber" where
  "NewTopicSubscriber c topic = \<lparr>client = c, ts_topic = topic\<rparr>"

definition TopicSubscriber_Subscribe :: "'w TopicSubscriber \<Rightarrow> 'w \<Rightarrow> err \<times> 'w" where
  "TopicSubscriber_Subscribe ts w =
     (case client ts w (ts_topic ts) of
        (Some e, w') \<Rightarrow> (Wrap (Some e) ''topic subscriber subscribe'', w')
      | (None, w') \<Rightarrow> (None, w'))"

section \<open>The contract of a publisher\<close>

text \<open>
  What a publisher promises: a call that succeeds has added the marshalled value to the topic, once;
  a call that fails has left the topics alone or, when only the confirmation was lost, has added it.
\<close>

locale mq_publisher =
  fixes publish :: "'w publish"
    and topics :: "'w \<Rightarrow> (string \<times> string) list"
  assumes publish_ok:
    "publish w t v = (None, w') \<Longrightarrow> \<exists>j. v = Inr j \<and> topics w' = topics w @ [(t, Marshal j)]"
  and publish_err:
    "publish w t v = (Some e, w') \<Longrightarrow> topics w' = topics w \<or> (\<exists>j. v = Inr j \<and> topics w' = topics w @ [(t, Marshal j)])"
begin

lemma publish_grows:
  assumes "publish w t v = (r, w')"
  shows "\<exists>ms. topics w' = topics w @ ms \<and> length ms \<le> 1"
proof (cases r)
  case None
  then show ?thesis using publish_ok assms by fastforce
next
  case (Some e)
  then show ?thesis using publish_err [of w t v e w'] assms by auto
qed

text \<open>A publisher with its topic fixed keeps the contract.\<close>

lemma topic_publish_ok:
  assumes "TopicPublisher_Publish (NewTopicPublisher publish t) w v = (None, w')"
  shows "\<exists>j. v = Inr j \<and> topics w' = topics w @ [(t, Marshal j)]"
  using assms publish_ok
  by (auto simp: TopicPublisher_Publish_def NewTopicPublisher_def split: prod.splits option.splits)

lemma published_decodes:
  assumes "publish w t (Inr j) = (None, w')" "json_ok j" "nests_within maxNestingDepth j"
  shows "\<exists>d. topics w' = topics w @ [(t, d)] \<and> Unmarshal d = Some (norm j)"
  using publish_ok [OF assms(1)] Unmarshal_Marshal [OF assms(2,3)] by auto

end

end
