(* ===== verification/Nats.thy ===== *)
theory Nats
  imports Mq
begin

text \<open>
  The NATS JetStream client of src/mq/nats. The library and the server behind it are parameters: the
  results of its calls, as functions of the server's state where a call can change it. Connections
  are tracked by the events of opening and closing them.
\<close>

section \<open>Streams\<close>

datatype StorageType = MemoryStorage | FileStorage

text \<open>A retention policy is an integer with three named values.\<close>

type_synonym RetentionPolicy = int

abbreviation InterestRetention :: RetentionPolicy where "InterestRetention \<equiv> 0"
abbreviation WorkQueueRetention :: RetentionPolicy where "WorkQueueRetention \<equiv> 1"
abbreviation LimitsRetention :: RetentionPolicy where "LimitsRetention \<equiv> 2"

datatype nats_retention = LimitsPolicy | InterestPolicy | WorkQueuePolicy

record StreamConfig =
  Name :: string
  SubjectBase :: string
  MaxAge :: int
  Storage :: StorageType
  Retention :: RetentionPolicy

record nats_StreamConfig =
  ns_Name :: string
  ns_Subjects :: "string list"
  ns_Storage :: StorageType
  ns_Retention :: nats_retention
  ns_MaxAge :: int

fun strings_Join :: "string list \<Rightarrow> string \<Rightarrow> string" where
  "strings_Join [] sep = []"
| "strings_Join [s] sep = s"
| "strings_Join (s # t # ss) sep = s @ sep @ strings_Join (t # ss) sep"

definition BuildSubject :: "StreamConfig \<Rightarrow> string list \<Rightarrow> string" where
  "BuildSubject c parts = SubjectBase c @ ''.'' @ strings_Join parts ''.''"

definition retentionToNATS :: "RetentionPolicy \<Rightarrow> nats_retention" where
  "retentionToNATS r =
     (if r = InterestRetention then InterestPolicy
      else if r = WorkQueueRetention then WorkQueuePolicy
      else if r = LimitsRetention then LimitsPolicy
      else InterestPolicy)"

definition defaultMaxAge :: int where
  "defaultMaxAge = 24 * 3600 * 1000000000"

abbreviation nats_ErrStreamNotFound :: go_error where
  "nats_ErrStreamNotFound \<equiv> ErrNew ''nats.ErrStreamNotFound''"

abbreviation ErrEmptyURL :: go_error where
  "ErrEmptyURL \<equiv> ErrNew ''natsmq.ErrEmptyURL''"

text \<open>What the code calls of JetStream's stream management, on the server's state.\<close>

record 's jetstream =
  StreamInfo :: "'s \<Rightarrow> string \<Rightarrow> err"
  AddStream :: "'s \<Rightarrow> nats_StreamConfig \<Rightarrow> err \<times> 's"

definition stream_request :: "StreamConfig \<Rightarrow> nats_StreamConfig" where
  "stream_request config =
     \<lparr>ns_Name = Name config, ns_Subjects = [SubjectBase config @ ''.>''], ns_Storage = Storage config,
      ns_Retention = retentionToNATS (Retention config),
      ns_MaxAge = (if MaxAge config = 0 then defaultMaxAge else MaxAge config)\<rparr>"

definition ensureStream :: "'s jetstream \<Rightarrow> 's \<Rightarrow> StreamConfig \<Rightarrow> err \<times> 's" where
  "ensureStream js s config =
     (case StreamInfo js s (Name config) of
        None \<Rightarrow> (None, s)
      | Some e \<Rightarrow>
          if \<not> errors_Is e nats_ErrStreamNotFound then (Wrap (Some e) ''get stream info'', s)
          else (case AddStream js s (stream_request config) of
                  (Some e', s') \<Rightarrow> (Wrap (Some e') ''create stream'', s')
                | (None, s') \<Rightarrow> (None, s')))"

section \<open>The client\<close>

record nats_Client =
  group :: string

datatype conn_event = Connected string | ConnClosed

fun ensureStreams :: "'s jetstream \<Rightarrow> 's \<Rightarrow> StreamConfig list \<Rightarrow> (go_error option) \<times> 's" where
  "ensureStreams js s [] = (None, s)"
| "ensureStreams js s (c # cs) =
     (case ensureStream js s c of
        (Some e, s') \<Rightarrow> (Wrap (Some e) (''ensure stream '' @ Name c), s')
      | (None, s') \<Rightarrow> ensureStreams js s' cs)"

text \<open>\<open>connect\<close> is the result of \<open>nats.Connect\<close>, \<open>jsErr\<close> that of \<open>conn.JetStream\<close>.\<close>

definition nats_New ::
  "(string \<Rightarrow> err) \<Rightarrow> err \<Rightarrow> 's jetstream \<Rightarrow> 's \<Rightarrow> string \<Rightarrow> string \<Rightarrow> StreamConfig list
    \<Rightarrow> nats_Client res \<times> conn_event list \<times> 's" where
  "nats_New connect jsErr js s url grp streams =
     (if url = [] then (Inl ErrEmptyURL, [], s)
      else case connect url of
        Some e \<Rightarrow> (Inl (wrapped e ''nats connect''), [], s)
      | None \<Rightarrow>
          (case jsErr of
             Some e \<Rightarrow> (Inl (wrapped e ''jetstream context''), [Connected url, ConnClosed], s)
           | None \<Rightarrow>
               (case ensureStreams js s streams of
                  (Some e, s') \<Rightarrow> (Inl e, [Connected url, ConnClosed], s')
                | (None, s') \<Rightarrow> (Inr \<lparr>group = grp\<rparr>, [Connected url], s'))))"

definition nats_Close :: "nats_Client \<Rightarrow> err \<times> conn_event list" where
  "nats_Close c = (None, [ConnClosed])"

section \<open>Publishing\<close>

text \<open>
  The state of the broker: how many publish calls it has seen and what the topics hold. The fate of
  the n-th call is a parameter: its error, and whether a failed call was stored nevertheless.
\<close>

record broker =
  calls :: nat
  stored :: "(string \<times> string) list"

type_synonym fate = "nat \<Rightarrow> err \<times> bool"

definition js_Publish :: "fate \<Rightarrow> string \<Rightarrow> string \<Rightarrow> broker \<Rightarrow> err \<times> broker" where
  "js_Publish fate topic data b =
     (case fate (calls b) of
        (None, _) \<Rightarrow> (None, \<lparr>calls = Suc (calls b), stored = stored b @ [(topic, data)]\<rparr>)
      | (Some e, kept) \<Rightarrow>
          (Some e, \<lparr>calls = Suc (calls b), stored = (if kept then stored b @ [(topic, data)] else stored b)\<rparr>))"

definition nats_Publish :: "fate \<Rightarrow> broker publish" where
  "nats_Publish fate b topic v =
     (case v of
        Inl e \<Rightarrow> (Wrap (Some e) ''marshal publish data'', b)
      | Inr j \<Rightarrow>
          (case js_Publish fate topic (Marshal j) b of
             (Some e, b') \<Rightarrow> (Wrap (Some e) ''jetstream publish'', b')
           | (None, b') \<Rightarrow> (None, b')))"

interpretation nats: mq_publisher "nats_Publish fate" stored for fate
  by unfold_locales
    (auto simp: nats_Publish_def js_Publish_def split: sum.splits prod.splits option.splits if_splits)

section \<open>Subscribing\<close>

text \<open>
  \<open>SubscribeSync\<close> and \<open>QueueSubscribeSync\<close>: the requests the client makes, with the results the
  library gives them.
\<close>

datatype sub_request = QueueSub string string | PlainSub string

definition nats_subscribe :: "(sub_request \<Rightarrow> err) \<Rightarrow> nats_Client \<Rightarrow> string \<Rightarrow> sub_request res" where
  "nats_subscribe js c topic =
     (if group c \<noteq> [] then
        (case js (QueueSub topic (group c)) of
           Some e \<Rightarrow> Inl (wrapped e ''queue subscribe'')
         | None \<Rightarrow> Inr (QueueSub topic (group c)))
      else
        (case js (PlainSub topic) of
           Some e \<Rightarrow> Inl (wrapped e ''subscribe sync'')
         | None \<Rightarrow> Inr (PlainSub topic)))"

text \<open>
  What \<open>NextMsgWithContext\<close> gives in each turn of the loop: a message, with what acknowledging it
  does, or an error, with the error of the context at that moment.
\<close>

datatype 'w next_msg = Next string "'w \<Rightarrow> err \<times> 'w" | NextErr go_error err

text \<open>
  The loop, on the deliveries of its turns. It is still running (None) when the deliveries are used
  up; otherwise the result is what it returns. A failed acknowledgement is only logged.
\<close>

fun consumeLoop :: "'w HandlerFunc \<Rightarrow> 'w next_msg list \<Rightarrow> 'w \<Rightarrow> err option \<times> 'w" where
  "consumeLoop h [] w = (None, w)"
| "consumeLoop h (NextErr e ctxErr # ds) w =
     (if err_is ctxErr (Foreign ''context.Canceled'') \<or> err_is ctxErr (Foreign ''context.DeadlineExceeded'')
      then (Some None, w)
      else (Some (Wrap (Some e) ''next message''), w))"
| "consumeLoop h (Next data a # ds) w =
     (let m = NewMessage data a in
      case HandlerFunc_Handle h w m of
        (Some e, w') \<Rightarrow> consumeLoop h ds w'
      | (None, w') \<Rightarrow> consumeLoop h ds (snd (Message_Ack m w')))"

definition nats_Subscribe ::
  "(sub_request \<Rightarrow> err) \<Rightarrow> 'w HandlerFunc \<Rightarrow> 'w next_msg list \<Rightarrow> nats_Client \<Rightarrow> string \<Rightarrow> 'w \<Rightarrow> err option \<times> 'w" where
  "nats_Subscribe js h ds c topic w =
     (case nats_subscribe js c topic of
        Inl e \<Rightarrow> (Some (Wrap (Some e) ''jetstream subscribe''), w)
      | Inr _ \<Rightarrow> consumeLoop h ds w)"

section \<open>Connections\<close>

text \<open>
  Making a client never leaks a connection. A call that fails has closed whatever
  connection it opened, and a call that succeeds has opened exactly one and left it open.
\<close>

theorem nats_New_connections:
  "case nats_New connect jsErr js s url grp streams of
     (Inl e, events, s') \<Rightarrow> events = [] \<or> events = [Connected url, ConnClosed]
   | (Inr c, events, s') \<Rightarrow> events = [Connected url] \<and> group c = grp"
  by (auto simp: nats_New_def split: option.split prod.split)

section \<open>Streams\<close>

text \<open>
  What the code relies on of JetStream: adding a stream succeeds only by making it known, forgets no
  other stream, and looking one up has no effect.
\<close>

definition js_lawful :: "'s jetstream \<Rightarrow> bool" where
  "js_lawful js \<longleftrightarrow>
     (\<forall>s c s' n. AddStream js s c = (None, s') \<longrightarrow>
        (StreamInfo js s' n = None \<longleftrightarrow> n = ns_Name c \<or> StreamInfo js s n = None))"

lemma ensureStream_ok:
  assumes "js_lawful js" "ensureStream js s c = (None, s')"
  shows "StreamInfo js s' n = None \<longleftrightarrow> n = Name c \<or> StreamInfo js s n = None"
proof (cases "StreamInfo js s (Name c)")
  case None
  then show ?thesis using assms(2) by (auto simp: ensureStream_def)
next
  case (Some e)
  then have "AddStream js s (stream_request c) = (None, s')"
    using assms(2) by (auto simp: ensureStream_def split: if_splits prod.splits option.splits)
  moreover have "ns_Name (stream_request c) = Name c" by (simp add: stream_request_def)
  ultimately show ?thesis using assms(1) by (auto simp: js_lawful_def)
qed

lemma ensureStreams_ok:
  "js_lawful js \<Longrightarrow> ensureStreams js s cs = (None, s') \<Longrightarrow>
   StreamInfo js s' n = None \<longleftrightarrow> n \<in> Name ` set cs \<or> StreamInfo js s n = None"
proof (induction cs arbitrary: s)
  case (Cons c cs)
  then obtain s1 where s1: "ensureStream js s c = (None, s1)" "ensureStreams js s1 cs = (None, s')"
    by (auto split: prod.splits option.splits)
  show ?case
    using Cons.IH [OF Cons.prems(1) s1(2)] ensureStream_ok [OF Cons.prems(1) s1(1), of n] by auto
qed simp

lemma ensureStreams_known:
  "\<forall>c\<in>set cs. StreamInfo js s (Name c) = None \<Longrightarrow> ensureStreams js s cs = (None, s)"
  by (induction cs) (auto simp: ensureStream_def)

text \<open>
  C16 (functional): a client that was made has every stream it was configured with, and no stream that
  existed was lost. Making another client with the same streams then changes nothing on the server.
\<close>

theorem nats_New_streams:
  assumes "js_lawful js" "nats_New connect jsErr js s url grp streams = (Inr c, events, s')"
  shows "(StreamInfo js s' n = None \<longleftrightarrow> n \<in> Name ` set streams \<or> StreamInfo js s n = None)
    \<and> ensureStreams js s' streams = (None, s')"
proof -
  have e: "ensureStreams js s streams = (None, s')"
    using assms(2) by (auto simp: nats_New_def split: if_splits option.splits prod.splits)
  have i: "StreamInfo js s' n = None \<longleftrightarrow> n \<in> Name ` set streams \<or> StreamInfo js s n = None" for n
    by (rule ensureStreams_ok [OF assms(1) e])
  then have "\<forall>c\<in>set streams. StreamInfo js s' (Name c) = None" by auto
  from ensureStreams_known [OF this] i [of n] show ?thesis by simp
qed

text \<open>A server that keeps its streams in a list.\<close>

definition demo_js :: "nats_StreamConfig list jetstream" where
  "demo_js = \<lparr>StreamInfo = (\<lambda>s n. if n \<in> set (map ns_Name s) then None else Some nats_ErrStreamNotFound),
     AddStream = (\<lambda>s c. (None, c # s))\<rparr>"

definition demo_stream :: StreamConfig where
  "demo_stream = \<lparr>Name = ''jobs'', SubjectBase = ''jobs'', MaxAge = 0, Storage = FileStorage, Retention = 1\<rparr>"

lemma demo_js_lawful: "js_lawful demo_js"
  by (auto simp: js_lawful_def demo_js_def split: if_splits)

theorem nats_New_streams_witness:
  "StreamInfo demo_js [stream_request demo_stream] ''jobs'' = None
   \<and> ensureStreams demo_js [stream_request demo_stream] [demo_stream] = (None, [stream_request demo_stream])"
  using nats_New_streams [OF demo_js_lawful, of "\<lambda>_. None" None "[]" "''u''" "[]" "[demo_stream]" "\<lparr>group = []\<rparr>"
      "[Connected ''u'']" "[stream_request demo_stream]" "''jobs''"]
  by (simp add: nats_New_def ensureStream_def demo_js_def demo_stream_def stream_request_def)

section \<open>Acknowledgement\<close>

text \<open>
  A world that logs: a handler with a state of its own, the messages it was given and the ones that
  were acknowledged.
\<close>

record 'h consumed =
  handler :: 'h
  handled :: "string list"
  acked :: "string list"

definition logging :: "('h \<Rightarrow> string \<Rightarrow> err \<times> 'h) \<Rightarrow> 'h consumed HandlerFunc" where
  "logging h w m =
     (case h (handler w) (Data m) of (e, h') \<Rightarrow> (e, w\<lparr>handler := h', handled := handled w @ [Data m]\<rparr>))"

definition delivery :: "string \<times> err \<Rightarrow> 'h consumed next_msg" where
  "delivery d = Next (fst d) (\<lambda>w. (snd d, w\<lparr>acked := acked w @ [fst d]\<rparr>))"

text \<open>The messages the handler accepts, in the order of delivery.\<close>

fun accepted :: "('h \<Rightarrow> string \<Rightarrow> err \<times> 'h) \<Rightarrow> 'h \<Rightarrow> string list \<Rightarrow> string list" where
  "accepted h s [] = []"
| "accepted h s (d # ds) = (case h s d of (None, s') \<Rightarrow> d # accepted h s' ds | (Some _, s') \<Rightarrow> accepted h s' ds)"

lemma consumeLoop_deliveries:
  "\<exists>h'. consumeLoop (logging h) (map delivery ds @ es) w
     = consumeLoop (logging h) es (w\<lparr>handler := h', handled := handled w @ map fst ds,
         acked := acked w @ accepted h (handler w) (map fst ds)\<rparr>)"
proof (induction ds arbitrary: w)
  case Nil
  show ?case by (intro exI [of _ "handler w"]) simp
next
  case (Cons d ds)
  obtain e s' where hs: "h (handler w) (fst d) = (e, s')" by fastforce
  let ?w = "w\<lparr>handler := s', handled := handled w @ [fst d], acked := acked w @ (if e = None then [fst d] else [])\<rparr>"
  have "consumeLoop (logging h) (map delivery (d # ds) @ es) w = consumeLoop (logging h) (map delivery ds @ es) ?w"
    using hs by (cases e) (simp_all add: delivery_def logging_def HandlerFunc_Handle_def NewMessage_def Message_Ack_def)
  then show ?case using Cons.IH [of ?w] hs by (cases e) simp_all
qed

text \<open>
  C17 (functional): the consumer acknowledges a message exactly when the handler accepted it, in the
  order of delivery, and a message that was not accepted is left to be delivered again. Neither the
  handler's errors nor failed acknowledgements end the loop: it goes on through any number of
  messages, and ends at the first failure to get one, without an error if the context is done and
  with that failure otherwise.
\<close>

theorem consumer_acks_accepted:
  "case consumeLoop (logging h) (map delivery ds @ tail) \<lparr>handler = h0, handled = [], acked = []\<rparr> of (r, w) \<Rightarrow>
     (case tail of
        [] \<Rightarrow> r = None \<and> handled w = map fst ds \<and> acked w = accepted h h0 (map fst ds)
      | NextErr e ctxErr # _ \<Rightarrow>
          handled w = map fst ds \<and> acked w = accepted h h0 (map fst ds) \<and>
          r = Some (if err_is ctxErr (Foreign ''context.Canceled'') \<or> err_is ctxErr (Foreign ''context.DeadlineExceeded'')
                    then None else Some (wrapped e ''next message''))
      | Next _ _ # _ \<Rightarrow> True)"
proof -
  obtain h' where c: "consumeLoop (logging h) (map delivery ds @ tail) \<lparr>handler = h0, handled = [], acked = []\<rparr>
     = consumeLoop (logging h) tail \<lparr>handler = h', handled = map fst ds, acked = accepted h h0 (map fst ds)\<rparr>"
    using consumeLoop_deliveries [of h ds tail "\<lparr>handler = h0, handled = [], acked = []\<rparr>"] by auto
  show ?thesis unfolding c by (auto split: list.split next_msg.split)
qed

end
