(* ===== verification/MqSse.thy ===== *)
theory MqSse
  imports Nats
begin

text \<open>
  Package mqsse (src/llm/mqsse): the structs of the stream events with the JSON their tags give them,
  and the publisher that sends them to a topic of a message queue. A struct is a constructor with the
  fields in the order of the source; an event goes out as an \<open>Event\<close> whose data is the marshalled
  struct.
\<close>

section \<open>Names\<close>

abbreviation EventTypeMessageStart :: string where "EventTypeMessageStart \<equiv> ''message_start''"
abbreviation EventTypeContentBlockStart :: string where "EventTypeContentBlockStart \<equiv> ''content_block_start''"
abbreviation EventTypePing :: string where "EventTypePing \<equiv> ''ping''"
abbreviation EventTypeContentBlockDelta :: string where "EventTypeContentBlockDelta \<equiv> ''content_block_delta''"
abbreviation EventTypeContentBlockStop :: string where "EventTypeContentBlockStop \<equiv> ''content_block_stop''"
abbreviation EventTypeMessageDelta :: string where "EventTypeMessageDelta \<equiv> ''message_delta''"
abbreviation EventTypeMessageStop :: string where "EventTypeMessageStop \<equiv> ''message_stop''"

abbreviation ContentBlockTypeMessage :: string where "ContentBlockTypeMessage \<equiv> ''message''"
abbreviation ContentBlockTypeText :: string where "ContentBlockTypeText \<equiv> ''text''"
abbreviation ContentBlockTypeTextDelta :: string where "ContentBlockTypeTextDelta \<equiv> ''text_delta''"
abbreviation ContentBlockTypeToolUse :: string where "ContentBlockTypeToolUse \<equiv> ''tool_use''"
abbreviation ContentBlockTypeToolResult :: string where "ContentBlockTypeToolResult \<equiv> ''tool_result''"
abbreviation ContentBlockTypeInputJSON :: string where "ContentBlockTypeInputJSON \<equiv> ''input_json_delta''"
abbreviation ContentBlockTypeJSONPartial :: string where "ContentBlockTypeJSONPartial \<equiv> ''json_partial''"

abbreviation StopReasonEndTurn :: string where "StopReasonEndTurn \<equiv> ''end_turn''"
abbreviation RoleAssistant :: string where "RoleAssistant \<equiv> ''assistant''"

section \<open>Structs\<close>

text \<open>A nil pointer to a string is null.\<close>

definition opt_json :: "string option \<Rightarrow> json" where
  "opt_json s = (case s of None \<Rightarrow> JNull | Some x \<Rightarrow> JStr x)"

text \<open>A field with omitempty.\<close>

definition omitempty :: "string \<Rightarrow> string \<Rightarrow> (string \<times> json) list" where
  "omitempty k s = (if s = [] then [] else [(k, JStr s)])"

datatype UsageStart = UsageStart (InputTokens: int) (OutputTokens: int)

definition UsageStart_json :: "UsageStart \<Rightarrow> json" where
  "UsageStart_json u = JObj [(''input_tokens'', JInt (InputTokens u)), (''output_tokens'', JInt (OutputTokens u))]"

datatype MessageMeta = MessageMeta (mm_ID: string) (mm_ConversationID: string) (mm_Type: string) (mm_Role: string)
  (mm_Content: "json list") (mm_Model: string) (mm_StopReason: "string option") (mm_StopSequence: "string option")
  (mm_Usage: UsageStart)

definition MessageMeta_json :: "MessageMeta \<Rightarrow> json" where
  "MessageMeta_json m = JObj [(''id'', JStr (mm_ID m)), (''conversation_id'', JStr (mm_ConversationID m)),
     (''type'', JStr (mm_Type m)), (''role'', JStr (mm_Role m)), (''content'', JArr (mm_Content m)),
     (''model'', JStr (mm_Model m)), (''stop_reason'', opt_json (mm_StopReason m)),
     (''stop_sequence'', opt_json (mm_StopSequence m)), (''usage'', UsageStart_json (mm_Usage m))]"

datatype ContentBlock = ContentBlock (cb_Type: string) (cb_Text: string)

definition ContentBlock_json :: "ContentBlock \<Rightarrow> json" where
  "ContentBlock_json b = JObj ((''type'', JStr (cb_Type b)) # omitempty ''text'' (cb_Text b))"

datatype TextDelta = TextDelta (td_Type: string) (td_Text: string)

definition TextDelta_json :: "TextDelta \<Rightarrow> json" where
  "TextDelta_json d = JObj [(''type'', JStr (td_Type d)), (''text'', JStr (td_Text d))]"

datatype MessageDeltaInfo = MessageDeltaInfo (md_StopReason: string) (md_StopSequence: "string option")

definition MessageDeltaInfo_json :: "MessageDeltaInfo \<Rightarrow> json" where
  "MessageDeltaInfo_json d =
     JObj [(''stop_reason'', JStr (md_StopReason d)), (''stop_sequence'', opt_json (md_StopSequence d))]"

datatype UsageEnd = UsageEnd (ue_OutputTokens: int)

definition UsageEnd_json :: "UsageEnd \<Rightarrow> json" where
  "UsageEnd_json u = JObj [(''output_tokens'', JInt (ue_OutputTokens u))]"

datatype ToolUseBlock = ToolUseBlock (tu_Type: string) (tu_ID: string) (tu_Name: string) (tu_Input: json)

definition ToolUseBlock_json :: "ToolUseBlock \<Rightarrow> json" where
  "ToolUseBlock_json b = JObj [(''type'', JStr (tu_Type b)), (''id'', JStr (tu_ID b)), (''name'', JStr (tu_Name b)),
     (''input'', tu_Input b)]"

datatype ToolResultBlock = ToolResultBlock (tr_Type: string) (tr_ToolUseID: string) (tr_Content: string)

definition ToolResultBlock_json :: "ToolResultBlock \<Rightarrow> json" where
  "ToolResultBlock_json b = JObj ([(''type'', JStr (tr_Type b)), (''tool_use_id'', JStr (tr_ToolUseID b))]
     @ omitempty ''content'' (tr_Content b))"

datatype InputJSONDelta = InputJSONDelta (ij_Type: string) (ij_PartialJSON: string)

definition InputJSONDelta_json :: "InputJSONDelta \<Rightarrow> json" where
  "InputJSONDelta_json d = JObj [(''type'', JStr (ij_Type d)), (''partial_json'', JStr (ij_PartialJSON d))]"

datatype ToolResultDelta = ToolResultDelta (rd_Type: string) (rd_Text: string)

definition ToolResultDelta_json :: "ToolResultDelta \<Rightarrow> json" where
  "ToolResultDelta_json d = JObj [(''type'', JStr (rd_Type d)), (''text'', JStr (rd_Text d))]"

datatype sse_data =
    MessageStartData string MessageMeta
  | ContentBlockStartData string int ContentBlock
  | PingData string
  | ContentBlockDeltaData string int TextDelta
  | ContentBlockStopData string int
  | MessageDeltaData string MessageDeltaInfo UsageEnd
  | MessageStopData string
  | ContentBlockStartToolUseData string int ToolUseBlock
  | ContentBlockStartToolResultData string int ToolResultBlock
  | ContentBlockDeltaToolInputData string int InputJSONDelta
  | ContentBlockDeltaToolResultData string int ToolResultDelta

fun sse_data_json :: "sse_data \<Rightarrow> json" where
  "sse_data_json (MessageStartData ty m) = JObj [(''type'', JStr ty), (''message'', MessageMeta_json m)]"
| "sse_data_json (ContentBlockStartData ty i b) =
     JObj [(''type'', JStr ty), (''index'', JInt i), (''content_block'', ContentBlock_json b)]"
| "sse_data_json (PingData ty) = JObj [(''type'', JStr ty)]"
| "sse_data_json (ContentBlockDeltaData ty i d) =
     JObj [(''type'', JStr ty), (''index'', JInt i), (''delta'', TextDelta_json d)]"
| "sse_data_json (ContentBlockStopData ty i) = JObj [(''type'', JStr ty), (''index'', JInt i)]"
| "sse_data_json (MessageDeltaData ty d u) =
     JObj [(''type'', JStr ty), (''delta'', MessageDeltaInfo_json d), (''usage'', UsageEnd_json u)]"
| "sse_data_json (MessageStopData ty) = JObj [(''type'', JStr ty)]"
| "sse_data_json (ContentBlockStartToolUseData ty i b) =
     JObj [(''type'', JStr ty), (''index'', JInt i), (''content_block'', ToolUseBlock_json b)]"
| "sse_data_json (ContentBlockStartToolResultData ty i b) =
     JObj [(''type'', JStr ty), (''index'', JInt i), (''content_block'', ToolResultBlock_json b)]"
| "sse_data_json (ContentBlockDeltaToolInputData ty i d) =
     JObj [(''type'', JStr ty), (''index'', JInt i), (''delta'', InputJSONDelta_json d)]"
| "sse_data_json (ContentBlockDeltaToolResultData ty i d) =
     JObj [(''type'', JStr ty), (''index'', JInt i), (''delta'', ToolResultDelta_json d)]"

datatype Event = Event (Event_Event: string) (Event_Data: string)

definition Event_json :: "Event \<Rightarrow> json" where
  "Event_json e = JObj [(''event'', JStr (Event_Event e)), (''data'', JStr (Event_Data e))]"

section \<open>The publisher\<close>

record 'w Publisher =
  pub_mq :: "'w publish"
  pub_topic :: string

definition NewPublisher :: "'w publish \<Rightarrow> string \<Rightarrow> 'w Publisher" where
  "NewPublisher mqPublisher topic = \<lparr>pub_mq = mqPublisher, pub_topic = topic\<rparr>"

text \<open>Every struct above can be marshalled, so the first error branch of the source is never taken.\<close>

definition Publish :: "'w Publisher \<Rightarrow> string \<Rightarrow> sse_data \<Rightarrow> 'w \<Rightarrow> err \<times> 'w" where
  "Publish p eventType data w =
     (let jsonData = Marshal (sse_data_json data); event = Event eventType jsonData in
      case pub_mq p w (pub_topic p) (Inr (Event_json event)) of
        (Some e, w') \<Rightarrow> (Wrap (Some e) ''publish event'', w')
      | (None, w') \<Rightarrow> (None, w'))"

definition SendMessageStart :: "'w Publisher \<Rightarrow> string \<Rightarrow> string \<Rightarrow> string \<Rightarrow> 'w \<Rightarrow> err \<times> 'w" where
  "SendMessageStart p msgID conversationID model =
     Publish p EventTypeMessageStart
       (MessageStartData EventTypeMessageStart
         (MessageMeta msgID conversationID ContentBlockTypeMessage RoleAssistant [] model None None (UsageStart 0 0)))"

definition SendPing :: "'w Publisher \<Rightarrow> 'w \<Rightarrow> err \<times> 'w" where
  "SendPing p = Publish p EventTypePing (PingData EventTypePing)"

definition SendContentBlockStartText :: "'w Publisher \<Rightarrow> int \<Rightarrow> 'w \<Rightarrow> err \<times> 'w" where
  "SendContentBlockStartText p index =
     Publish p EventTypeContentBlockStart
       (ContentBlockStartData EventTypeContentBlockStart index (ContentBlock ContentBlockTypeText []))"

definition SendContentBlockDeltaText :: "'w Publisher \<Rightarrow> int \<Rightarrow> string \<Rightarrow> 'w \<Rightarrow> err \<times> 'w" where
  "SendContentBlockDeltaText p index txt =
     Publish p EventTypeContentBlockDelta
       (ContentBlockDeltaData EventTypeContentBlockDelta index (TextDelta ContentBlockTypeTextDelta txt))"

definition SendContentBlockStop :: "'w Publisher \<Rightarrow> int \<Rightarrow> 'w \<Rightarrow> err \<times> 'w" where
  "SendContentBlockStop p index =
     Publish p EventTypeContentBlockStop (ContentBlockStopData EventTypeContentBlockStop index)"

definition SendMessageDelta :: "'w Publisher \<Rightarrow> string \<Rightarrow> int \<Rightarrow> 'w \<Rightarrow> err \<times> 'w" where
  "SendMessageDelta p stopReason outputTokens =
     Publish p EventTypeMessageDelta
       (MessageDeltaData EventTypeMessageDelta (MessageDeltaInfo stopReason None) (UsageEnd outputTokens))"

definition SendMessageStop :: "'w Publisher \<Rightarrow> 'w \<Rightarrow> err \<times> 'w" where
  "SendMessageStop p = Publish p EventTypeMessageStop (MessageStopData EventTypeMessageStop)"

definition SendToolUseStart :: "'w Publisher \<Rightarrow> int \<Rightarrow> string \<Rightarrow> string \<Rightarrow> 'w \<Rightarrow> err \<times> 'w" where
  "SendToolUseStart p index toolUseID name =
     Publish p EventTypeContentBlockStart
       (ContentBlockStartToolUseData EventTypeContentBlockStart index
         (ToolUseBlock ContentBlockTypeToolUse toolUseID name (JObj [])))"

definition SendToolInputDelta :: "'w Publisher \<Rightarrow> int \<Rightarrow> string \<Rightarrow> 'w \<Rightarrow> err \<times> 'w" where
  "SendToolInputDelta p index inputJSON =
     Publish p EventTypeContentBlockDelta
       (ContentBlockDeltaToolInputData EventTypeContentBlockDelta index
         (InputJSONDelta ContentBlockTypeInputJSON inputJSON))"

definition SendToolResultStart :: "'w Publisher \<Rightarrow> int \<Rightarrow> string \<Rightarrow> 'w \<Rightarrow> err \<times> 'w" where
  "SendToolResultStart p index toolUseID =
     Publish p EventTypeContentBlockStart
       (ContentBlockStartToolResultData EventTypeContentBlockStart index
         (ToolResultBlock ContentBlockTypeToolResult toolUseID []))"

definition SendToolResultDelta :: "'w Publisher \<Rightarrow> int \<Rightarrow> string \<Rightarrow> 'w \<Rightarrow> err \<times> 'w" where
  "SendToolResultDelta p index txt =
     Publish p EventTypeContentBlockDelta
       (ContentBlockDeltaToolResultData EventTypeContentBlockDelta index
         (ToolResultDelta ContentBlockTypeJSONPartial txt))"

text \<open>\<open>if err := f(); err != nil { return err }; return g()\<close>\<close>

definition and_then :: "('w \<Rightarrow> err \<times> 'w) \<Rightarrow> ('w \<Rightarrow> err \<times> 'w) \<Rightarrow> 'w \<Rightarrow> err \<times> 'w" where
  "and_then f g w = (case f w of (Some e, w') \<Rightarrow> (Some e, w') | (None, w') \<Rightarrow> g w')"

definition SendStreamPreamble :: "'w Publisher \<Rightarrow> string \<Rightarrow> string \<Rightarrow> string \<Rightarrow> 'w \<Rightarrow> err \<times> 'w" where
  "SendStreamPreamble p msgID conversationID model =
     and_then (SendMessageStart p msgID conversationID model) (SendPing p)"

definition SendStreamEpilogue :: "'w Publisher \<Rightarrow> int \<Rightarrow> 'w \<Rightarrow> err \<times> 'w" where
  "SendStreamEpilogue p outputTokens =
     and_then (SendMessageDelta p StopReasonEndTurn outputTokens) (SendMessageStop p)"

definition SendToolUseBlock :: "'w Publisher \<Rightarrow> int \<Rightarrow> string \<Rightarrow> string \<Rightarrow> string \<Rightarrow> 'w \<Rightarrow> err \<times> 'w" where
  "SendToolUseBlock p index toolUseID name inputJSON =
     and_then (SendToolUseStart p index toolUseID name)
       (and_then (SendToolInputDelta p index inputJSON) (SendContentBlockStop p index))"

definition SendToolResultBlock :: "'w Publisher \<Rightarrow> int \<Rightarrow> string \<Rightarrow> string \<Rightarrow> 'w \<Rightarrow> err \<times> 'w" where
  "SendToolResultBlock p index toolUseID resultText =
     and_then (SendToolResultStart p index toolUseID)
       (and_then (SendToolResultDelta p index resultText) (SendContentBlockStop p index))"

lemmas send_defs = SendMessageStart_def SendPing_def SendContentBlockStartText_def SendContentBlockDeltaText_def
  SendContentBlockStop_def SendMessageDelta_def SendMessageStop_def SendToolUseStart_def SendToolInputDelta_def
  SendToolResultStart_def SendToolResultDelta_def

section \<open>Reading an event back\<close>

text \<open>A consumer decodes the message into an Event and the data of the Event into a document.\<close>

definition read_event :: "string \<Rightarrow> (string \<times> json) option" where
  "read_event payload =
     (case Unmarshal payload of
        Some (JObj [(k1, JStr e), (k2, JStr d)]) \<Rightarrow>
          if k1 = ''event'' \<and> k2 = ''data'' then map_option (\<lambda>v. (e, v)) (Unmarshal d) else None
      | _ \<Rightarrow> None)"

definition payload :: "string \<Rightarrow> sse_data \<Rightarrow> string" where
  "payload eventType data = Marshal (Event_json (Event eventType (Marshal (sse_data_json data))))"

fun sse_ok :: "sse_data \<Rightarrow> bool" where
  "sse_ok (MessageStartData ty m) = list_all (\<lambda>v. json_ok v \<and> nests_within (maxNestingDepth - 3) v) (mm_Content m)"
| "sse_ok (ContentBlockStartToolUseData ty i b) = (json_ok (tu_Input b) \<and> nests_within (maxNestingDepth - 2) (tu_Input b))"
| "sse_ok _ = True"

lemmas sse_json_defs = UsageStart_json_def MessageMeta_json_def ContentBlock_json_def TextDelta_json_def
  MessageDeltaInfo_json_def UsageEnd_json_def ToolUseBlock_json_def ToolResultBlock_json_def
  InputJSONDelta_json_def ToolResultDelta_json_def opt_json_def omitempty_def

lemma json_ok_sse: "sse_ok d \<Longrightarrow> json_ok (sse_data_json d)"
  by (cases d) (simp_all add: sse_json_defs list_all_iff split: option.split)

lemma sse_nesting: "sse_ok d \<Longrightarrow> nests_within maxNestingDepth (sse_data_json d)"
  by (cases d) (simp_all add: sse_json_defs maxNestingDepth_def JInt_def list_all_iff split: option.split)

lemma sanitize_ascii: "list_all (\<lambda>c. byte c < 0x80) s \<Longrightarrow> sanitize s = s"
  by (simp add: sanitize_valid ValidString_ascii)

lemma read_event_payload:
  assumes "sse_ok d" "ValidString eventType"
  shows "read_event (payload eventType d) = Some (eventType, norm (sse_data_json d))"
proof -
  have j: "json_ok (sse_data_json d)" by (rule json_ok_sse [OF assms(1)])
  have "Unmarshal (payload eventType d) = Some (norm (Event_json (Event eventType (Marshal (sse_data_json d)))))"
    unfolding payload_def by (rule Unmarshal_Marshal) (simp_all add: Event_json_def maxNestingDepth_def)
  also have "norm (Event_json (Event eventType (Marshal (sse_data_json d))))
      = JObj [(''event'', JStr eventType), (''data'', JStr (Marshal (sse_data_json d)))]"
    using assms(2) Marshal_sanitized [OF j] by (simp add: Event_json_def sanitize_valid sanitize_ascii)
  finally show ?thesis using Unmarshal_Marshal [OF j sse_nesting [OF assms(1)]] by (simp add: read_event_def)
qed

context mq_publisher
begin

lemma Publish_ok:
  assumes "pub_mq p = publish" "Publish p ty d w = (None, w')"
  shows "topics w' = topics w @ [(pub_topic p, payload ty d)]"
proof -
  have "publish w (pub_topic p) (Inr (Event_json (Event ty (Marshal (sse_data_json d))))) = (None, w')"
    using assms by (auto simp: Publish_def Let_def split: prod.splits option.splits)
  from publish_ok [OF this] show ?thesis by (auto simp: payload_def)
qed

end

text \<open>A publisher for which a failed call is a call that stored nothing.\<close>

locale strict_publisher = mq_publisher +
  assumes publish_err_strict: "publish w t v = (Some e, w') \<Longrightarrow> topics w' = topics w"
begin

lemma Publish_err:
  assumes "pub_mq p = publish" "Publish p ty d w = (Some e, w')"
  shows "topics w' = topics w"
proof -
  obtain e' where "publish w (pub_topic p) (Inr (Event_json (Event ty (Marshal (sse_data_json d))))) = (Some e', w')"
    using assms by (auto simp: Publish_def Let_def split: prod.splits option.splits)
  then show ?thesis by (rule publish_err_strict)
qed

end

interpretation natsStrict: strict_publisher "nats_Publish (\<lambda>n. (f n, False))" stored for f
  by unfold_locales
    (auto simp: nats_Publish_def js_Publish_def split: sum.splits prod.splits option.splits if_splits)

end
