(* ===== verification/SseStream.thy ===== *)
theory SseStream
  imports MqSse
begin

text \<open>
  The text streamer of src/llm/mqsse/text_streamer.go, and what a reader of the topic gets to see of
  it: the events follow the protocol of content blocks, and the text of the deltas is the text that
  was written.
\<close>

section \<open>The streamer\<close>

record 'w TextStreamer =
  ts_publisher :: "'w Publisher option"
  messageBuilder :: string
  BlockIndex :: int
  blockStarted :: bool

definition NewTextStreamer :: "'w Publisher option \<Rightarrow> int \<Rightarrow> 'w TextStreamer" where
  "NewTextStreamer p startIndex =
     \<lparr>ts_publisher = p, messageBuilder = [], BlockIndex = startIndex, blockStarted = False\<rparr>"

definition TextStreamer_Text :: "'w TextStreamer \<Rightarrow> string" where
  "TextStreamer_Text s = messageBuilder s"

definition BlockStarted :: "'w TextStreamer \<Rightarrow> bool" where
  "BlockStarted s = blockStarted s"

definition WriteChunk :: "'w TextStreamer \<Rightarrow> string \<Rightarrow> 'w \<Rightarrow> err \<times> 'w TextStreamer \<times> 'w" where
  "WriteChunk s chunk w =
     (if chunk = [] then (None, s, w)
      else let s1 = s\<lparr>messageBuilder := messageBuilder s @ chunk\<rparr> in
        case ts_publisher s1 of
          None \<Rightarrow> (None, s1, w)
        | Some p \<Rightarrow>
            let (started, s2, w2) =
              (if \<not> blockStarted s1 then
                 (case SendContentBlockStartText p (BlockIndex s1) w of
                    (Some e, w') \<Rightarrow> (Wrap (Some e) ''send content block start'', s1, w')
                  | (None, w') \<Rightarrow> (None, s1\<lparr>blockStarted := True\<rparr>, w'))
               else (None, s1, w))
            in case started of
                 Some e \<Rightarrow> (Some e, s2, w2)
               | None \<Rightarrow>
                   (case SendContentBlockDeltaText p (BlockIndex s2) chunk w2 of
                      (Some e, w') \<Rightarrow> (Wrap (Some e) ''send content block delta'', s2, w')
                    | (None, w') \<Rightarrow> (None, s2, w')))"

definition CloseBlock :: "'w TextStreamer \<Rightarrow> 'w \<Rightarrow> err \<times> 'w TextStreamer \<times> 'w" where
  "CloseBlock s w =
     (if \<not> blockStarted s then (None, s, w)
      else case ts_publisher s of
        None \<Rightarrow> (None, s\<lparr>blockStarted := False, BlockIndex := BlockIndex s + 1\<rparr>, w)
      | Some p \<Rightarrow>
          (case SendContentBlockStop p (BlockIndex s) w of
             (Some e, w') \<Rightarrow> (Wrap (Some e) ''send content block stop'', s, w')
           | (None, w') \<Rightarrow> (None, s\<lparr>blockStarted := False, BlockIndex := BlockIndex s + 1\<rparr>, w')))"

text \<open>A use of the streamer: the results of its calls, the streamer and the world after them.\<close>

datatype ts_op = OpWrite string | OpClose

fun ts_do :: "'w TextStreamer \<Rightarrow> ts_op \<Rightarrow> 'w \<Rightarrow> err \<times> 'w TextStreamer \<times> 'w" where
  "ts_do s (OpWrite chunk) w = WriteChunk s chunk w"
| "ts_do s OpClose w = CloseBlock s w"

fun ts_run :: "'w TextStreamer \<Rightarrow> ts_op list \<Rightarrow> 'w \<Rightarrow> err list \<times> 'w TextStreamer \<times> 'w" where
  "ts_run s [] w = ([], s, w)"
| "ts_run s (op # ops) w =
     (let (e, s1, w1) = ts_do s op w; (es, s2, w2) = ts_run s1 ops w1 in (e # es, s2, w2))"

fun op_text :: "ts_op \<Rightarrow> string" where
  "op_text (OpWrite chunk) = chunk"
| "op_text OpClose = []"

section \<open>The protocol of content blocks\<close>

fun field :: "string \<Rightarrow> json \<Rightarrow> json option" where
  "field k (JObj fs) = map_of fs k"
| "field k _ = None"

text \<open>
  The state of a reader: the index of the block that is open or comes next, and whether it is open.
  A block is started, gets its deltas and is stopped, all with its index; the next one has the next
  index.
\<close>

definition block_step :: "int \<times> bool \<Rightarrow> string \<times> json \<Rightarrow> (int \<times> bool) option" where
  "block_step st ev =
     (let (i, opened) = st; (ty, v) = ev in
      if field ''type'' v \<noteq> Some (JStr ty) \<or> field ''index'' v \<noteq> Some (JInt i) then None
      else if ty = EventTypeContentBlockStart \<and> \<not> opened then Some (i, True)
      else if ty = EventTypeContentBlockDelta \<and> opened then Some (i, True)
      else if ty = EventTypeContentBlockStop \<and> opened then Some (i + 1, False)
      else None)"

fun block_run :: "int \<times> bool \<Rightarrow> (string \<times> json) list \<Rightarrow> (int \<times> bool) option" where
  "block_run st [] = Some st"
| "block_run st (e # es) = (case block_step st e of None \<Rightarrow> None | Some st' \<Rightarrow> block_run st' es)"

lemma block_run_append:
  "block_run st (es @ fs) = (case block_run st es of None \<Rightarrow> None | Some st' \<Rightarrow> block_run st' fs)"
  by (induction es arbitrary: st) (auto split: option.split)

text \<open>The text of a delta.\<close>

definition delta_text :: "string \<times> json \<Rightarrow> string" where
  "delta_text ev =
     (case ev of (ty, v) \<Rightarrow>
        if ty = EventTypeContentBlockDelta then
          (case field ''delta'' v of
             Some d \<Rightarrow> (case field ''text'' d of Some (JStr s) \<Rightarrow> s | _ \<Rightarrow> [])
           | None \<Rightarrow> [])
        else [])"

text \<open>The events a reader gets from the messages of a topic; None if one cannot be read.\<close>

fun read_all :: "string list \<Rightarrow> (string \<times> json) list option" where
  "read_all [] = Some []"
| "read_all (m # ms) =
     (case (read_event m, read_all ms) of (Some e, Some es) \<Rightarrow> Some (e # es) | _ \<Rightarrow> None)"

lemma read_all_append:
  "read_all ms = Some es \<Longrightarrow> read_all ns = Some fs \<Longrightarrow> read_all (ms @ ns) = Some (es @ fs)"
  by (induction ms arbitrary: es) (auto split: option.splits)

lemma read_start:
  "read_event (payload EventTypeContentBlockStart (ContentBlockStartData EventTypeContentBlockStart i (ContentBlock ContentBlockTypeText [])))
   = Some (EventTypeContentBlockStart, JObj [(''type'', JStr EventTypeContentBlockStart), (''index'', JInt i),
       (''content_block'', JObj [(''type'', JStr ContentBlockTypeText)])])"
  by (subst read_event_payload) (simp_all add: ValidString_ascii sse_json_defs sanitize_ascii del: ValidString.simps(2))

lemma read_delta:
  "read_event (payload EventTypeContentBlockDelta (ContentBlockDeltaData EventTypeContentBlockDelta i (TextDelta ContentBlockTypeTextDelta chunk)))
   = Some (EventTypeContentBlockDelta, JObj [(''type'', JStr EventTypeContentBlockDelta), (''index'', JInt i),
       (''delta'', JObj [(''type'', JStr ContentBlockTypeTextDelta), (''text'', JStr (sanitize chunk))])])"
  by (subst read_event_payload) (simp_all add: ValidString_ascii sse_json_defs sanitize_ascii del: ValidString.simps(2))

lemma read_stop:
  "read_event (payload EventTypeContentBlockStop (ContentBlockStopData EventTypeContentBlockStop i))
   = Some (EventTypeContentBlockStop, JObj [(''type'', JStr EventTypeContentBlockStop), (''index'', JInt i)])"
  by (subst read_event_payload) (simp_all add: ValidString_ascii sse_json_defs sanitize_ascii del: ValidString.simps(2))

section \<open>What a use of the streamer publishes\<close>

text \<open>
  What a call adds to the topic: messages that can be read, that move the reader's state from the
  streamer's before the call to the one after it, and that carry the text \<open>chunk\<close>.
\<close>

definition adds :: "('w \<Rightarrow> (string \<times> string) list) \<Rightarrow> string \<Rightarrow> 'w \<Rightarrow> 'w \<Rightarrow> int \<times> bool \<Rightarrow> int \<times> bool \<Rightarrow> string \<Rightarrow> bool" where
  "adds topics t w w' st st' chunk \<longleftrightarrow>
     (\<exists>ms es. topics w' = topics w @ map (Pair t) ms \<and> read_all ms = Some es
        \<and> block_run st es = Some st' \<and> concat (map delta_text es) = chunk)"

lemma adds_nothing: "topics w' = topics w \<Longrightarrow> adds topics t w w' st st []"
  unfolding adds_def by (intro exI [of _ "[]"]) simp

lemma adds_one:
  "topics w' = topics w @ [(t, m)] \<Longrightarrow> read_event m = Some e \<Longrightarrow> block_step st e = Some st' \<Longrightarrow>
   adds topics t w w' st st' (delta_text e)"
  unfolding adds_def by (intro exI [of _ "[m]"] exI [of _ "[e]"]) simp

lemma adds_trans:
  assumes "adds topics t w w1 st st1 a" "adds topics t w1 w2 st1 st2 b"
  shows "adds topics t w w2 st st2 (a @ b)"
proof -
  obtain ms es where 1: "topics w1 = topics w @ map (Pair t) ms" "read_all ms = Some es"
      "block_run st es = Some st1" "concat (map delta_text es) = a"
    using assms(1) by (auto simp: adds_def)
  obtain ns fs where 2: "topics w2 = topics w1 @ map (Pair t) ns" "read_all ns = Some fs"
      "block_run st1 fs = Some st2" "concat (map delta_text fs) = b"
    using assms(2) by (auto simp: adds_def)
  show ?thesis
    unfolding adds_def using 1 2 read_all_append [OF 1(2) 2(2)]
    by (intro exI [of _ "ms @ ns"] exI [of _ "es @ fs"]) (simp add: block_run_append)
qed

abbreviation reader :: "'w TextStreamer \<Rightarrow> int \<times> bool" where
  "reader s \<equiv> (BlockIndex s, blockStarted s)"

context strict_publisher
begin

lemma start_adds:
  assumes "pub_mq p = publish" "SendContentBlockStartText p i w = (r, w')"
  shows "adds topics (pub_topic p) w w' (i, False) (i, r = None) []"
proof (cases r)
  case None
  have "topics w' = topics w @ [(pub_topic p, payload EventTypeContentBlockStart
      (ContentBlockStartData EventTypeContentBlockStart i (ContentBlock ContentBlockTypeText [])))]"
    using assms None by (intro Publish_ok) (simp_all add: SendContentBlockStartText_def)
  from adds_one [where topics = topics, OF this read_start, of "(i, False)" "(i, True)"] show ?thesis
    using None by (simp add: block_step_def delta_text_def)
next
  case (Some e)
  then have "topics w' = topics w"
    using Publish_err [of p] assms by (simp add: SendContentBlockStartText_def)
  then show ?thesis using Some by (simp add: adds_nothing)
qed

lemma delta_adds:
  assumes "pub_mq p = publish" "SendContentBlockDeltaText p i chunk w = (r, w')"
  shows "adds topics (pub_topic p) w w' (i, True) (i, True) (if r = None then sanitize chunk else [])"
proof (cases r)
  case None
  have "topics w' = topics w @ [(pub_topic p, payload EventTypeContentBlockDelta
      (ContentBlockDeltaData EventTypeContentBlockDelta i (TextDelta ContentBlockTypeTextDelta chunk)))]"
    using assms None by (intro Publish_ok) (simp_all add: SendContentBlockDeltaText_def)
  from adds_one [where topics = topics, OF this read_delta, of "(i, True)" "(i, True)"] show ?thesis
    using None by (simp add: block_step_def delta_text_def)
next
  case (Some e)
  then have "topics w' = topics w"
    using Publish_err [of p] assms by (simp add: SendContentBlockDeltaText_def)
  then show ?thesis using Some by (simp add: adds_nothing)
qed

lemma stop_adds:
  assumes "pub_mq p = publish" "SendContentBlockStop p i w = (r, w')"
  shows "adds topics (pub_topic p) w w' (i, True) (if r = None then (i + 1, False) else (i, True)) []"
proof (cases r)
  case None
  have "topics w' = topics w @ [(pub_topic p, payload EventTypeContentBlockStop
      (ContentBlockStopData EventTypeContentBlockStop i))]"
    using assms None by (intro Publish_ok) (simp_all add: SendContentBlockStop_def)
  from adds_one [where topics = topics, OF this read_stop, of "(i, True)" "(i + 1, False)"] show ?thesis
    using None by (simp add: block_step_def delta_text_def)
next
  case (Some e)
  then have "topics w' = topics w"
    using Publish_err [of p] assms by (simp add: SendContentBlockStop_def)
  then show ?thesis using Some by (simp add: adds_nothing)
qed

lemma WriteChunk_adds:
  assumes "ts_publisher s = Some p" "pub_mq p = publish" "WriteChunk s chunk w = (r, s', w')"
  shows "adds topics (pub_topic p) w w' (reader s) (reader s') (if r = None then sanitize chunk else [])
    \<and> ts_publisher s' = Some p \<and> messageBuilder s' = messageBuilder s @ chunk"
proof (cases "chunk = []")
  case True
  then show ?thesis using assms by (auto simp: WriteChunk_def sanitize_def intro: adds_nothing)
next
  case False
  obtain r1 w1 where start: "SendContentBlockStartText p (BlockIndex s) w = (r1, w1)" by fastforce
  obtain r2 w2 where delta1: "SendContentBlockDeltaText p (BlockIndex s) chunk w1 = (r2, w2)" by fastforce
  obtain r3 w3 where delta: "SendContentBlockDeltaText p (BlockIndex s) chunk w = (r3, w3)" by fastforce
  note a1 = start_adds [OF assms(2) start]
  note a2 = delta_adds [OF assms(2) delta1]
  note a3 = delta_adds [OF assms(2) delta]
  show ?thesis
  proof (cases "blockStarted s")
    case True
    then have "w' = w3" "r = None \<longleftrightarrow> r3 = None" "reader s' = reader s" "ts_publisher s' = Some p"
      "messageBuilder s' = messageBuilder s @ chunk"
      using assms False delta by (auto simp: WriteChunk_def Let_def split: option.splits)
    then show ?thesis using a3 True by simp
  next
    case closed: False
    show ?thesis
    proof (cases r1)
      case None
      then have "w' = w2" "r = None \<longleftrightarrow> r2 = None" "reader s' = (BlockIndex s, True)" "ts_publisher s' = Some p"
        "messageBuilder s' = messageBuilder s @ chunk"
        using assms False closed start delta1 by (auto simp: WriteChunk_def Let_def split: option.splits)
      then show ?thesis using adds_trans [OF _ a2, of w "(BlockIndex s, False)" "[]"] a1 closed None by auto
    next
      case (Some e)
      then have "w' = w1" "r \<noteq> None" "reader s' = reader s" "ts_publisher s' = Some p"
        "messageBuilder s' = messageBuilder s @ chunk"
        using assms False closed start by (auto simp: WriteChunk_def Let_def)
      then show ?thesis using a1 closed Some by auto
    qed
  qed
qed

lemma CloseBlock_adds:
  assumes "ts_publisher s = Some p" "pub_mq p = publish" "CloseBlock s w = (r, s', w')"
  shows "adds topics (pub_topic p) w w' (reader s) (reader s') []
    \<and> ts_publisher s' = Some p \<and> messageBuilder s' = messageBuilder s"
proof (cases "blockStarted s")
  case True
  obtain r1 w1 where stop: "SendContentBlockStop p (BlockIndex s) w = (r1, w1)" by fastforce
  show ?thesis
    using stop_adds [OF assms(2) stop] assms stop True
    by (cases r1) (auto simp: CloseBlock_def)
next
  case False
  then show ?thesis using assms by (auto simp: CloseBlock_def intro: adds_nothing)
qed

text \<open>The text that reaches the reader: that of the calls that succeeded.\<close>

lemma ts_run_adds:
  "ts_publisher s = Some p \<Longrightarrow> pub_mq p = publish \<Longrightarrow> ts_run s ops w = (rs, s', w') \<Longrightarrow>
   adds topics (pub_topic p) w w' (reader s) (reader s')
     (concat (map2 (\<lambda>op r. if r = None then sanitize (op_text op) else []) ops rs))
   \<and> messageBuilder s' = messageBuilder s @ concat (map op_text ops) \<and> length rs = length ops"
proof (induction ops arbitrary: s w rs)
  case Nil
  then show ?case by (auto intro: adds_nothing)
next
  case (Cons op ops)
  obtain r s1 w1 where do1: "ts_do s op w = (r, s1, w1)" by (cases "ts_do s op w")
  obtain rs2 s2 w2 where run: "ts_run s1 ops w1 = (rs2, s2, w2)" by (cases "ts_run s1 ops w1")
  have eq: "rs = r # rs2" "s' = s2" "w' = w2" using Cons.prems(3) do1 run by simp_all
  have 1: "adds topics (pub_topic p) w w1 (reader s) (reader s1) (if r = None then sanitize (op_text op) else [])
      \<and> ts_publisher s1 = Some p \<and> messageBuilder s1 = messageBuilder s @ op_text op"
  proof (cases op)
    case (OpWrite chunk)
    then show ?thesis using WriteChunk_adds [OF Cons.prems(1,2), of chunk w r s1 w1] do1 by (cases r) simp_all
  next
    case OpClose
    have "sanitize [] = []" by (simp add: sanitize_def)
    then show ?thesis using CloseBlock_adds [OF Cons.prems(1,2), of w r s1 w1] do1 OpClose by simp
  qed
  then show ?case
    using Cons.IH [of s1 w1 rs2] Cons.prems(2) run adds_trans [of topics "pub_topic p" w w1 "reader s" "reader s1"]
    unfolding eq by auto
qed

end

section \<open>Properties\<close>

text \<open>A streamer on a broker that stores exactly the messages it confirms; the calls it refuses are those with an error.\<close>

definition nats_streamer :: "(nat \<Rightarrow> err) \<Rightarrow> string \<Rightarrow> int \<Rightarrow> broker TextStreamer" where
  "nats_streamer f topic i = NewTextStreamer (Some (NewPublisher (nats_Publish (\<lambda>n. (f n, False))) topic)) i"

lemma nats_streamer_run:
  assumes "ts_run (nats_streamer f topic i) ops b = (rs, s', b')"
  shows "adds stored topic b b' (i, False) (reader s')
      (concat (map2 (\<lambda>op r. if r = None then sanitize (op_text op) else []) ops rs))
    \<and> messageBuilder s' = concat (map op_text ops) \<and> length rs = length ops"
  using natsStrict.ts_run_adds [of "nats_streamer f topic i" "NewPublisher (nats_Publish (\<lambda>n. (f n, False))) topic" f ops b rs s' b'] assms
  by (simp add: nats_streamer_def NewTextStreamer_def NewPublisher_def)

text \<open>
  C18 (invariant): whatever chunks are written and blocks closed, and whichever calls the broker
  refuses (a message it refuses is not stored), what a reader of the topic decodes follows the protocol: blocks are started, filled and
  stopped in turn under consecutive indexes, and the reader's state is the streamer's.
\<close>

theorem stream_follows_protocol:
  "case ts_run (nats_streamer f topic i) ops b of (rs, s', b') \<Rightarrow>
     \<exists>ms es. stored b' = stored b @ map (Pair topic) ms \<and> read_all ms = Some es
       \<and> block_run (i, False) es = Some (BlockIndex s', blockStarted s')"
proof -
  obtain rs s' b' where r: "ts_run (nats_streamer f topic i) ops b = (rs, s', b')"
    by (cases "ts_run (nats_streamer f topic i) ops b")
  show ?thesis using nats_streamer_run [OF r] r by (auto simp: adds_def)
qed

lemma concat_chunks:
  "length rs = length ops \<Longrightarrow> list_all (\<lambda>r. r = None) rs \<Longrightarrow> list_all (\<lambda>op. ValidString (op_text op)) ops \<Longrightarrow>
   concat (map2 (\<lambda>op r. if r = None then sanitize (op_text op) else []) ops rs) = concat (map op_text ops)"
  by (induction rs ops rule: list_induct2) (auto simp: sanitize_valid)


text \<open>
  A rune whose bytes come in two chunks is lost. The streamer's text is the valid rune, but
  each half is marshalled on its own and a reader gets two replacement characters.
\<close>

theorem split_rune_is_lost:
  "case ts_run (nats_streamer (\<lambda>_. None) topic i) [OpWrite [CHR 0xC3], OpWrite [CHR 0xA9]] b of (rs, s', b') \<Rightarrow>
     rs = [None, None] \<and> ValidString (TextStreamer_Text s') \<and>
     (\<exists>ms es. stored b' = stored b @ map (Pair topic) ms \<and> read_all ms = Some es
        \<and> concat (map delta_text es) = EncodeRune RuneError @ EncodeRune RuneError
        \<and> concat (map delta_text es) \<noteq> TextStreamer_Text s')"
proof -
  let ?ops = "[OpWrite [CHR 0xC3], OpWrite [CHR 0xA9]]"
  obtain rs s' b' where r: "ts_run (nats_streamer (\<lambda>_. None) topic i) ?ops b = (rs, s', b')"
    by (cases "ts_run (nats_streamer (\<lambda>_. None) topic i) ?ops b")
  have rs: "rs = [None, None]"
    using r by (simp add: nats_streamer_def NewTextStreamer_def NewPublisher_def WriteChunk_def
        SendContentBlockStartText_def SendContentBlockDeltaText_def Publish_def nats_Publish_def js_Publish_def Let_def)
  have "DecodeRune [CHR 0xC3] = bad_rune" "DecodeRune [CHR 0xA9] = bad_rune"
    by (simp_all add: DecodeRune.simps)
  then have s: "sanitize [CHR 0xC3] = EncodeRune RuneError" "sanitize [CHR 0xA9] = EncodeRune RuneError"
    by (simp_all add: sanitize_def runes_of.simps(2) bad_rune_def)
  have "DecodeRune [CHR 0xC3, CHR 0xA9] = (0xE9, 2)" by (simp add: DecodeRune.simps cont_def)
  then have v: "ValidString [CHR 0xC3, CHR 0xA9]" by (simp add: bad_rune_def)
  have l: "length (EncodeRune RuneError) = 3" by (simp add: EncodeRune_def encode3_def RuneError_def valid_rune_def)
  obtain ms es where e: "stored b' = stored b @ map (Pair topic) ms" "read_all ms = Some es"
      "concat (map delta_text es) = EncodeRune RuneError @ EncodeRune RuneError"
    and m: "messageBuilder s' = [CHR 0xC3, CHR 0xA9]"
    using nats_streamer_run [OF r] rs s by (auto simp: adds_def)
  have "length (EncodeRune RuneError @ EncodeRune RuneError) \<noteq> length [CHR 0xC3, CHR 0xA9]" using l by simp
  then have "EncodeRune RuneError @ EncodeRune RuneError \<noteq> [CHR 0xC3, CHR 0xA9]" by metis
  then show ?thesis using e m rs v unfolding r TextStreamer_Text_def prod.case by metis
qed

text \<open>
  A publish that reports an error may have been stored all the same: the confirmation of the broker got lost. Then the
  streamer starts a block a second time, and the reader sees the protocol broken.
\<close>

lemma unconfirmed_start_repeated:
  assumes "ts_run (NewTextStreamer (Some (NewPublisher (nats_Publish (\<lambda>n. if n = 0 then (Some e, True) else (None, False))) topic)) i)
      [OpWrite ''a'', OpWrite ''b''] \<lparr>calls = 0, stored = []\<rparr> = (rs, s', b')"
  shows "\<exists>ms es. stored b' = map (Pair topic) ms \<and> read_all ms = Some es \<and> block_run (i, False) es = None"
proof -
  let ?start = "payload EventTypeContentBlockStart (ContentBlockStartData EventTypeContentBlockStart i (ContentBlock ContentBlockTypeText []))"
  let ?delta = "payload EventTypeContentBlockDelta (ContentBlockDeltaData EventTypeContentBlockDelta i (TextDelta ContentBlockTypeTextDelta ''b''))"
  have "stored b' = map (Pair topic) [?start, ?start, ?delta]"
    using assms by (auto simp: NewTextStreamer_def NewPublisher_def WriteChunk_def SendContentBlockStartText_def
        SendContentBlockDeltaText_def Publish_def nats_Publish_def js_Publish_def payload_def Let_def)
  moreover obtain es where "read_all [?start, ?start, ?delta] = Some es" "block_run (i, False) es = None"
    by (simp add: read_start read_delta block_step_def)
  ultimately show ?thesis by blast
qed


end
