(* ===== verification/Http.thy ===== *)
theory Http
  imports Json CtxErrors
begin

text \<open>
  What the repository's HTTP clients use of the standard package net/http, and the constants of
  src/http. The network is a parameter: a function from its state and a request to a response or an
  error, and the verdict of the URL parser. Clients are functions that also return the events they
  cause, so that what is sent and whether response bodies are closed can be stated.
\<close>

section \<open>Constants\<close>

abbreviation ContentTypeJSON :: string where "ContentTypeJSON \<equiv> ''application/json''"
abbreviation HeaderContentType :: string where "HeaderContentType \<equiv> ''Content-Type''"
abbreviation HeaderAuthorization :: string where "HeaderAuthorization \<equiv> ''Authorization''"
abbreviation AuthSchemeBearer :: string where "AuthSchemeBearer \<equiv> ''Bearer ''"

abbreviation StatusOK :: int where "StatusOK \<equiv> 200"
abbreviation StatusNotFound :: int where "StatusNotFound \<equiv> 404"

text \<open>\<open>ErrCodeFromHTTPStatus\<close>\<close>

definition status_codes :: "(int \<times> string) list" where
  "status_codes =
     [(400, ''BAD_REQUEST''), (401, ''UNAUTHORIZED''), (403, ''FORBIDDEN''), (404, ''NOT_FOUND''),
      (405, ''METHOD_NOT_ALLOWED''), (409, ''CONFLICT''), (410, ''GONE''), (422, ''UNPROCESSABLE_ENTITY''),
      (429, ''TOO_MANY_REQUESTS''), (500, ''INTERNAL_SERVER''), (501, ''NOT_IMPLEMENTED''), (502, ''BAD_GATEWAY''),
      (503, ''SERVICE_UNAVAILABLE''), (504, ''GATEWAY_TIMEOUT'')]"

definition ErrCodeFromHTTPStatus :: "int \<Rightarrow> string" where
  "ErrCodeFromHTTPStatus status =
     (case map_of status_codes status of None \<Rightarrow> ''INTERNAL_SERVER'' | Some code \<Rightarrow> code)"

section \<open>Requests and responses\<close>

text \<open>Header keys are written in canonical form, as the code does.\<close>

type_synonym header = "(string, string) gomap"

record http_request =
  rq_method :: string
  rq_url :: string
  rq_header :: header
  rq_body :: string

text \<open>A body is what can be read of it before its end, or before the error that ends it.\<close>

record http_response =
  StatusCode :: int
  Body :: "string \<times> err"

datatype http_event = Sent http_request | BodyClosed

record 'w network =
  parse_url :: "string \<Rightarrow> err"
  Do :: "'w \<Rightarrow> http_request \<Rightarrow> http_response res \<times> 'w"

text \<open>\<open>http.NewRequestWithContext\<close> with a known method and a context that is not nil.\<close>

definition NewRequest :: "'w network \<Rightarrow> string \<Rightarrow> string \<Rightarrow> string \<Rightarrow> http_request res" where
  "NewRequest net meth url body =
     (case parse_url net url of
        Some e \<Rightarrow> Inl e
      | None \<Rightarrow> Inr \<lparr>rq_method = meth, rq_url = url, rq_header = [], rq_body = body\<rparr>)"

definition set_header :: "string \<Rightarrow> string \<Rightarrow> http_request \<Rightarrow> http_request" where
  "set_header k v r = r\<lparr>rq_header := map_put k v (rq_header r)\<rparr>"

text \<open>\<open>io.ReadAll\<close>\<close>

definition ReadAll :: "http_response \<Rightarrow> string res" where
  "ReadAll resp = (case Body resp of (data, None) \<Rightarrow> Inr data | (_, Some e) \<Rightarrow> Inl e)"

text \<open>
  \<open>json.NewDecoder(body).Decode\<close> takes the first document of the body; \<open>into\<close> is what the Go type makes
  of a document.
\<close>

definition Decoder_Decode :: "(json \<Rightarrow> 'v res) \<Rightarrow> http_response \<Rightarrow> 'v res" where
  "Decoder_Decode into resp =
     (case Body resp of (data, e) \<Rightarrow>
        (case parse_value (2 * length data + 2) maxNestingDepth data of
           Some (v, _) \<Rightarrow> into v
         | None \<Rightarrow> Inl (case e of Some x \<Rightarrow> x | None \<Rightarrow> Foreign ''json.SyntaxError'')))"

section \<open>Decoding into structs\<close>

text \<open>
  A document is decoded into a fresh struct: a field is set by the keys that equal its name up to
  case, null leaves it as it is, and a value of another type is an error. Objects that repeat a key
  are taken to mean its last value.
\<close>

abbreviation type_error :: go_error where
  "type_error \<equiv> Foreign ''json.UnmarshalTypeError''"

definition json_fields :: "json \<Rightarrow> (string \<times> json) list res" where
  "json_fields v = (case v of JObj fs \<Rightarrow> Inr fs | JNull \<Rightarrow> Inr [] | _ \<Rightarrow> Inl type_error)"

fun json_field :: "string \<Rightarrow> (json \<Rightarrow> 'a res) \<Rightarrow> 'a \<Rightarrow> (string \<times> json) list \<Rightarrow> 'a res" where
  "json_field k d zero [] = Inr zero"
| "json_field k d zero ((k', v) # fs) =
     (if ToLower k' = ToLower k
      then (case d v of Inl e \<Rightarrow> Inl e | Inr x \<Rightarrow> json_field k d x fs)
      else json_field k d zero fs)"

definition bind_res :: "'a res \<Rightarrow> ('a \<Rightarrow> 'b res) \<Rightarrow> 'b res" where
  "bind_res r f = (case r of Inl e \<Rightarrow> Inl e | Inr x \<Rightarrow> f x)"

lemma bind_res_simps [simp]: "bind_res (Inl e) f = Inl e" "bind_res (Inr x) f = f x"
  by (simp_all add: bind_res_def)

fun into_string :: "json \<Rightarrow> string res" where
  "into_string (JStr s) = Inr s"
| "into_string JNull = Inr []"
| "into_string _ = Inl type_error"

fun into_bool :: "json \<Rightarrow> bool res" where
  "into_bool (JBool b) = Inr b"
| "into_bool JNull = Inr False"
| "into_bool _ = Inl type_error"

text \<open>An int takes an integer literal within 64 bits.\<close>

definition int_literal :: "string \<Rightarrow> int option" where
  "int_literal n =
     (case n of
        [] \<Rightarrow> None
      | c # t \<Rightarrow>
          if c = CHR ''-'' then (if t \<noteq> [] \<and> list_all is_digit t then Some (- int (atou t)) else None)
          else if list_all is_digit n then Some (int (atou n)) else None)"

fun into_int :: "json \<Rightarrow> int res" where
  "into_int (JNum n) =
     (case int_literal n of
        Some i \<Rightarrow> if - (2 ^ 63) \<le> i \<and> i < 2 ^ 63 then Inr i else Inl type_error
      | None \<Rightarrow> Inl type_error)"
| "into_int JNull = Inr 0"
| "into_int _ = Inl type_error"

text \<open>A float64 is kept as its literal.\<close>

fun into_float :: "json \<Rightarrow> string res" where
  "into_float (JNum n) = Inr n"
| "into_float JNull = Inr ''0''"
| "into_float _ = Inl type_error"

fun into_list_aux :: "(json \<Rightarrow> 'a res) \<Rightarrow> json list \<Rightarrow> 'a list res" where
  "into_list_aux d [] = Inr []"
| "into_list_aux d (v # vs) = bind_res (d v) (\<lambda>x. bind_res (into_list_aux d vs) (\<lambda>xs. Inr (x # xs)))"

fun into_list :: "(json \<Rightarrow> 'a res) \<Rightarrow> json \<Rightarrow> 'a list res" where
  "into_list d (JArr vs) = into_list_aux d vs"
| "into_list d JNull = Inr []"
| "into_list d _ = Inl type_error"

fun into_map_aux :: "(json \<Rightarrow> 'a res) \<Rightarrow> (string \<times> json) list \<Rightarrow> (string, 'a) gomap \<Rightarrow> (string, 'a) gomap res" where
  "into_map_aux d [] m = Inr m"
| "into_map_aux d ((k, v) # fs) m = bind_res (d v) (\<lambda>x. into_map_aux d fs (map_put k x m))"

fun into_map :: "(json \<Rightarrow> 'a res) \<Rightarrow> json \<Rightarrow> (string, 'a) gomap res" where
  "into_map d (JObj fs) = into_map_aux d fs []"
| "into_map d JNull = Inr []"
| "into_map d _ = Inl type_error"

definition into_ptr :: "(json \<Rightarrow> 'a res) \<Rightarrow> json \<Rightarrow> 'a option res" where
  "into_ptr d v = (if v = JNull then Inr None else bind_res (d v) (\<lambda>x. Inr (Some x)))"

text \<open>An int that was marshalled is read back.\<close>

lemma int_literal_itoa: "int_literal (itoa i) = Some i"
proof -
  have digits: "utoa n \<noteq> []" "list_all is_digit (utoa n)" for n by (simp_all add: utoa_digits)
  show ?thesis
  proof (cases "i < 0")
    case True
    then show ?thesis using digits [of "nat (- i)"] atou_utoa [of "nat (- i)"] by (simp add: itoa_def int_literal_def)
  next
    case False
    obtain c t where u: "utoa (nat i) = c # t" by (cases "utoa (nat i)") auto
    then have "is_digit c" using digits(2) [of "nat i"] by simp
    then have "c \<noteq> CHR ''-''" by (auto simp: is_digit_def)
    then show ?thesis
      using False u digits(2) [of "nat i"] atou_utoa [of "nat i"] by (simp add: itoa_def int_literal_def)
  qed
qed

lemma into_int_JInt: "- (2 ^ 63) \<le> i \<Longrightarrow> i < 2 ^ 63 \<Longrightarrow> into_int (JInt i) = Inr i"
  by (simp add: JInt_def int_literal_itoa)

section \<open>A call\<close>

text \<open>
  What every client does: make the request, send it, and hand a response to the caller. The body of
  a response is closed by the caller of the call, with or without having been read.
\<close>

datatype call_result = BadRequest go_error | NoResponse go_error | Response http_response

definition http_call :: "'w network \<Rightarrow> http_request res \<Rightarrow> 'w \<Rightarrow> call_result \<times> http_event list \<times> 'w" where
  "http_call net rq w =
     (case rq of
        Inl e \<Rightarrow> (BadRequest e, [], w)
      | Inr r \<Rightarrow>
          (case Do net w r of
             (Inl e, w') \<Rightarrow> (NoResponse e, [Sent r], w')
           | (Inr resp, w') \<Rightarrow> (Response resp, [Sent r], w')))"

end
