(* ===== verification/ClaudeCode.thy ===== *)
theory ClaudeCode
  imports Http
begin

text \<open>
  The client of src/ai/claudecode/client.go: its requests, what it makes of the responses, and the
  decoding of their bodies. A method returns its result, the events it caused on the network, and the
  state of the network.
\<close>

section \<open>Structs\<close>

record RunRequest =
  Prompt :: string
  Workspace :: string
  Model :: string
  SystemPrompt :: string
  AppendSystemPrompt :: string
  JSONSchema :: string
  Effort :: string
  OutputFormat :: string
  NoContinue :: bool
  Resume :: string
  FireAndForget :: bool

definition omit_str :: "string \<Rightarrow> string \<Rightarrow> (string \<times> json) list" where
  "omit_str k s = (if s = [] then [] else [(k, JStr s)])"

definition omit_bool :: "string \<Rightarrow> bool \<Rightarrow> (string \<times> json) list" where
  "omit_bool k b = (if b then [(k, JBool True)] else [])"

definition RunRequest_json :: "RunRequest \<Rightarrow> json" where
  "RunRequest_json r = JObj ([(''prompt'', JStr (Prompt r))] @ omit_str ''workspace'' (Workspace r) @
     omit_str ''model'' (Model r) @ omit_str ''systemPrompt'' (SystemPrompt r) @
     omit_str ''appendSystemPrompt'' (AppendSystemPrompt r) @ omit_str ''jsonSchema'' (JSONSchema r) @
     omit_str ''effort'' (Effort r) @ omit_str ''outputFormat'' (OutputFormat r) @
     omit_bool ''noContinue'' (NoContinue r) @ omit_str ''resume'' (Resume r) @
     omit_bool ''fireAndForget'' (FireAndForget r))"

datatype Usage = Usage (u_InputTokens: int) (u_OutputTokens: int) (u_CacheCreationTokens: int) (u_CacheReadTokens: int)

definition into_Usage :: "json \<Rightarrow> Usage res" where
  "into_Usage v =
     bind_res (json_fields v) (\<lambda>fs.
     bind_res (json_field ''inputTokens'' into_int 0 fs) (\<lambda>a.
     bind_res (json_field ''outputTokens'' into_int 0 fs) (\<lambda>b.
     bind_res (json_field ''cacheCreationInputTokens'' into_int 0 fs) (\<lambda>c.
     bind_res (json_field ''cacheReadInputTokens'' into_int 0 fs) (\<lambda>d.
     Inr (Usage a b c d))))))"

datatype ModelUsage = ModelUsage (mu_InputTokens: int) (mu_OutputTokens: int) (mu_CacheReadTokens: int)
  (mu_CacheCreationTokens: int) (mu_CostUSD: string) (mu_ContextWindow: int) (mu_MaxOutputTokens: int)

definition into_ModelUsage :: "json \<Rightarrow> ModelUsage res" where
  "into_ModelUsage v =
     bind_res (json_fields v) (\<lambda>fs.
     bind_res (json_field ''inputTokens'' into_int 0 fs) (\<lambda>a.
     bind_res (json_field ''outputTokens'' into_int 0 fs) (\<lambda>b.
     bind_res (json_field ''cacheReadInputTokens'' into_int 0 fs) (\<lambda>c.
     bind_res (json_field ''cacheCreationInputTokens'' into_int 0 fs) (\<lambda>d.
     bind_res (json_field ''costUSD'' into_float ''0'' fs) (\<lambda>e.
     bind_res (json_field ''contextWindow'' into_int 0 fs) (\<lambda>f.
     bind_res (json_field ''maxOutputTokens'' into_int 0 fs) (\<lambda>g.
     Inr (ModelUsage a b c d e f g)))))))))"

datatype ToolUse = ToolUse (tool_ID: string) (tool_Name: string) (tool_Input: "json option")

text \<open>A \<open>json.RawMessage\<close> takes any document, null included, and is nil when it is absent.\<close>

definition into_raw :: "json \<Rightarrow> json option res" where
  "into_raw v = Inr (Some v)"

definition into_ToolUse :: "json \<Rightarrow> ToolUse res" where
  "into_ToolUse v =
     bind_res (json_fields v) (\<lambda>fs.
     bind_res (json_field ''id'' into_string [] fs) (\<lambda>a.
     bind_res (json_field ''name'' into_string [] fs) (\<lambda>b.
     bind_res (json_field ''input'' into_raw None fs) (\<lambda>c.
     Inr (ToolUse a b c)))))"

datatype Iteration = Iteration (it_TurnNumber: int) (it_Content: "json option") (it_ToolUses: "ToolUse list")
  (it_Usage: "Usage option")

definition into_Iteration :: "json \<Rightarrow> Iteration res" where
  "into_Iteration v =
     bind_res (json_fields v) (\<lambda>fs.
     bind_res (json_field ''turnNumber'' into_int 0 fs) (\<lambda>a.
     bind_res (json_field ''content'' into_raw None fs) (\<lambda>b.
     bind_res (json_field ''toolUses'' (into_list into_ToolUse) [] fs) (\<lambda>c.
     bind_res (json_field ''usage'' (into_ptr into_Usage) None fs) (\<lambda>d.
     Inr (Iteration a b c d))))))"

datatype VerboseTurn = VerboseTurn (vt_Role: string) (vt_Content: "json option list")

definition into_VerboseTurn :: "json \<Rightarrow> VerboseTurn res" where
  "into_VerboseTurn v =
     bind_res (json_fields v) (\<lambda>fs.
     bind_res (json_field ''role'' into_string [] fs) (\<lambda>a.
     bind_res (json_field ''content'' (into_list into_raw) [] fs) (\<lambda>b.
     Inr (VerboseTurn a b))))"

datatype VerboseSystem = VerboseSystem (vs_SessionID: string) (vs_Model: string) (vs_Cwd: string) (vs_Tools: "string list")

definition into_VerboseSystem :: "json \<Rightarrow> VerboseSystem res" where
  "into_VerboseSystem v =
     bind_res (json_fields v) (\<lambda>fs.
     bind_res (json_field ''sessionId'' into_string [] fs) (\<lambda>a.
     bind_res (json_field ''model'' into_string [] fs) (\<lambda>b.
     bind_res (json_field ''cwd'' into_string [] fs) (\<lambda>c.
     bind_res (json_field ''tools'' (into_list into_string) [] fs) (\<lambda>d.
     Inr (VerboseSystem a b c d))))))"

datatype RunResult = RunResult (rr_Type: string) (rr_Subtype: string) (rr_IsError: bool) (rr_Result: string)
  (rr_NumTurns: int) (rr_DurationMS: int) (rr_TotalCost: string) (rr_SessionID: string) (rr_Usage: "Usage option")
  (rr_ModelUsage: "(string, ModelUsage) gomap") (rr_PermissionDenials: "string list")
  (rr_Iterations: "Iteration list") (rr_Turns: "VerboseTurn list") (rr_System: "VerboseSystem option")

definition into_RunResult :: "json \<Rightarrow> RunResult res" where
  "into_RunResult v =
     bind_res (json_fields v) (\<lambda>fs.
     bind_res (json_field ''type'' into_string [] fs) (\<lambda>ty.
     bind_res (json_field ''subtype'' into_string [] fs) (\<lambda>sub.
     bind_res (json_field ''isError'' into_bool False fs) (\<lambda>ie.
     bind_res (json_field ''result'' into_string [] fs) (\<lambda>rs.
     bind_res (json_field ''numTurns'' into_int 0 fs) (\<lambda>nt.
     bind_res (json_field ''durationMs'' into_int 0 fs) (\<lambda>dm.
     bind_res (json_field ''totalCostUsd'' into_float ''0'' fs) (\<lambda>tc.
     bind_res (json_field ''sessionId'' into_string [] fs) (\<lambda>si.
     bind_res (json_field ''usage'' (into_ptr into_Usage) None fs) (\<lambda>us.
     bind_res (json_field ''modelUsage'' (into_map into_ModelUsage) [] fs) (\<lambda>mu.
     bind_res (json_field ''permissionDenials'' (into_list into_string) [] fs) (\<lambda>pd.
     bind_res (json_field ''iterations'' (into_list into_Iteration) [] fs) (\<lambda>its.
     bind_res (json_field ''turns'' (into_list into_VerboseTurn) [] fs) (\<lambda>ts.
     bind_res (json_field ''system'' (into_ptr into_VerboseSystem) None fs) (\<lambda>sy.
     Inr (RunResult ty sub ie rs nt dm tc si us mu pd its ts sy))))))))))))))))"

datatype FileInfo = FileInfo (fi_Status: string) (fi_Path: string) (fi_Size: int)

definition into_FileInfo :: "json \<Rightarrow> FileInfo res" where
  "into_FileInfo v =
     bind_res (json_fields v) (\<lambda>fs.
     bind_res (json_field ''status'' into_string [] fs) (\<lambda>a.
     bind_res (json_field ''path'' into_string [] fs) (\<lambda>b.
     bind_res (json_field ''size'' into_int 0 fs) (\<lambda>c.
     Inr (FileInfo a b c)))))"

section \<open>The client\<close>

record Client =
  baseURL :: string
  token :: string
  timeout :: int

type_synonym Option' = "Client \<Rightarrow> Client"

definition defaultTimeout :: int where
  "defaultTimeout = 5 * 60 * 1000000000"

definition WithToken :: "string \<Rightarrow> Option'" where
  "WithToken t c = c\<lparr>token := t\<rparr>"

definition WithTimeout :: "int \<Rightarrow> Option'" where
  "WithTimeout d c = c\<lparr>timeout := d\<rparr>"

definition claude_New :: "string \<Rightarrow> Option' list \<Rightarrow> Client" where
  "claude_New url opts =
     foldl (\<lambda>c opt. opt c) \<lparr>baseURL = TrimRightByte url (CHR ''/''), token = [], timeout = defaultTimeout\<rparr> opts"

definition setHeaders :: "Client \<Rightarrow> http_request \<Rightarrow> http_request" where
  "setHeaders c req =
     (let req1 = set_header HeaderContentType ContentTypeJSON req in
      if token c \<noteq> [] then set_header HeaderAuthorization (AuthSchemeBearer @ token c) req1 else req1)"

definition filesURL :: "Client \<Rightarrow> string \<Rightarrow> string" where
  "filesURL c path = baseURL c @ ''/files/'' @ TrimLeftByte path (CHR ''/'')"

definition authorized_request :: "'w network \<Rightarrow> Client \<Rightarrow> string \<Rightarrow> string \<Rightarrow> string \<Rightarrow> http_request res" where
  "authorized_request net c meth url body = map_sum id (setHeaders c) (NewRequest net meth url body)"

definition claude_Run :: "'w network \<Rightarrow> Client \<Rightarrow> RunRequest \<Rightarrow> 'w \<Rightarrow> RunResult res \<times> http_event list \<times> 'w" where
  "claude_Run net c req w =
     (let req' = (if Model req = [] then req\<lparr>Model := ''haiku''\<rparr> else req);
          body = Marshal (RunRequest_json req') in
      case http_call net (authorized_request net c ''POST'' (baseURL c @ ''/run'') body) w of
        (BadRequest e, ev, w') \<Rightarrow> (Inl (wrapped e ''create run request''), ev, w')
      | (NoResponse e, ev, w') \<Rightarrow> (Inl (wrapped e ''execute run request''), ev, w')
      | (Response resp, ev, w') \<Rightarrow>
          (if StatusCode resp \<noteq> StatusOK
           then Inl (ctx_New (''run failed: HTTP '' @ itoa (StatusCode resp) @ '': '' @ fst (Body resp)))
           else (case Decoder_Decode into_RunResult resp of
                   Inl e \<Rightarrow> Inl (wrapped e ''decode run result'')
                 | Inr result \<Rightarrow> Inr result),
           ev @ [BodyClosed], w'))"

definition claude_UploadFile :: "'w network \<Rightarrow> Client \<Rightarrow> string \<Rightarrow> string \<Rightarrow> 'w \<Rightarrow> FileInfo res \<times> http_event list \<times> 'w" where
  "claude_UploadFile net c filePath content w =
     (case http_call net (authorized_request net c ''PUT'' (filesURL c filePath) content) w of
        (BadRequest e, ev, w') \<Rightarrow> (Inl (wrapped e ''create upload request''), ev, w')
      | (NoResponse e, ev, w') \<Rightarrow> (Inl (wrapped e ''upload file''), ev, w')
      | (Response resp, ev, w') \<Rightarrow>
          (if StatusCode resp \<noteq> StatusOK
           then Inl (ctx_New (''upload failed: HTTP '' @ itoa (StatusCode resp)))
           else (case Decoder_Decode into_FileInfo resp of
                   Inl e \<Rightarrow> Inl (wrapped e ''decode upload response'')
                 | Inr info \<Rightarrow> Inr info),
           ev @ [BodyClosed], w'))"

definition claude_DownloadFile :: "'w network \<Rightarrow> Client \<Rightarrow> string \<Rightarrow> 'w \<Rightarrow> string res \<times> http_event list \<times> 'w" where
  "claude_DownloadFile net c filePath w =
     (case http_call net (authorized_request net c ''GET'' (filesURL c filePath) []) w of
        (BadRequest e, ev, w') \<Rightarrow> (Inl (wrapped e ''create download request''), ev, w')
      | (NoResponse e, ev, w') \<Rightarrow> (Inl (wrapped e ''download file''), ev, w')
      | (Response resp, ev, w') \<Rightarrow>
          (if StatusCode resp = StatusNotFound then Inl (ctx_New (''file not found: '' @ filePath))
           else if StatusCode resp \<noteq> StatusOK
           then Inl (ctx_New (''download failed: HTTP '' @ itoa (StatusCode resp)))
           else (case ReadAll resp of
                   Inl e \<Rightarrow> Inl (wrapped e ''read file body'')
                 | Inr data \<Rightarrow> Inr data),
           ev @ [BodyClosed], w'))"

definition claude_DeleteFile :: "'w network \<Rightarrow> Client \<Rightarrow> string \<Rightarrow> 'w \<Rightarrow> err \<times> http_event list \<times> 'w" where
  "claude_DeleteFile net c filePath w =
     (case http_call net (authorized_request net c ''DELETE'' (filesURL c filePath) []) w of
        (BadRequest e, ev, w') \<Rightarrow> (Some (wrapped e ''create delete request''), ev, w')
      | (NoResponse e, ev, w') \<Rightarrow> (Some (wrapped e ''delete file''), ev, w')
      | (Response resp, ev, w') \<Rightarrow>
          (if StatusCode resp \<noteq> StatusOK
           then Some (ctx_New (''delete failed: HTTP '' @ itoa (StatusCode resp)))
           else None,
           ev @ [BodyClosed], w'))"

text \<open>The health check sends neither content type nor token.\<close>

definition claude_Health :: "'w network \<Rightarrow> Client \<Rightarrow> 'w \<Rightarrow> err \<times> http_event list \<times> 'w" where
  "claude_Health net c w =
     (case http_call net (NewRequest net ''GET'' (baseURL c @ ''/health'') []) w of
        (BadRequest e, ev, w') \<Rightarrow> (Some (wrapped e ''create health request''), ev, w')
      | (NoResponse e, ev, w') \<Rightarrow> (Some (wrapped e ''health check''), ev, w')
      | (Response resp, ev, w') \<Rightarrow>
          (if StatusCode resp \<noteq> StatusOK
           then Some (ctx_New (''health check failed: HTTP '' @ itoa (StatusCode resp)))
           else None,
           ev @ [BodyClosed], w'))"

section \<open>What is sent\<close>

datatype claude_op = OpRun RunRequest | OpUpload string string | OpDownload string | OpDelete string | OpHealth

fun claude_events :: "'w network \<Rightarrow> Client \<Rightarrow> claude_op \<Rightarrow> 'w \<Rightarrow> http_event list" where
  "claude_events net c (OpRun r) w = fst (snd (claude_Run net c r w))"
| "claude_events net c (OpUpload p d) w = fst (snd (claude_UploadFile net c p d w))"
| "claude_events net c (OpDownload p) w = fst (snd (claude_DownloadFile net c p w))"
| "claude_events net c (OpDelete p) w = fst (snd (claude_DeleteFile net c p w))"
| "claude_events net c OpHealth w = fst (snd (claude_Health net c w))"

definition well_behaved :: "'w network \<Rightarrow> 'w \<Rightarrow> http_request \<Rightarrow> http_event list \<Rightarrow> bool" where
  "well_behaved net w r evs \<longleftrightarrow> evs = Sent r # (if isl (fst (Do net w r)) then [] else [BodyClosed])"

definition sends_token :: "Client \<Rightarrow> bool \<Rightarrow> http_request \<Rightarrow> bool" where
  "sends_token c auth r \<longleftrightarrow>
     map_of (rq_header r) HeaderAuthorization = (if auth \<and> token c \<noteq> [] then Some (''Bearer '' @ token c) else None)"

lemma http_call_cases:
  obtains (bad) e where "rq = Inl e" "http_call net rq w = (BadRequest e, [], w)"
  | (none) r e w' where "rq = Inr r" "Do net w r = (Inl e, w')" "http_call net rq w = (NoResponse e, [Sent r], w')"
  | (resp) r x w' where "rq = Inr r" "Do net w r = (Inr x, w')" "http_call net rq w = (Response x, [Sent r], w')"
proof (cases rq)
  case (Inr r)
  obtain x w' where "Do net w r = (x, w')" by fastforce
  then show ?thesis using Inr none resp by (cases x) (auto simp: http_call_def)
qed (auto simp: http_call_def intro: bad)

lemma setHeaders_token: "rq_header r = [] \<Longrightarrow> sends_token c True (setHeaders c r)"
  by (simp add: setHeaders_def set_header_def sends_token_def Let_def)

lemma authorized_requestE:
  assumes "authorized_request net c meth url body = Inr r"
  shows "sends_token c True r \<and> rq_url r = url \<and> rq_method r = meth \<and> rq_body r = body"
proof -
  obtain r0 where "NewRequest net meth url body = Inr r0" "r = setHeaders c r0"
    using assms by (cases "NewRequest net meth url body") (auto simp: authorized_request_def)
  then show ?thesis
    using setHeaders_token [of r0 c]
    by (auto simp: NewRequest_def setHeaders_def set_header_def Let_def split: option.splits if_splits)
qed

lemma NewRequest_plain:
  "NewRequest net meth url body = Inr r \<Longrightarrow> sends_token c False r \<and> rq_url r = url \<and> rq_method r = meth \<and> rq_body r = body"
  by (auto simp: NewRequest_def sends_token_def split: option.splits)

text \<open>Every method is a call followed by the closing of the body.\<close>

lemma claude_events_call:
  "\<exists>auth meth path body. auth = (op \<noteq> OpHealth) \<and>
     (let rq = (if auth then authorized_request net c meth (baseURL c @ path) body else NewRequest net meth (baseURL c @ path) body)
      in claude_events net c op w =
           (case http_call net rq w of (Response _, ev, _) \<Rightarrow> ev @ [BodyClosed] | (_, ev, _) \<Rightarrow> ev))"
proof (cases op)
  case (OpRun r)
  let ?b = "Marshal (RunRequest_json (if Model r = [] then r\<lparr>Model := ''haiku''\<rparr> else r))"
  show ?thesis
    by (rule exI [of _ True], rule exI [of _ "''POST''"], rule exI [of _ "''/run''"], rule exI [of _ ?b])
      (simp add: OpRun claude_Run_def Let_def split: call_result.split prod.split)
next
  case (OpUpload p d)
  show ?thesis
    by (rule exI [of _ True], rule exI [of _ "''PUT''"], rule exI [of _ "''/files/'' @ TrimLeftByte p (CHR ''/'')"], rule exI [of _ d])
      (simp add: OpUpload claude_UploadFile_def filesURL_def Let_def split: call_result.split prod.split)
next
  case (OpDownload p)
  show ?thesis
    by (rule exI [of _ True], rule exI [of _ "''GET''"], rule exI [of _ "''/files/'' @ TrimLeftByte p (CHR ''/'')"], rule exI [of _ "[]"])
      (simp add: OpDownload claude_DownloadFile_def filesURL_def Let_def split: call_result.split prod.split)
next
  case (OpDelete p)
  show ?thesis
    by (rule exI [of _ True], rule exI [of _ "''DELETE''"], rule exI [of _ "''/files/'' @ TrimLeftByte p (CHR ''/'')"], rule exI [of _ "[]"])
      (simp add: OpDelete claude_DeleteFile_def filesURL_def Let_def split: call_result.split prod.split)
next
  case OpHealth
  show ?thesis
    by (rule exI [of _ False], rule exI [of _ "''GET''"], rule exI [of _ "''/health''"], rule exI [of _ "[]"])
      (simp add: OpHealth claude_Health_def Let_def split: call_result.split prod.split)
qed

text \<open>
  C20 (safety): whatever method is called, the client sends at most one request, to an address under
  its base URL; the request carries the token if the client has one and the method is not Health, and carries no
  credentials otherwise; and the body of the response is closed exactly when there is a
  response.
\<close>

theorem claude_requests:
  "claude_events net c op w = []
   \<or> (\<exists>r path. well_behaved net w r (claude_events net c op w) \<and> rq_url r = baseURL c @ path
        \<and> sends_token c (op \<noteq> OpHealth) r)"
proof -
  obtain auth meth path body where auth: "auth = (op \<noteq> OpHealth)"
    and ev: "claude_events net c op w = (case http_call net
        (if auth then authorized_request net c meth (baseURL c @ path) body else NewRequest net meth (baseURL c @ path) body) w
        of (Response _, ev, _) \<Rightarrow> ev @ [BodyClosed] | (_, ev, _) \<Rightarrow> ev)"
    using claude_events_call [of op net c w] by (auto simp: Let_def)
  let ?rq = "if auth then authorized_request net c meth (baseURL c @ path) body else NewRequest net meth (baseURL c @ path) body"
  have ok: "sends_token c auth r \<and> rq_url r = baseURL c @ path" if "?rq = Inr r" for r
    using that authorized_requestE [of net c meth "baseURL c @ path" body r]
      NewRequest_plain [of net meth "baseURL c @ path" body r c] by (cases auth) auto
  show ?thesis
  proof (cases rule: http_call_cases [where rq = ?rq and net = net and w = w])
    case (bad e)
    then show ?thesis using ev by simp
  next
    case (none r e w')
    then show ?thesis using ev ok [OF none(1)] auth by (auto simp: well_behaved_def)
  next
    case (resp r x w')
    then show ?thesis using ev ok [OF resp(1)] auth by (auto simp: well_behaved_def)
  qed
qed

section \<open>Files\<close>

text \<open>
  What the API documents of its files: a PUT that succeeds stores the body under the URL, and a GET
  that succeeds answers with what is stored there; \<open>files\<close> reads the store off the network's state.
\<close>

definition file_server :: "'w network \<Rightarrow> ('w \<Rightarrow> string \<Rightarrow> string option) \<Rightarrow> bool" where
  "file_server net files \<longleftrightarrow>
     (\<forall>w r x w'. Do net w r = (Inr x, w') \<longrightarrow> StatusCode x = StatusOK \<longrightarrow>
        (rq_method r = ''PUT'' \<longrightarrow> files w' (rq_url r) = Some (rq_body r)) \<and>
        (rq_method r = ''GET'' \<longrightarrow> snd (Body x) = None \<longrightarrow> files w (rq_url r) = Some (fst (Body x))))"

lemma file_server_put:
  "file_server net files \<Longrightarrow> Do net w r = (Inr x, w') \<Longrightarrow> StatusCode x = StatusOK \<Longrightarrow> rq_method r = ''PUT'' \<Longrightarrow>
   files w' (rq_url r) = Some (rq_body r)"
  unfolding file_server_def by blast

lemma file_server_get:
  "file_server net files \<Longrightarrow> Do net w r = (Inr x, w') \<Longrightarrow> StatusCode x = StatusOK \<Longrightarrow> rq_method r = ''GET'' \<Longrightarrow>
   Body x = (d, None) \<Longrightarrow> files w (rq_url r) = Some d"
  unfolding file_server_def by (metis fst_conv snd_conv)

lemma UploadFile_stores:
  assumes "file_server net files" "claude_UploadFile net c p d w = (Inr info, ev, w')"
  shows "files w' (filesURL c p) = Some d"
proof (cases rule: http_call_cases [where rq = "authorized_request net c ''PUT'' (filesURL c p) d" and net = net and w = w])
  case (resp r x w2)
  then have "w2 = w'" "StatusCode x = StatusOK"
    using assms(2) by (auto simp: claude_UploadFile_def split: if_splits)
  then show ?thesis
    using file_server_put [OF assms(1) resp(2)] authorized_requestE [OF resp(1)] by auto
qed (use assms(2) in \<open>auto simp: claude_UploadFile_def\<close>)

lemma DownloadFile_reads:
  assumes "file_server net files" "claude_DownloadFile net c p w = (Inr d, ev, w')"
  shows "files w (filesURL c p) = Some d"
proof (cases rule: http_call_cases [where rq = "authorized_request net c ''GET'' (filesURL c p) []" and net = net and w = w])
  case (resp r x w2)
  then have "StatusCode x = StatusOK" "Body x = (d, None)"
    using assms(2) by (auto simp: claude_DownloadFile_def ReadAll_def split: if_splits prod.splits option.splits)
  then show ?thesis
    using file_server_get [OF assms(1) resp(2)] authorized_requestE [OF resp(1)] by auto
qed (use assms(2) in \<open>auto simp: claude_DownloadFile_def\<close>)

text \<open>
  C21 (roundtrip): a file that was uploaded is downloaded unchanged, byte by byte, under the same path
  with or without leading slashes.
\<close>

theorem upload_download:
  assumes "file_server net files"
    and "claude_UploadFile net c p d w = (Inr info, ev, w')"
    and "claude_DownloadFile net c q w' = (Inr d', ev', w'')"
    and "TrimLeftByte q (CHR ''/'') = TrimLeftByte p (CHR ''/'')"
  shows "d' = d"
proof -
  have "filesURL c q = filesURL c p" using assms(4) by (simp add: filesURL_def)
  then show ?thesis using UploadFile_stores [OF assms(1,2)] DownloadFile_reads [OF assms(1,3)] by simp
qed

definition demo_net :: "(string \<Rightarrow> string option) network" where
  "demo_net = \<lparr>parse_url = (\<lambda>_. None), Do = (\<lambda>w r.
     if rq_method r = ''PUT'' then (Inr \<lparr>StatusCode = 200, Body = (''{}'', None)\<rparr>, w(rq_url r := Some (rq_body r)))
     else (case w (rq_url r) of
             None \<Rightarrow> (Inr \<lparr>StatusCode = 404, Body = ([], None)\<rparr>, w)
           | Some d \<Rightarrow> (Inr \<lparr>StatusCode = 200, Body = (d, None)\<rparr>, w)))\<rparr>"

lemma demo_net_file_server: "file_server demo_net (\<lambda>w. w)"
  by (auto simp: file_server_def demo_net_def split: if_splits option.splits)

theorem upload_download_witness:
  "(let (info, _, w) = claude_UploadFile demo_net (claude_New ''http://x/'' []) ''a'' ''data'' Map.empty
    in info = Inr (FileInfo [] [] 0) \<and> w = Map.empty(''http://x/files/a'' := Some ''data''))
   \<and> fst (claude_DownloadFile demo_net (claude_New ''http://x/'' []) ''/a'' (Map.empty(''http://x/files/a'' := Some ''data''))) = Inr ''data''"
proof -
  let ?c = "claude_New ''http://x/'' []"
  let ?w = "Map.empty(''http://x/files/a'' := Some ''data'') :: string \<Rightarrow> string option"
  have c: "?c = \<lparr>baseURL = ''http://x'', token = [], timeout = defaultTimeout\<rparr>"
    by (simp add: claude_New_def TrimRightByte_def)
  let ?put = "\<lparr>rq_method = ''PUT'', rq_url = ''http://x/files/a'', rq_header = [(''Content-Type'', ''application/json'')], rq_body = ''data''\<rparr>"
  let ?get = "\<lparr>rq_method = ''GET'', rq_url = ''http://x/files/a'', rq_header = [(''Content-Type'', ''application/json'')], rq_body = []\<rparr>"
  have up: "claude_UploadFile demo_net ?c ''a'' ''data'' Map.empty = (Inr (FileInfo [] [] 0), [Sent ?put, BodyClosed], ?w)"
    by (simp add: c claude_UploadFile_def authorized_request_def NewRequest_def demo_net_def http_call_def filesURL_def
        setHeaders_def set_header_def TrimLeftByte_def Decoder_Decode_def into_FileInfo_def json_fields_def maxNestingDepth_def)
  obtain d' where d': "claude_DownloadFile demo_net ?c ''/a'' ?w = (Inr d', [Sent ?get, BodyClosed], ?w)"
    by (simp add: c claude_DownloadFile_def authorized_request_def NewRequest_def demo_net_def http_call_def filesURL_def
        setHeaders_def set_header_def TrimLeftByte_def ReadAll_def)
  with up have "d' = ''data''"
    using upload_download [OF demo_net_file_server, of ?c "''a''" "''data''" Map.empty _ _ ?w "''/a''" d']
    by (simp add: TrimLeftByte_def)
  then show ?thesis using up d' by simp
qed

end
