(* ===== verification/GoSlice.thy ===== *)
theory GoSlice
  imports Main
begin

text \<open>
  Go slices with their backing arrays, as far as the repository uses them: slices that start at the
  beginning of their array, and the built-in append, which writes into the array when there is room
  and moves to a new one when there is not. How much a new array can hold is a parameter, \<open>grow\<close>; the
  runtime doubles small arrays.
\<close>

text \<open>The arrays that exist, by address; a cell that was never written holds the zero value.\<close>

type_synonym 'a heap = "'a list list"

datatype slice = NilSlice | Slice nat nat

fun slice_list :: "'a heap \<Rightarrow> slice \<Rightarrow> 'a list" where
  "slice_list h NilSlice = []"
| "slice_list h (Slice a n) = take n (h ! a)"

fun slice_len :: "slice \<Rightarrow> nat" where
  "slice_len NilSlice = 0"
| "slice_len (Slice a n) = n"

fun slice_cap :: "'a heap \<Rightarrow> slice \<Rightarrow> nat" where
  "slice_cap h NilSlice = 0"
| "slice_cap h (Slice a n) = length (h ! a)"

fun slice_ok :: "'a heap \<Rightarrow> slice \<Rightarrow> bool" where
  "slice_ok h NilSlice = True"
| "slice_ok h (Slice a n) = (a < length h \<and> n \<le> length (h ! a))"

text \<open>\<open>grow cap n\<close> is the capacity of the new array when \<open>n\<close> elements do not fit in \<open>cap\<close>.\<close>

definition append_slice :: "(nat \<Rightarrow> nat \<Rightarrow> nat) \<Rightarrow> 'a \<Rightarrow> 'a heap \<Rightarrow> slice \<Rightarrow> 'a list \<Rightarrow> 'a heap \<times> slice" where
  "append_slice grow zero h s xs =
     (if xs = [] then (h, s)
      else let n = slice_len s + length xs in
        case s of
          Slice a m \<Rightarrow>
            if n \<le> length (h ! a)
            then (h[a := take m (h ! a) @ xs @ drop n (h ! a)], Slice a n)
            else (h @ [slice_list h s @ xs @ replicate (grow (length (h ! a)) n - n) zero], Slice (length h) n)
        | NilSlice \<Rightarrow> (h @ [xs @ replicate (grow 0 n - n) zero], Slice (length h) n))"

definition double :: "nat \<Rightarrow> nat \<Rightarrow> nat" where
  "double cap n = max n (2 * cap)"

lemma append_slice_list:
  assumes "slice_ok h s" "append_slice grow zero h s xs = (h', s')"
  shows "slice_list h' s' = slice_list h s @ xs" "slice_ok h' s'"
proof -
  have "slice_list h' s' = slice_list h s @ xs \<and> slice_ok h' s'"
  proof (cases s)
    case NilSlice
    then show ?thesis using assms by (auto simp: append_slice_def Let_def split: if_splits)
  next
    case (Slice a m)
    then show ?thesis using assms by (cases xs) (auto simp: append_slice_def Let_def min_def split: if_splits)
  qed
  then show "slice_list h' s' = slice_list h s @ xs" "slice_ok h' s'" by auto
qed

text \<open>A slice that is no longer than the one appended to keeps its elements.\<close>

lemma append_slice_keeps:
  assumes "slice_ok h s" "append_slice grow zero h s xs = (h', s')" "slice_ok h t" "slice_len t \<le> slice_len s"
  shows "slice_list h' t = slice_list h t \<and> slice_ok h' t"
proof (cases t)
  case (Slice b k)
  then have b: "b < length h" "k \<le> length (h ! b)" using assms(3) by auto
  show ?thesis
  proof (cases s)
    case NilSlice
    then show ?thesis using assms(2) b Slice by (auto simp: append_slice_def nth_append Let_def split: if_splits)
  next
    case (Slice a m)
    have "k \<le> m" using assms(4) Slice \<open>t = Slice b k\<close> by simp
    then show ?thesis
      using assms(1,2) b Slice \<open>t = Slice b k\<close>
      by (cases "a = b") (auto simp: append_slice_def nth_append Let_def min_def split: if_splits)
  qed
qed simp

end
