(* ===== verification/Loki.thy ===== *)
theory Loki
  imports Http GoSlice "HOL-Library.Char_ord" "HOL-Library.List_Lexorder"
begin

text \<open>
  The Loki client and slog handler of src/slogging/loki/loki.go. The environment parser, the clock, the
  caller's frame and the rendering of attribute values are arguments; a handler's attributes and
  groups are slices in heaps of their own, since handlers derived from one another share arrays.
\<close>

section \<open>The client\<close>

record ClientConfig =
  cc_URL :: string

definition ClientConfig_validate :: "ClientConfig \<Rightarrow> err" where
  "ClientConfig_validate c = (if cc_URL c = [] then Some (ctx_New ''loki URL is required'') else None)"

text \<open>\<open>parse\<close> is the result of \<open>gonfiguration.Parse\<close> on the empty configuration.\<close>

definition parseClientConfig :: "ClientConfig res \<Rightarrow> ClientConfig res" where
  "parseClientConfig parse =
     (case parse of Inl e \<Rightarrow> Inl (wrapped e ''could not parse config'') | Inr cfg \<Rightarrow> Inr cfg)"

record loki_Client =
  lc_url :: string
  lc_timeout :: int

definition httpTimeout :: int where
  "httpTimeout = 5 * 1000000000"

definition NewClientWithConfig :: "ClientConfig \<Rightarrow> loki_Client res" where
  "NewClientWithConfig cfg =
     (case ClientConfig_validate cfg of
        Some e \<Rightarrow> Inl (wrapped e ''could not validate client config'')
      | None \<Rightarrow> Inr \<lparr>lc_url = TrimRightByte (cc_URL cfg) (CHR ''/''), lc_timeout = httpTimeout\<rparr>)"

definition loki_NewClient :: "ClientConfig res \<Rightarrow> loki_Client res" where
  "loki_NewClient parse =
     (case parseClientConfig parse of
        Inl e \<Rightarrow> Inl (wrapped e ''could not parse client config'')
      | Inr cfg \<Rightarrow> NewClientWithConfig cfg)"

type_synonym labels = "(string, string) gomap"

text \<open>A map is marshalled with its keys in order.\<close>

definition labels_json :: "labels \<Rightarrow> json" where
  "labels_json m = JObj (map (\<lambda>(k, v). (k, JStr v)) (sort_key fst m))"

datatype stream = Stream (st_Stream: labels) (st_Values: "string list list")

definition stream_json :: "stream \<Rightarrow> json" where
  "stream_json s = JObj [(''stream'', labels_json (st_Stream s)),
     (''values'', JArr (map (\<lambda>vs. JArr (map JStr vs)) (st_Values s)))]"

datatype pushPayload = PushPayload (pp_Streams: "stream list")

definition pushPayload_json :: "pushPayload \<Rightarrow> json" where
  "pushPayload_json p = JObj [(''streams'', JArr (map stream_json (pp_Streams p)))]"

text \<open>\<open>Push\<close> reports no failure: it returns nothing. \<open>now\<close> is the time in nanoseconds.\<close>

definition Push :: "'w network \<Rightarrow> loki_Client \<Rightarrow> int \<Rightarrow> labels \<Rightarrow> string \<Rightarrow> 'w \<Rightarrow> http_event list \<times> 'w" where
  "Push net c now labels line w =
     (let payload = PushPayload [Stream labels [[itoa now, line]]];
          body = Marshal (pushPayload_json payload) in
      case http_call net (map_sum id (set_header HeaderContentType ContentTypeJSON)
             (NewRequest net ''POST'' (lc_url c @ ''/loki/api/v1/push'') body)) w of
        (Response resp, ev, w') \<Rightarrow> (ev @ [BodyClosed], w')
      | (_, ev, w') \<Rightarrow> (ev, w'))"

text \<open>\<open>data\<close> is a map in the order the runtime iterates it, with its values rendered.\<close>

fun data_line :: "(string \<times> string) list \<Rightarrow> string" where
  "data_line [] = []"
| "data_line ((k, v) # ds) = '' '' @ k @ ''='' @ v @ data_line ds"

definition PushLog ::
  "'w network \<Rightarrow> loki_Client \<Rightarrow> int \<Rightarrow> string \<Rightarrow> string \<Rightarrow> string \<Rightarrow> string \<Rightarrow> (string \<times> string) list \<Rightarrow> 'w \<Rightarrow> http_event list \<times> 'w" where
  "PushLog net c now appName source lvl msg data =
     Push net c now [(''app'', appName), (''source'', source), (''level'', ToLower lvl)] (msg @ data_line data)"

section \<open>The handler\<close>

record HandlerConfig =
  hc_AppName :: string
  hc_LabelKeys :: "(string, bool) gomap"

definition HandlerConfig_validate :: "HandlerConfig \<Rightarrow> err" where
  "HandlerConfig_validate c = (if hc_AppName c = [] then Some (ctx_New ''loki app name is required'') else None)"

definition parseHandlerConfig :: "HandlerConfig res \<Rightarrow> HandlerConfig res" where
  "parseHandlerConfig parse =
     (case parse of Inl e \<Rightarrow> Inl (wrapped e ''could not parse config'') | Inr cfg \<Rightarrow> Inr cfg)"

text \<open>An attribute is its key and its rendered value.\<close>

type_synonym attr = "string \<times> string"

record Handler =
  hd_client :: loki_Client
  hd_appName :: string
  hd_labelKeys :: "(string, bool) gomap"
  hd_level :: int
  hd_attrs :: slice
  hd_groups :: slice

definition NewHandlerWithConfig :: "loki_Client \<Rightarrow> HandlerConfig \<Rightarrow> int \<Rightarrow> Handler res" where
  "NewHandlerWithConfig client cfg level =
     (case HandlerConfig_validate cfg of
        Some e \<Rightarrow> Inl (wrapped e ''could not validate handler config'')
      | None \<Rightarrow> Inr \<lparr>hd_client = client, hd_appName = hc_AppName cfg, hd_labelKeys = hc_LabelKeys cfg, hd_level = level,
           hd_attrs = NilSlice, hd_groups = NilSlice\<rparr>)"

definition NewHandler :: "HandlerConfig res \<Rightarrow> loki_Client \<Rightarrow> int \<Rightarrow> (string, bool) gomap \<Rightarrow> Handler res" where
  "NewHandler parse client level labelKeys =
     (case parseHandlerConfig parse of
        Inl e \<Rightarrow> Inl (wrapped e ''could not parse handler config'')
      | Inr cfg \<Rightarrow> NewHandlerWithConfig client (cfg\<lparr>hc_LabelKeys := labelKeys\<rparr>) level)"

definition Handler_Enabled :: "Handler \<Rightarrow> int \<Rightarrow> bool" where
  "Handler_Enabled h level = (hd_level h \<le> level)"

definition signed :: "int \<Rightarrow> string" where
  "signed i = (if i < 0 then itoa i else CHR ''+'' # itoa i)"

text \<open>\<open>slog.Level.String\<close>\<close>

definition level_string :: "int \<Rightarrow> string" where
  "level_string l =
     (let str = (\<lambda>base v. if v = 0 then base else base @ signed v) in
      if l < 0 then str ''DEBUG'' (l + 4)
      else if l < 4 then str ''INFO'' l
      else if l < 8 then str ''WARN'' (l - 4)
      else str ''ERROR'' (l - 8))"

text \<open>The loop of \<open>processAttr\<close> over the groups.\<close>

fun prefix_key :: "string list \<Rightarrow> string \<Rightarrow> string" where
  "prefix_key [] key = key"
| "prefix_key (g # gs) key = prefix_key gs (g @ ''.'' @ key)"

definition processAttr :: "(string, bool) gomap \<Rightarrow> string list \<Rightarrow> attr \<Rightarrow> labels \<times> string \<Rightarrow> labels \<times> string" where
  "processAttr labelKeys groups a st =
     (case st of (labels, line) \<Rightarrow>
        let key = prefix_key groups (fst a) in
        if map_of labelKeys key = Some True then (map_put key (snd a) labels, line)
        else (labels, line @ '' '' @ key @ ''='' @ snd a))"

record slog_record =
  r_Level :: int
  r_Message :: string
  r_Frame :: "(string \<times> string) option"
  r_Attrs :: "attr list"

definition base_labels :: "Handler \<Rightarrow> slog_record \<Rightarrow> labels" where
  "base_labels h r =
     (let labels = [(''app'', hd_appName h), (''level'', ToLower (level_string (r_Level r)))] in
      case r_Frame r of
        None \<Rightarrow> labels
      | Some (file', func) \<Rightarrow>
          let labels1 = (if file' \<noteq> [] then map_put ''source_file'' file' labels else labels) in
          if func \<noteq> [] then map_put ''source_func'' func labels1 else labels1)"

definition handle_entry :: "attr heap \<Rightarrow> string heap \<Rightarrow> Handler \<Rightarrow> slog_record \<Rightarrow> labels \<times> string" where
  "handle_entry ah gh h r =
     (let gs = slice_list gh (hd_groups h);
          (labels, line) = foldl (\<lambda>st a. processAttr (hd_labelKeys h) gs a st) (base_labels h r, r_Message r)
            (slice_list ah (hd_attrs h) @ r_Attrs r) in
      (if map_of labels ''service'' = None then map_put ''service'' ''system'' labels else labels, line))"

definition Handle :: "'w network \<Rightarrow> int \<Rightarrow> attr heap \<Rightarrow> string heap \<Rightarrow> Handler \<Rightarrow> slog_record \<Rightarrow> 'w \<Rightarrow> err \<times> http_event list \<times> 'w" where
  "Handle net now ah gh h r w =
     (let (labels, line) = handle_entry ah gh h r; (ev, w') = Push net (hd_client h) now labels line w in (None, ev, w'))"

definition WithAttrs :: "(nat \<Rightarrow> nat \<Rightarrow> nat) \<Rightarrow> Handler \<Rightarrow> attr list \<Rightarrow> attr heap \<Rightarrow> Handler \<times> attr heap" where
  "WithAttrs grow h as ah =
     (case append_slice grow ([], []) ah (hd_attrs h) as of (ah', s) \<Rightarrow> (h\<lparr>hd_attrs := s\<rparr>, ah'))"

definition WithGroup :: "(nat \<Rightarrow> nat \<Rightarrow> nat) \<Rightarrow> Handler \<Rightarrow> string \<Rightarrow> string heap \<Rightarrow> Handler \<times> string heap" where
  "WithGroup grow h name gh =
     (case append_slice grow [] gh (hd_groups h) [name] of (gh', s) \<Rightarrow> (h\<lparr>hd_groups := s\<rparr>, gh'))"

section \<open>What an entry contains\<close>

text \<open>
  The label of a level: its name in small letters, with the distance from the level of that name if there is one.
\<close>

definition level_label :: "int \<Rightarrow> string" where
  "level_label l =
     (let offset = (\<lambda>v. if v = 0 then '''' else if v > 0 then CHR ''+'' # utoa (nat v) else CHR ''-'' # utoa (nat (- v))) in
      if l < 0 then ''debug'' @ offset (l + 4)
      else if l < 4 then ''info'' @ offset l
      else if l < 8 then ''warn'' @ offset (l - 4)
      else ''error'' @ offset (l - 8))"

lemma ToLower_utoa: "ToLower (utoa n) = utoa n"
proof -
  have "lower_char c = c" if "is_digit c" for c using that by (simp add: lower_char_def is_digit_def)
  then show ?thesis using utoa_digits [of n] by (simp add: ToLower_def list_all_iff map_idI)
qed

lemma ToLower_append: "ToLower (s @ t) = ToLower s @ ToLower t"
  by (simp add: ToLower_def)

lemma ToLower_signed: "ToLower (signed v) = (if v < 0 then CHR ''-'' # utoa (nat (- v)) else CHR ''+'' # utoa (nat v))"
  using ToLower_utoa by (simp add: signed_def itoa_def ToLower_def lower_char_def)

lemma ToLower_names:
  "ToLower ''DEBUG'' = ''debug''" "ToLower ''INFO'' = ''info''" "ToLower ''WARN'' = ''warn''" "ToLower ''ERROR'' = ''error''"
  by code_simp+

lemma ToLower_level: "ToLower (level_string l) = level_label l"
proof -
  have lower: "ToLower (if v = 0 then base else base @ signed v) = ToLower base @
      (if v = 0 then '''' else if v > 0 then CHR ''+'' # utoa (nat v) else CHR ''-'' # utoa (nat (- v)))" for base v
    by (simp add: ToLower_append ToLower_signed)
  show ?thesis unfolding level_string_def level_label_def Let_def
    by (cases "l < 0"; cases "l < 4"; cases "l < 8"; simp only: if_True if_False lower ToLower_names)
qed

text \<open>The attributes of a record, those of its handler first, with the groups of the handler in front of their keys.\<close>

definition entry_attrs :: "attr heap \<Rightarrow> string heap \<Rightarrow> Handler \<Rightarrow> slog_record \<Rightarrow> attr list" where
  "entry_attrs ah gh h r =
     (let prefix = concat (map (\<lambda>g. g @ ''.'') (rev (slice_list gh (hd_groups h))))
      in map (\<lambda>(key, v). (prefix @ key, v)) (slice_list ah (hd_attrs h) @ r_Attrs r))"

definition is_label :: "(string, bool) gomap \<Rightarrow> attr \<Rightarrow> bool" where
  "is_label keys a \<longleftrightarrow> map_of keys (fst a) = Some True"

definition attr_text :: "attr \<Rightarrow> string" where
  "attr_text a = '' '' @ fst a @ ''='' @ snd a"

text \<open>The label of a key that no attribute sets.\<close>

definition record_label :: "string \<Rightarrow> slog_record \<Rightarrow> string \<Rightarrow> string option" where
  "record_label app r key =
     (if key = ''app'' then Some app
      else if key = ''level'' then Some (level_label (r_Level r))
      else if key = ''source_file'' then (case r_Frame r of Some (f, _) \<Rightarrow> if f = [] then None else Some f | None \<Rightarrow> None)
      else if key = ''source_func'' then (case r_Frame r of Some (_, f) \<Rightarrow> if f = [] then None else Some f | None \<Rightarrow> None)
      else if key = ''service'' then Some ''system''
      else None)"

lemma groups_reversed: "prefix_key gs key = concat (map (\<lambda>g. g @ ''.'') (rev gs)) @ key"
  by (induction gs arbitrary: key) simp_all

lemma foldl_processAttr:
  fixes gs :: "string list"
  defines "q \<equiv> \<lambda>(key, v). (concat (map (\<lambda>g. g @ ''.'') (rev gs)) @ key, v)"
  shows "case foldl (\<lambda>st a. processAttr keys gs a st) (ls, line) as of (ls', line') \<Rightarrow>
     map_of ls' = map_of ls ++ map_of (rev (filter (is_label keys) (map q as)))
   \<and> line' = line @ concat (map attr_text (filter (\<lambda>a. \<not> is_label keys a) (map q as)))"
proof (induction as arbitrary: ls line)
  case (Cons a as)
  have q: "q a = (prefix_key gs (fst a), snd a)" by (simp add: q_def groups_reversed split_def)
  show ?case
  proof (cases "is_label keys (q a)")
    case True
    then have "processAttr keys gs a (ls, line) = (map_put (fst (q a)) (snd (q a)) ls, line)"
      by (simp add: processAttr_def q is_label_def)
    then show ?thesis
      using Cons.IH [of "map_put (fst (q a)) (snd (q a)) ls" line] True
      by (auto simp: split_def map_add_def fun_eq_iff split: option.split)
  next
    case False
    then have "processAttr keys gs a (ls, line) = (ls, line @ attr_text (q a))"
      by (simp add: processAttr_def q is_label_def attr_text_def)
    then show ?thesis using Cons.IH [of ls "line @ attr_text (q a)"] False by (simp add: split_def)
  qed
qed simp

lemma base_labels_label:
  "(if map_of (base_labels h r) key = None \<and> key = ''service'' then Some ''system'' else map_of (base_labels h r) key)
     = record_label (hd_appName h) r key"
proof (cases "r_Frame r")
  case None
  then show ?thesis by (simp add: base_labels_def record_label_def Let_def ToLower_level)
next
  case (Some frame)
  obtain f g where "frame = (f, g)" by fastforce
  then show ?thesis using Some by (simp add: base_labels_def record_label_def Let_def ToLower_level)
qed

text \<open>
  C25 (functional): what is pushed for a record. The line is the message followed, in order, by the attributes of the
  handler and of the record that are not named as labels, each as key and value. The value of a label is that of the last
  attribute with its key, if attributes named as labels have this key; without one it is the name of the application for
  app, the level in small letters for level, the file and the function of the caller, where these are known, for
  source_file and source_func, and system for service. There are no other labels. In front of the key of an attribute
  stand the groups of the handler, the last opened first, each with a dot.
\<close>

theorem handle_entry_spec:
  "case handle_entry ah gh h r of (ls, line) \<Rightarrow>
     line = r_Message r @ concat (map attr_text (filter (\<lambda>a. \<not> is_label (hd_labelKeys h) a) (entry_attrs ah gh h r)))
   \<and> (\<forall>key. map_of ls key = (case map_of (rev (filter (is_label (hd_labelKeys h)) (entry_attrs ah gh h r))) key of
        Some v \<Rightarrow> Some v
      | None \<Rightarrow> record_label (hd_appName h) r key))"
proof -
  obtain ls line where f: "foldl (\<lambda>st a. processAttr (hd_labelKeys h) (slice_list gh (hd_groups h)) a st)
      (base_labels h r, r_Message r) (slice_list ah (hd_attrs h) @ r_Attrs r) = (ls, line)" by fastforce
  then have entry: "map_of ls = map_of (base_labels h r) ++ map_of (rev (filter (is_label (hd_labelKeys h)) (entry_attrs ah gh h r)))"
    "line = r_Message r @ concat (map attr_text (filter (\<lambda>a. \<not> is_label (hd_labelKeys h) a) (entry_attrs ah gh h r)))"
    using foldl_processAttr [where keys = "hd_labelKeys h" and gs = "slice_list gh (hd_groups h)" and ls = "base_labels h r" and line = "r_Message r"
        and as = "slice_list ah (hd_attrs h) @ r_Attrs r"]
    by (simp_all add: entry_attrs_def Let_def)
  have "map_of (if map_of ls ''service'' = None then map_put ''service'' ''system'' ls else ls) key =
      (case map_of (rev (filter (is_label (hd_labelKeys h)) (entry_attrs ah gh h r))) key of
        Some v \<Rightarrow> Some v | None \<Rightarrow> record_label (hd_appName h) r key)" for key
    using base_labels_label [of h r key] by (auto simp: entry(1) map_add_def split: option.splits if_splits)
  then show ?thesis using entry(2) f by (simp add: handle_entry_def Let_def del: foldl_append)
qed

section \<open>Derived handlers\<close>

definition handler_ok :: "attr heap \<Rightarrow> Handler \<Rightarrow> bool" where
  "handler_ok ah h \<longleftrightarrow> slice_ok ah (hd_attrs h)"

text \<open>
  Deriving a handler gives it the attributes of its parent and the new ones, and takes
  nothing from the parent or from any handler with no more attributes than the parent.
\<close>

theorem WithAttrs_extends:
  assumes "handler_ok ah h" "WithAttrs grow h as ah = (h', ah')"
  shows "slice_list ah' (hd_attrs h') = slice_list ah (hd_attrs h) @ as \<and> handler_ok ah' h'
    \<and> (handler_ok ah g \<and> slice_len (hd_attrs g) \<le> slice_len (hd_attrs h)
        \<longrightarrow> slice_list ah' (hd_attrs g) = slice_list ah (hd_attrs g) \<and> handler_ok ah' g)"
proof -
  obtain s where s: "append_slice grow ([], []) ah (hd_attrs h) as = (ah', s)" "h' = h\<lparr>hd_attrs := s\<rparr>"
    using assms(2) by (auto simp: WithAttrs_def split: prod.splits)
  have ok: "slice_ok ah (hd_attrs h)" using assms(1) by (simp add: handler_ok_def)
  show ?thesis
    using append_slice_list [OF ok s(1)] append_slice_keeps [OF ok s(1), of "hd_attrs g"] s(2)
    by (simp add: handler_ok_def)
qed

definition demo_handler :: Handler where
  "demo_handler = \<lparr>hd_client = \<lparr>lc_url = ''u'', lc_timeout = 0\<rparr>, hd_appName = ''app'', hd_labelKeys = [], hd_level = 0,
     hd_attrs = NilSlice, hd_groups = NilSlice\<rparr>"

lemma double_1: "double 0 (Suc 0) = 1" by (simp add: double_def)

theorem WithAttrs_extends_witness:
  "slice_list [[(''k'', ''v'')]] (hd_attrs (demo_handler\<lparr>hd_attrs := Slice 0 1\<rparr>)) = [(''k'', ''v'')]"
  using WithAttrs_extends [of "[]" demo_handler double "[(''k'', ''v'')]" "demo_handler\<lparr>hd_attrs := Slice 0 1\<rparr>" "[[(''k'', ''v'')]]"]
  by (simp add: handler_ok_def demo_handler_def WithAttrs_def append_slice_def double_1)

text \<open>
  Handlers derived from the same parent are not independent. With arrays that double, a
  parent with three attributes has room for a fourth; the second child writes its attribute where the
  first child keeps its own, and from then on the first child logs the attribute of the second.
\<close>

theorem sibling_handlers_share:
  "let (p1, m1) = WithAttrs double (h\<lparr>hd_attrs := NilSlice\<rparr>) [x] [];
       (p2, m2) = WithAttrs double p1 [y] m1;
       (p3, m3) = WithAttrs double p2 [z] m2;
       (c1, m4) = WithAttrs double p3 [a] m3;
       (c2, m5) = WithAttrs double p3 [b] m4
   in slice_list m4 (hd_attrs c1) = [x, y, z, a] \<and> slice_list m5 (hd_attrs c2) = [x, y, z, b]
    \<and> slice_list m5 (hd_attrs c1) = [x, y, z, b]"
  by (simp add: WithAttrs_def append_slice_def double_def)

end
