(* ===== verification/Migrate.thy ===== *)
theory Migrate
  imports CtxErrors GoStrings
begin

text \<open>
  Versioned migrations: the part of golang-migrate the repository drives
  (src/vendor/github.com/golang-migrate/migrate/v4/migrate.go and source/migration.go) and package db
  on top of it (src/db/migrate.go). The database is a driver, a record of operations on a state
  \<open>'w\<close>; the drivers of the repository are in other theories.

  Of golang-migrate the following is left out because nothing in the repository uses it: the logger,
  the graceful stop (no code has the channel) and the prefetching of files, which changes when a file
  is read but not what is read. A migrator is made for one operation and dropped, so its own lock flag
  is always clear at the start, and the timeout of the lock is an error the driver's Lock may give.
\<close>

section \<open>Sources of migrations\<close>

abbreviation "os_ErrNotExist \<equiv> ErrNew ''os.ErrNotExist''"
abbreviation "os_ErrExist \<equiv> ErrNew ''os.ErrExist''"
abbreviation "ErrNoChange \<equiv> ErrNew ''migrate.ErrNoChange''"
abbreviation "ErrInvalidVersion \<equiv> ErrNew ''migrate.ErrInvalidVersion''"
abbreviation "ErrDirty v \<equiv> TypedError ''migrate.ErrDirty'' v"
abbreviation "ErrShortLimit n \<equiv> TypedError ''migrate.ErrShortLimit'' n"

text \<open>
  The index of a source: one entry per version, in increasing order, with the two files of the
  version. A file may be missing, and opening one may fail.
\<close>

record migration_file =
  mf_version :: nat
  mf_up :: "string res option"
  mf_down :: "string res option"

type_synonym source = "migration_file list"

definition versions :: "source \<Rightarrow> nat list" where
  "versions src = map mf_version src"

definition source_ok :: "source \<Rightarrow> bool" where
  "source_ok src \<longleftrightarrow> sorted_wrt (<) (versions src)"

definition not_exist :: "string \<Rightarrow> go_error" where
  "not_exist op = WrapError op os_ErrNotExist"

definition source_First :: "source \<Rightarrow> nat res" where
  "source_First src = (case versions src of [] \<Rightarrow> Inl (not_exist ''first'') | v # _ \<Rightarrow> Inr v)"

text \<open>The neighbours of a version in the index: the code looks the version up by binary search.\<close>

definition source_Next :: "source \<Rightarrow> nat \<Rightarrow> nat res" where
  "source_Next src v = (case (if v \<in> set (versions src) then find (\<lambda>x. v < x) (versions src) else None) of
     None \<Rightarrow> Inl (not_exist (''next for version '' @ utoa v)) | Some x \<Rightarrow> Inr x)"

definition source_Prev :: "source \<Rightarrow> nat \<Rightarrow> nat res" where
  "source_Prev src v = (case (if v \<in> set (versions src) then find (\<lambda>x. x < v) (rev (versions src)) else None) of
     None \<Rightarrow> Inl (not_exist (''prev for version '' @ utoa v)) | Some x \<Rightarrow> Inr x)"

definition source_file :: "(migration_file \<Rightarrow> string res option) \<Rightarrow> string \<Rightarrow> source \<Rightarrow> nat \<Rightarrow> string res" where
  "source_file f op src v = (case find (\<lambda>m. mf_version m = v) src of
     None \<Rightarrow> Inl (not_exist (op @ utoa v))
   | Some m \<Rightarrow> (case f m of None \<Rightarrow> Inl (not_exist (op @ utoa v)) | Some r \<Rightarrow> r))"

definition source_ReadUp :: "source \<Rightarrow> nat \<Rightarrow> string res" where
  "source_ReadUp = source_file mf_up ''read up for version ''"

definition source_ReadDown :: "source \<Rightarrow> nat \<Rightarrow> string res" where
  "source_ReadDown = source_file mf_down ''read down for version ''"

section \<open>Reading migrations\<close>

record Migration =
  mg_Version :: nat
  mg_TargetVersion :: int
  mg_Body :: "string option"

datatype message = MsgError go_error | MsgMigration Migration

text \<open>A version without a file for the direction is a migration with no body.\<close>

definition newMigration :: "source \<Rightarrow> nat \<Rightarrow> int \<Rightarrow> Migration res" where
  "newMigration src version target =
     (case (if target \<ge> int version then source_ReadUp src version else source_ReadDown src version) of
        Inl e \<Rightarrow> (if errors_Is e os_ErrNotExist
          then Inr \<lparr>mg_Version = version, mg_TargetVersion = target, mg_Body = None\<rparr> else Inl e)
      | Inr body \<Rightarrow> Inr \<lparr>mg_Version = version, mg_TargetVersion = target, mg_Body = Some body\<rparr>)"

definition versionExists :: "source \<Rightarrow> nat \<Rightarrow> err" where
  "versionExists src v =
     (case source_ReadUp src v of
        Inr _ \<Rightarrow> None
      | Inl e \<Rightarrow> if errors_Is e os_ErrExist then None
          else if \<not> errors_Is e os_ErrNotExist then Some e
          else (case source_ReadDown src v of
             Inr _ \<Rightarrow> None
           | Inl e \<Rightarrow> if errors_Is e os_ErrExist then None
               else if \<not> errors_Is e os_ErrNotExist then Some e
               else Some (WrapError (''no migration found for version '' @ utoa v) e)))"

lemma source_First_in: "source_First src = Inr v \<Longrightarrow> v \<in> set (versions src)"
  by (auto simp: source_First_def split: list.splits)

lemma source_Next_greater: "source_Next src v = Inr x \<Longrightarrow> v < x \<and> x \<in> set (versions src)"
  by (auto simp: source_Next_def find_Some_iff split: option.splits if_splits)

lemma source_Prev_less: "source_Prev src v = Inr x \<Longrightarrow> x < v \<and> v \<in> set (versions src)"
  by (auto simp: source_Prev_def find_Some_iff split: option.splits if_splits)

text \<open>
  The goroutine that reads migrations sends each of them, or an error and nothing more; its messages
  are a list. A limit of -1 means no limit. A version below -1 does not occur: the code would panic on
  converting it to an unsigned number.
\<close>

function readUp_loop :: "source \<Rightarrow> int \<Rightarrow> int \<Rightarrow> int \<Rightarrow> message list" where
  "readUp_loop src from count limit =
     (if \<not> (count < limit \<or> limit = -1) then []
      else if from = -1 then
        (case source_First src of
           Inl e \<Rightarrow> [MsgError e]
         | Inr first \<Rightarrow> (case newMigration src first (int first) of
             Inl e \<Rightarrow> [MsgError e]
           | Inr migr \<Rightarrow> MsgMigration migr # readUp_loop src (int first) (count + 1) limit))
      else
        (case source_Next src (nat from) of
           Inl e \<Rightarrow>
             (if errors_Is e os_ErrNotExist \<and> limit = -1 \<and> count = 0 then [MsgError ErrNoChange]
              else if errors_Is e os_ErrNotExist \<and> limit = -1 then []
              else if errors_Is e os_ErrNotExist \<and> limit > 0 \<and> count = 0 then [MsgError os_ErrNotExist]
              else if errors_Is e os_ErrNotExist \<and> count < limit then [MsgError (ErrShortLimit (limit - count))]
              else [MsgError e])
         | Inr nxt \<Rightarrow> (case newMigration src nxt (int nxt) of
             Inl e \<Rightarrow> [MsgError e]
           | Inr migr \<Rightarrow> MsgMigration migr # readUp_loop src (int nxt) (count + 1) limit)))"
  by pat_completeness auto

lemma fewer_above: "v \<in> set xs \<Longrightarrow> from < int v \<Longrightarrow> card {x \<in> set xs. int v < int x} < card {x \<in> set xs. from < int x}"
  by (rule psubset_card_mono) auto

termination readUp_loop
proof (relation "measure (\<lambda>(src, from, _, _). card {v \<in> set (versions src). from < int v})", goal_cases)
  case 1
  show ?case by simp
next
  case (2 src v count limit first migr)
  then show ?case using fewer_above [OF source_First_in [of src first], of v] by simp
next
  case (3 src v count limit nxt migr)
  then have "nat v < nxt" "nxt \<in> set (versions src)" using source_Next_greater [of src "nat v" nxt] by simp_all
  then show ?case using fewer_above [of nxt "versions src" v] by simp
qed

declare readUp_loop.simps [simp del]

definition readUp :: "source \<Rightarrow> int \<Rightarrow> int \<Rightarrow> message list" where
  "readUp src from limit =
     (case (if from \<ge> 0 then versionExists src (nat from) else None) of
        Some e \<Rightarrow> [MsgError e]
      | None \<Rightarrow> if limit = 0 then [MsgError ErrNoChange] else readUp_loop src from 0 limit)"

function readDown_loop :: "source \<Rightarrow> int \<Rightarrow> int \<Rightarrow> int \<Rightarrow> message list" where
  "readDown_loop src from count limit =
     (if \<not> (count < limit \<or> limit = -1) then []
      else (case source_Prev src (nat from) of
         Inl e \<Rightarrow>
           (if errors_Is e os_ErrNotExist then
              (if limit = -1 \<or> limit - count > 0 then
                 (case source_First src of
                    Inl e \<Rightarrow> [MsgError e]
                  | Inr first \<Rightarrow> (case newMigration src first (-1) of
                      Inl e \<Rightarrow> [MsgError e]
                    | Inr migr \<Rightarrow> MsgMigration migr #
                        (if count + 1 < limit then [MsgError (ErrShortLimit (limit - (count + 1)))] else [])))
               else if count < limit then [MsgError (ErrShortLimit (limit - count))] else [])
            else [MsgError e])
       | Inr prev \<Rightarrow> (case newMigration src (nat from) (int prev) of
           Inl e \<Rightarrow> [MsgError e]
         | Inr migr \<Rightarrow> MsgMigration migr # readDown_loop src (int prev) (count + 1) limit)))"
  by pat_completeness auto

termination readDown_loop
  by (relation "measure (\<lambda>(src, from, _, _). nat from)") (auto dest: source_Prev_less)

declare readDown_loop.simps [simp del]

definition readDown :: "source \<Rightarrow> int \<Rightarrow> int \<Rightarrow> message list" where
  "readDown src from limit =
     (case (if from \<ge> 0 then versionExists src (nat from) else None) of
        Some e \<Rightarrow> [MsgError e]
      | None \<Rightarrow>
          if limit = 0 then [MsgError ErrNoChange]
          else if from = -1 \<and> limit = -1 then [MsgError ErrNoChange]
          else if from = -1 \<and> limit > 0 then [MsgError os_ErrNotExist]
          else readDown_loop src from 0 limit)"

section \<open>Running migrations on a driver\<close>

record 'w driver =
  drv_Lock :: "'w \<Rightarrow> err \<times> 'w"
  drv_Unlock :: "'w \<Rightarrow> err \<times> 'w"
  drv_Run :: "string \<Rightarrow> 'w \<Rightarrow> err \<times> 'w"
  drv_SetVersion :: "int \<Rightarrow> bool \<Rightarrow> 'w \<Rightarrow> err \<times> 'w"
  drv_Version :: "'w \<Rightarrow> (int \<times> bool) res \<times> 'w"

text \<open>The version is marked dirty before the body of a migration runs and clean after it.\<close>

fun runMigrations :: "'w driver \<Rightarrow> message list \<Rightarrow> 'w \<Rightarrow> err \<times> 'w" where
  "runMigrations drv [] w = (None, w)"
| "runMigrations drv (MsgError e # _) w = (Some e, w)"
| "runMigrations drv (MsgMigration migr # ret) w =
     (case drv_SetVersion drv (mg_TargetVersion migr) True w of
        (Some e, w) \<Rightarrow> (Some e, w)
      | (None, w) \<Rightarrow>
          (case (case mg_Body migr of None \<Rightarrow> (None, w) | Some body \<Rightarrow> drv_Run drv body w) of
             (Some e, w) \<Rightarrow> (Some e, w)
           | (None, w) \<Rightarrow>
               (case drv_SetVersion drv (mg_TargetVersion migr) False w of
                  (Some e, w) \<Rightarrow> (Some e, w)
                | (None, w) \<Rightarrow> runMigrations drv ret w)))"

definition unlockErr :: "'w driver \<Rightarrow> err \<times> 'w \<Rightarrow> err \<times> 'w" where
  "unlockErr drv r = (case r of (prevErr, w) \<Rightarrow>
     (case drv_Unlock drv w of
        (Some e, w) \<Rightarrow> (errors_Join [prevErr, Some e], w)
      | (None, w) \<Rightarrow> (prevErr, w)))"

text \<open>What Up and Steps share: lock, refuse a dirty version, run, unlock.\<close>

definition run_locked :: "'w driver \<Rightarrow> (int \<Rightarrow> message list) \<Rightarrow> 'w \<Rightarrow> err \<times> 'w" where
  "run_locked drv read w =
     (case drv_Lock drv w of
        (Some e, w) \<Rightarrow> (Some e, w)
      | (None, w) \<Rightarrow>
          (case drv_Version drv w of
             (Inl e, w) \<Rightarrow> unlockErr drv (Some e, w)
           | (Inr (curVersion, dirty), w) \<Rightarrow>
               if dirty then unlockErr drv (Some (ErrDirty curVersion), w)
               else unlockErr drv (runMigrations drv (read curVersion) w)))"

definition Migrate_Up :: "'w driver \<Rightarrow> source \<Rightarrow> 'w \<Rightarrow> err \<times> 'w" where
  "Migrate_Up drv src w = run_locked drv (\<lambda>v. readUp src v (-1)) w"

definition Migrate_Steps :: "'w driver \<Rightarrow> source \<Rightarrow> int \<Rightarrow> 'w \<Rightarrow> err \<times> 'w" where
  "Migrate_Steps drv src n w =
     (if n = 0 then (Some ErrNoChange, w)
      else run_locked drv (\<lambda>v. if n > 0 then readUp src v n else readDown src v (- n)) w)"

definition Migrate_Force :: "'w driver \<Rightarrow> int \<Rightarrow> 'w \<Rightarrow> err \<times> 'w" where
  "Migrate_Force drv version w =
     (if version < -1 then (Some ErrInvalidVersion, w)
      else (case drv_Lock drv w of
         (Some e, w) \<Rightarrow> (Some e, w)
       | (None, w) \<Rightarrow>
           (case drv_SetVersion drv version False w of
              (Some e, w) \<Rightarrow> unlockErr drv (Some e, w)
            | (None, w) \<Rightarrow> drv_Unlock drv w)))"

section \<open>Package db\<close>

text \<open>
  Opening a source is outside the repository: the index of an embedded filesystem (iofs.New) and of
  the directory behind a file URL. So is the state of the host's filesystem.
\<close>

record 'fs migration_env =
  iofs_New :: "'fs \<Rightarrow> string \<Rightarrow> source res"
  os_Stat :: "string \<Rightarrow> err"
  file_URL :: "string \<Rightarrow> string"
  open_source :: "string \<Rightarrow> source res"

definition newMigrator ::
  "'fs migration_env \<Rightarrow> string \<Rightarrow> 'w driver option \<Rightarrow> string \<Rightarrow> 'fs option \<Rightarrow> ('w driver \<times> source) res" where
  "newMigrator env databaseName migrationDriver path migrationFS =
     (case migrationDriver of
        None \<Rightarrow> Inl (wrapped ErrRequiredFieldNotSet ''migration database driver'')
      | Some drv \<Rightarrow>
          (case migrationFS of
             Some fs \<Rightarrow>
               (case iofs_New env fs path of
                  Inl e \<Rightarrow> Inl (wrapped e ''create embedded migration source'')
                | Inr src \<Rightarrow> Inr (drv, src))
           | None \<Rightarrow>
               if path = '''' then Inl (wrapped ErrEmptyMigrationsPath ''migration filesystem path'')
               else (case os_Stat env path of
                  Some e \<Rightarrow> Inl (wrapped e ''validate migration filesystem path'')
                | None \<Rightarrow>
                    (case open_source env (file_URL env path) of
                       Inl e \<Rightarrow> Inl (wrapped e ''create migration instance'')
                     | Inr src \<Rightarrow> Inr (drv, src)))))"

definition db_MigrateUp ::
  "'fs migration_env \<Rightarrow> string \<Rightarrow> 'w driver option \<Rightarrow> string \<Rightarrow> 'fs option \<Rightarrow> 'w \<Rightarrow> err \<times> 'w" where
  "db_MigrateUp env databaseName migrationDriver path migrationFS w =
     (case newMigrator env databaseName migrationDriver path migrationFS of
        Inl e \<Rightarrow> (Some (wrapped e ''create migrator''), w)
      | Inr (drv, src) \<Rightarrow>
          (case Migrate_Up drv src w of
             (Some e, w) \<Rightarrow> if errors_Is e ErrNoChange then (None, w) else (Some (wrapped e ''migrate up''), w)
           | (None, w) \<Rightarrow> (None, w)))"

definition db_MigrateDown ::
  "'fs migration_env \<Rightarrow> string \<Rightarrow> 'w driver option \<Rightarrow> string \<Rightarrow> 'fs option \<Rightarrow> int \<Rightarrow> 'w \<Rightarrow> err \<times> 'w" where
  "db_MigrateDown env databaseName migrationDriver path migrationFS steps w =
     (if steps \<le> 0 then (Some (wrapped ErrInvalidArgument ''migration steps must be greater than zero''), w)
      else (case newMigrator env databaseName migrationDriver path migrationFS of
         Inl e \<Rightarrow> (Some (wrapped e ''create migrator''), w)
       | Inr (drv, src) \<Rightarrow>
           (case Migrate_Steps drv src (- steps) w of
              (Some e, w) \<Rightarrow> (Some (wrapped e ''migrate down''), w)
            | (None, w) \<Rightarrow> (None, w))))"

definition db_MigrateForce ::
  "'fs migration_env \<Rightarrow> string \<Rightarrow> 'w driver option \<Rightarrow> string \<Rightarrow> 'fs option \<Rightarrow> int \<Rightarrow> 'w \<Rightarrow> err \<times> 'w" where
  "db_MigrateForce env databaseName migrationDriver path migrationFS version w =
     (case newMigrator env databaseName migrationDriver path migrationFS of
        Inl e \<Rightarrow> (Some (wrapped e ''create migrator''), w)
      | Inr (drv, src) \<Rightarrow>
          (case Migrate_Force drv version w of
             (Some e, w) \<Rightarrow> (Some (wrapped e ''force migration version''), w)
           | (None, w) \<Rightarrow> (None, w)))"

end
