(* ===== verification/MigrateRuns.thy ===== *)
theory MigrateRuns
  imports Migrate
begin

text \<open>
  What the migrations of a source come to: the messages of the reading goroutine against the list of
  pending migrations, and the contract of a migration driver with the effect of a run under it.
\<close>

section \<open>The messages of the reader\<close>

text \<open>Every file of the source can be read.\<close>

definition readable :: "source \<Rightarrow> bool" where
  "readable src \<longleftrightarrow> (\<forall>f\<in>set src. (\<forall>e. mf_up f \<noteq> Some (Inl e)) \<and> (\<forall>e. mf_down f \<noteq> Some (Inl e)))"

fun file_body :: "string res option \<Rightarrow> string option" where
  "file_body (Some (Inr body)) = Some body"
| "file_body _ = None"

definition up_migration :: "migration_file \<Rightarrow> Migration" where
  "up_migration f = \<lparr>mg_Version = mf_version f, mg_TargetVersion = int (mf_version f), mg_Body = file_body (mf_up f)\<rparr>"

definition later :: "source \<Rightarrow> int \<Rightarrow> source" where
  "later src v = filter (\<lambda>f. v < int (mf_version f)) src"

definition pending :: "source \<Rightarrow> int \<Rightarrow> Migration list" where
  "pending src v = map up_migration (later src v)"

definition known :: "source \<Rightarrow> int \<Rightarrow> bool" where
  "known src v \<longleftrightarrow> v = -1 \<or> v \<ge> 0 \<and> nat v \<in> set (versions src)"

lemma source_ok_Cons [simp]:
  "source_ok (f # src) \<longleftrightarrow> (\<forall>g\<in>set src. mf_version f < mf_version g) \<and> source_ok src"
  by (auto simp: source_ok_def versions_def)

lemma later_all: "\<forall>g\<in>set src. v < int (mf_version g) \<Longrightarrow> later src v = src"
  by (simp add: later_def)

lemma later_Cons_split:
  "source_ok src \<Longrightarrow> later src v = f # fs \<Longrightarrow>
     later src (int (mf_version f)) = fs \<and> f \<in> set src \<and> v < int (mf_version f)
       \<and> find (\<lambda>x. v < int x) (versions src) = Some (mf_version f)"
proof (induction src)
  case Nil
  then show ?case by (simp add: later_def)
next
  case (Cons g src)
  show ?case
  proof (cases "v < int (mf_version g)")
    case True
    then have "\<forall>h\<in>set src. v < int (mf_version h)" using Cons.prems(1) by auto
    then have "later src v = src" by (rule later_all)
    then show ?thesis using Cons.prems True by (auto simp: later_def versions_def)
  next
    case False
    then have "later src v = f # fs" using Cons.prems(2) by (simp add: later_def)
    moreover from this have "v < int (mf_version f)" using Cons.IH Cons.prems(1) by simp
    ultimately show ?thesis using Cons False by (auto simp: later_def versions_def)
  qed
qed

lemma later_Nil: "later src v = [] \<longleftrightarrow> find (\<lambda>x. v < int x) (versions src) = None"
  by (auto simp: later_def versions_def filter_empty_conv find_None_iff)

lemma find_version: "source_ok src \<Longrightarrow> f \<in> set src \<Longrightarrow> find (\<lambda>m. mf_version m = mf_version f) src = Some f"
  by (induction src) auto

lemma ReadUp_file:
  "source_ok src \<Longrightarrow> f \<in> set src \<Longrightarrow>
     source_ReadUp src (mf_version f) = (case mf_up f of None \<Rightarrow> Inl (not_exist (''read up for version '' @ utoa (mf_version f))) | Some r \<Rightarrow> r)"
  by (simp add: source_ReadUp_def source_file_def find_version)

lemma ReadDown_file:
  "source_ok src \<Longrightarrow> f \<in> set src \<Longrightarrow>
     source_ReadDown src (mf_version f) = (case mf_down f of None \<Rightarrow> Inl (not_exist (''read down for version '' @ utoa (mf_version f))) | Some r \<Rightarrow> r)"
  by (simp add: source_ReadDown_def source_file_def find_version)

lemma not_exist_is [simp]: "errors_Is (not_exist op) os_ErrNotExist" "\<not> errors_Is (not_exist op) os_ErrExist"
  by (simp_all add: not_exist_def)

lemma readable_up: "readable src \<Longrightarrow> f \<in> set src \<Longrightarrow> mf_up f = None \<or> (\<exists>b. mf_up f = Some (Inr b))"
  unfolding readable_def by (metis not_Some_eq sumE)

lemma readable_down: "readable src \<Longrightarrow> f \<in> set src \<Longrightarrow> mf_down f = None \<or> (\<exists>b. mf_down f = Some (Inr b))"
  unfolding readable_def by (metis not_Some_eq sumE)

lemma newMigration_up:
  "source_ok src \<Longrightarrow> readable src \<Longrightarrow> f \<in> set src \<Longrightarrow>
     newMigration src (mf_version f) (int (mf_version f)) = Inr (up_migration f)"
  using readable_up [of src f] by (auto simp: newMigration_def ReadUp_file up_migration_def)

text \<open>With an index that has a file for every version, the current version passes the check.\<close>

definition nonempty_files :: "source \<Rightarrow> bool" where
  "nonempty_files src \<longleftrightarrow> (\<forall>f\<in>set src. mf_up f \<noteq> None \<or> mf_down f \<noteq> None)"

definition good_source :: "source \<Rightarrow> bool" where
  "good_source src \<longleftrightarrow> source_ok src \<and> readable src \<and> nonempty_files src \<and> src \<noteq> []"

lemma good_sourceD:
  "good_source src \<Longrightarrow> source_ok src" "good_source src \<Longrightarrow> readable src"
  "good_source src \<Longrightarrow> nonempty_files src" "good_source src \<Longrightarrow> src \<noteq> []"
  by (simp_all add: good_source_def)

lemma versionExists_file: "good_source src \<Longrightarrow> f \<in> set src \<Longrightarrow> versionExists src (mf_version f) = None"
  using readable_up [of src f] readable_down [of src f]
  by (auto simp: good_source_def nonempty_files_def versionExists_def ReadUp_file ReadDown_file)

lemma versionExists_known: "good_source src \<Longrightarrow> known src v \<Longrightarrow> v \<ge> 0 \<Longrightarrow> versionExists src (nat v) = None"
  using versionExists_file by (auto simp: known_def versions_def)

lemma known_file [simp]: "f \<in> set src \<Longrightarrow> known src (int (mf_version f))"
  by (auto simp: known_def versions_def)

lemma Next_later:
  assumes "source_ok src" "v \<ge> 0" "nat v \<in> set (versions src)"
  shows "later src v = [] \<Longrightarrow> source_Next src (nat v) = Inl (not_exist (''next for version '' @ utoa (nat v)))"
    and "later src v = f # fs \<Longrightarrow> source_Next src (nat v) = Inr (mf_version f)"
proof -
  have eq: "(\<lambda>x. nat v < x) = (\<lambda>x. v < int x)" using assms(2) by (auto simp: fun_eq_iff)
  show "later src v = [] \<Longrightarrow> source_Next src (nat v) = Inl (not_exist (''next for version '' @ utoa (nat v)))"
    using assms(3) later_Nil [of src v] by (simp add: source_Next_def eq)
  show "later src v = f # fs \<Longrightarrow> source_Next src (nat v) = Inr (mf_version f)"
    using assms later_Cons_split [of src v f fs] by (simp add: source_Next_def eq)
qed

lemma later_minus1: "later src (-1) = src"
  by (simp add: later_def)

lemma readUp_loop_pending:
  assumes good: "good_source src"
  shows "known src v \<Longrightarrow> count \<ge> 0 \<Longrightarrow> readUp_loop src v count (-1) =
    (if pending src v = [] \<and> count = 0 then [MsgError ErrNoChange] else map MsgMigration (pending src v))"
proof (induction "length (later src v)" arbitrary: v count)
  case 0
  then have l: "later src v = []" by simp
  then have "v \<noteq> -1" using good by (auto simp: later_minus1 good_source_def)
  then have v: "v \<ge> 0" "nat v \<in> set (versions src)" using 0 by (auto simp: known_def)
  show ?case
    using Next_later(1) [OF good_sourceD(1) [OF good] v l] l \<open>v \<noteq> -1\<close>
    by (simp add: readUp_loop.simps [of src v] pending_def)
next
  case (Suc n)
  then obtain f fs where l: "later src v = f # fs" by (cases "later src v") auto
  note f = later_Cons_split [OF good_sourceD(1) [OF good] l]
  have mig: "newMigration src (mf_version f) (int (mf_version f)) = Inr (up_migration f)"
    using newMigration_up good f by (simp add: good_source_def)
  have IH: "readUp_loop src (int (mf_version f)) (count + 1) (-1) = map MsgMigration (pending src (int (mf_version f)))"
    using Suc.hyps(1) [of "int (mf_version f)" "count + 1"] Suc.hyps(2) Suc.prems f l by simp
  have step: "readUp_loop src v count (-1) =
      MsgMigration (up_migration f) # readUp_loop src (int (mf_version f)) (count + 1) (-1)"
  proof (cases "v = -1")
    case True
    then have "source_First src = Inr (mf_version f)" using l by (simp add: later_minus1 source_First_def versions_def)
    then show ?thesis using True mig by (simp add: readUp_loop.simps [of src "-1"])
  next
    case False
    then have "v \<ge> 0" "nat v \<in> set (versions src)" using Suc.prems by (auto simp: known_def)
    then show ?thesis
      using Next_later(2) [OF good_sourceD(1) [OF good] _ _ l] False mig by (simp add: readUp_loop.simps [of src v])
  qed
  show ?case using step IH f l by (simp add: pending_def)
qed

lemma readUp_pending:
  "good_source src \<Longrightarrow> known src v \<Longrightarrow> readUp src v (-1) =
    (if pending src v = [] then [MsgError ErrNoChange] else map MsgMigration (pending src v))"
  using readUp_loop_pending [of src v 0] versionExists_known [of src v] by (auto simp: readUp_def)

text \<open>Going down from a version undoes it and ends at the version before it, or at none.\<close>

definition down_migration :: "migration_file \<Rightarrow> int \<Rightarrow> Migration" where
  "down_migration f target = \<lparr>mg_Version = mf_version f, mg_TargetVersion = target, mg_Body = file_body (mf_down f)\<rparr>"

fun down_plan :: "source \<Rightarrow> Migration list" where
  "down_plan [] = []"
| "down_plan [f] = [down_migration f (-1)]"
| "down_plan (f # g # fs) = down_migration f (int (mf_version g)) # down_plan (g # fs)"

definition applied :: "source \<Rightarrow> int \<Rightarrow> source" where
  "applied src v = filter (\<lambda>f. int (mf_version f) \<le> v) src"

lemma newMigration_down:
  "source_ok src \<Longrightarrow> readable src \<Longrightarrow> f \<in> set src \<Longrightarrow> t < int (mf_version f) \<Longrightarrow>
     newMigration src (mf_version f) t = Inr (down_migration f t)"
  using readable_down [of src f] by (auto simp: newMigration_def ReadDown_file down_migration_def)

lemma source_ok_append:
  "source_ok (A @ f # B) \<longleftrightarrow> source_ok A \<and> source_ok B \<and> (\<forall>g\<in>set A. mf_version g < mf_version f)
     \<and> (\<forall>g\<in>set B. mf_version f < mf_version g) \<and> (\<forall>a\<in>set A. \<forall>b\<in>set B. mf_version a < mf_version b)"
  by (auto simp: source_ok_def versions_def sorted_wrt_append)

lemma applied_split: "source_ok (A @ f # B) \<Longrightarrow> applied (A @ f # B) (int (mf_version f)) = A @ [f]"
proof -
  assume "source_ok (A @ f # B)"
  then have "\<forall>g\<in>set A. mf_version g \<le> mf_version f" "\<forall>g\<in>set B. \<not> mf_version g \<le> mf_version f"
    by (auto simp: source_ok_append intro: less_imp_le)
  then have "filter (\<lambda>g. mf_version g \<le> mf_version f) A = A" "filter (\<lambda>g. mf_version g \<le> mf_version f) B = []"
    by (simp_all add: filter_id_conv filter_empty_conv)
  then show ?thesis by (simp add: applied_def)
qed

lemma find_append: "find P (xs @ ys) = (case find P xs of None \<Rightarrow> find P ys | Some x \<Rightarrow> Some x)"
  by (induction xs) auto

lemma Prev_split:
  assumes "source_ok (A @ f # B)"
  shows "A = [] \<Longrightarrow> source_Prev (A @ f # B) (mf_version f) = Inl (not_exist (''prev for version '' @ utoa (mf_version f)))"
    and "A = A' @ [g] \<Longrightarrow> source_Prev (A @ f # B) (mf_version f) = Inr (mf_version g)"
proof -
  have B: "find (\<lambda>x. x < mf_version f) (rev (versions B)) = None"
    using assms by (auto simp: source_ok_append find_None_iff versions_def)
  show "A = [] \<Longrightarrow> source_Prev (A @ f # B) (mf_version f) = Inl (not_exist (''prev for version '' @ utoa (mf_version f)))"
    using B by (simp add: source_Prev_def versions_def find_append)
  show "A = A' @ [g] \<Longrightarrow> source_Prev (A @ f # B) (mf_version f) = Inr (mf_version g)"
    using B assms by (simp add: source_Prev_def versions_def find_append source_ok_append)
qed

lemma readDown_loop_plan:
  "good_source src \<Longrightarrow> src = A @ f # B \<Longrightarrow> count < limit \<Longrightarrow> count \<ge> 0 \<Longrightarrow>
   readDown_loop src (int (mf_version f)) count limit =
     map MsgMigration (take (nat (limit - count)) (down_plan (f # rev A)))
     @ (if limit - count > int (Suc (length A)) then [MsgError (ErrShortLimit (limit - count - int (Suc (length A))))] else [])"
proof (induction A arbitrary: f B count rule: rev_induct)
  case Nil
  have ok: "source_ok ([] @ f # B)" and r: "readable src" using Nil by (simp_all add: good_source_def)
  have "newMigration src (mf_version f) (-1) = Inr (down_migration f (-1))"
    using newMigration_down [of src f "-1"] ok r Nil.prems(2) by simp
  moreover have "source_First src = Inr (mf_version f)" using Nil.prems(2) by (simp add: source_First_def versions_def)
  moreover have "nat (limit - count) = Suc (nat (limit - count - 1))" using Nil.prems by simp
  ultimately show ?case using Prev_split(1) [OF ok] Nil.prems
    by (auto simp: readDown_loop.simps [of "f # B" "int (mf_version f)"] algebra_simps)
next
  case (snoc g A)
  have ok: "source_ok ((A @ [g]) @ f # B)" and r: "readable src" using snoc.prems by (simp_all add: good_source_def)
  have lt: "int (mf_version g) < int (mf_version f)" using ok by (simp add: source_ok_append)
  have m: "newMigration src (mf_version f) (int (mf_version g)) = Inr (down_migration f (int (mf_version g)))"
    using newMigration_down [of src f "int (mf_version g)"] ok r snoc.prems(2) lt by simp
  have n: "nat (limit - count) = Suc (nat (limit - (count + 1)))" using snoc.prems by simp
  have step: "readDown_loop src (int (mf_version f)) count limit =
      MsgMigration (down_migration f (int (mf_version g))) # readDown_loop src (int (mf_version g)) (count + 1) limit"
    using Prev_split(2) [OF ok refl] m snoc.prems(2-4) by (simp add: readDown_loop.simps [of _ "int (mf_version f)"])
  show ?case
  proof (cases "count + 1 < limit")
    case True
    have "readDown_loop src (int (mf_version g)) (count + 1) limit =
        map MsgMigration (take (nat (limit - (count + 1))) (down_plan (g # rev A)))
        @ (if limit - (count + 1) > int (Suc (length A)) then [MsgError (ErrShortLimit (limit - (count + 1) - int (Suc (length A))))] else [])"
      using snoc.IH [of g "f # B" "count + 1"] snoc.prems True by simp
    then show ?thesis using step n by (simp add: algebra_simps)
  next
    case False
    then have "limit = count + 1" using snoc.prems by simp
    then show ?thesis using step snoc.prems(4) by (simp add: readDown_loop.simps [of src "int (mf_version g)"])
  qed
qed

lemma readDown_plan:
  assumes "good_source src" "f \<in> set src" "0 < limit"
  shows "readDown src (int (mf_version f)) limit =
     map MsgMigration (take (nat limit) (down_plan (rev (applied src (int (mf_version f))))))
     @ (if limit > int (length (applied src (int (mf_version f))))
        then [MsgError (ErrShortLimit (limit - int (length (applied src (int (mf_version f))))))] else [])"
proof -
  obtain A B where src: "src = A @ f # B" using assms(2) by (meson split_list)
  then have ap: "applied src (int (mf_version f)) = A @ [f]" using applied_split assms(1) by (simp add: good_source_def)
  show ?thesis
    using readDown_loop_plan [OF assms(1) src assms(3)] versionExists_file [OF assms(1,2)] assms(3) ap
    by (simp add: readDown_def)
qed

section \<open>The contract of a migration driver\<close>

text \<open>
  A driver keeps a version with a dirty flag and the content of the database. The contract says what
  each operation does to the two, whatever it returns: setting the version and running a script are
  atomic. \<open>idle\<close> is the invariant between the operations.
\<close>

definition run_body :: "(string \<Rightarrow> 'u \<Rightarrow> 'u) \<Rightarrow> 'u \<Rightarrow> Migration \<Rightarrow> 'u" where
  "run_body script u m = (case mg_Body m of None \<Rightarrow> u | Some q \<Rightarrow> script q u)"

definition run_all :: "(string \<Rightarrow> 'u \<Rightarrow> 'u) \<Rightarrow> Migration list \<Rightarrow> 'u \<Rightarrow> 'u" where
  "run_all script ms u = foldl (run_body script) u ms"

fun version_after :: "int \<times> bool \<Rightarrow> Migration list \<Rightarrow> int \<times> bool" where
  "version_after v [] = v"
| "version_after v (m # ms) = version_after (mg_TargetVersion m, False) ms"

text \<open>
  Where a run of migrations may have stopped: after some of them, or within the next one, whose target
  is then marked dirty and whose script has taken effect or not.
\<close>

definition stopped_in :: "(string \<Rightarrow> 'u \<Rightarrow> 'u) \<Rightarrow> Migration list \<Rightarrow> (int \<times> bool) \<times> 'u \<Rightarrow> (int \<times> bool) \<times> 'u \<Rightarrow> bool" where
  "stopped_in script ms st st' \<longleftrightarrow> (\<exists>k\<le>length ms.
     let v = version_after (fst st) (take k ms); u = run_all script (take k ms) (snd st)
     in st' = (v, u) \<or> (k < length ms \<and> fst st' = (mg_TargetVersion (ms ! k), True)
          \<and> (snd st' = u \<or> snd st' = run_body script u (ms ! k))))"

definition plan_ok :: "(string \<Rightarrow> bool) \<Rightarrow> Migration list \<Rightarrow> bool" where
  "plan_ok ok ms \<longleftrightarrow> (\<forall>m\<in>set ms. mg_TargetVersion m \<ge> -1 \<and> (\<forall>q. mg_Body m = Some q \<longrightarrow> ok q))"

definition scripts_ok :: "(string \<Rightarrow> bool) \<Rightarrow> source \<Rightarrow> bool" where
  "scripts_ok ok src \<longleftrightarrow> (\<forall>f\<in>set src. (\<forall>q. file_body (mf_up f) = Some q \<longrightarrow> ok q) \<and> (\<forall>q. file_body (mf_down f) = Some q \<longrightarrow> ok q))"

lemma run_all_simps [simp]:
  "run_all script [] u = u" "run_all script (m # ms) u = run_all script ms (run_body script u m)"
  by (simp_all add: run_all_def)

lemma run_all_append: "run_all script (ms @ ns) u = run_all script ns (run_all script ms u)"
  by (simp add: run_all_def)

lemma version_after_append: "version_after v (ms @ ns) = version_after (version_after v ms) ns"
  by (induction ms arbitrary: v) simp_all

lemma version_after_last: "ms \<noteq> [] \<Longrightarrow> version_after v ms = (mg_TargetVersion (last ms), False)"
  by (induction ms arbitrary: v) auto

lemma stopped_in_start [simp]: "stopped_in script ms st st"
  unfolding stopped_in_def by (rule exI [of _ 0]) (simp add: Let_def)

lemma stopped_in_first:
  "fst st' = (mg_TargetVersion m, True) \<Longrightarrow> snd st' = snd st \<or> snd st' = run_body script (snd st) m \<Longrightarrow>
     stopped_in script (m # ms) st st'"
  unfolding stopped_in_def by (rule exI [of _ 0]) (auto simp: Let_def)

lemma stopped_in_later:
  assumes "stopped_in script ms ((mg_TargetVersion m, False), run_body script (snd st) m) st'"
  shows "stopped_in script (m # ms) st st'"
proof -
  obtain k where "k \<le> length ms" and "let v = version_after (mg_TargetVersion m, False) (take k ms);
       u = run_all script (take k ms) (run_body script (snd st) m)
     in st' = (v, u) \<or> (k < length ms \<and> fst st' = (mg_TargetVersion (ms ! k), True)
          \<and> (snd st' = u \<or> snd st' = run_body script u (ms ! k)))"
    using assms unfolding stopped_in_def by auto
  then show ?thesis unfolding stopped_in_def by (intro exI [of _ "Suc k"]) (simp add: Let_def)
qed

definition view :: "('w \<Rightarrow> int \<times> bool) \<Rightarrow> ('w \<Rightarrow> 'u) \<Rightarrow> 'w \<Rightarrow> (int \<times> bool) \<times> 'u" where
  "view ver content w = (ver w, content w)"

locale migration_driver =
  fixes drv :: "'w driver" and idle :: "'w \<Rightarrow> bool" and ver :: "'w \<Rightarrow> int \<times> bool"
    and content :: "'w \<Rightarrow> 'u" and script :: "string \<Rightarrow> 'u \<Rightarrow> 'u" and ok :: "string \<Rightarrow> bool"
  assumes Lock_law: "\<And>w e w'. idle w \<Longrightarrow> drv_Lock drv w = (e, w') \<Longrightarrow> idle w' \<and> ver w' = ver w \<and> content w' = content w"
    and Unlock_law: "\<And>w e w'. idle w \<Longrightarrow> drv_Unlock drv w = (e, w') \<Longrightarrow> idle w' \<and> ver w' = ver w \<and> content w' = content w"
    and Version_law: "\<And>w r w'. idle w \<Longrightarrow> drv_Version drv w = (r, w') \<Longrightarrow>
      idle w' \<and> ver w' = ver w \<and> content w' = content w \<and> (\<forall>v. r = Inr v \<longrightarrow> v = ver w)"
    and SetVersion_law: "\<And>w v d e w'. idle w \<Longrightarrow> v \<ge> -1 \<Longrightarrow> drv_SetVersion drv v d w = (e, w') \<Longrightarrow>
      idle w' \<and> content w' = content w \<and> ver w' = (if e = None then (v, d) else ver w)"
    and Run_law: "\<And>w q e w'. idle w \<Longrightarrow> ok q \<Longrightarrow> drv_Run drv q w = (e, w') \<Longrightarrow>
      idle w' \<and> ver w' = ver w \<and> content w' = (if e = None then script q (content w) else content w)"
    and Errors_law: "\<And>w e w'. drv_Lock drv w = (e, w') \<Longrightarrow> \<not> err_is e ErrNoChange"
      "\<And>w e w'. drv_Unlock drv w = (e, w') \<Longrightarrow> \<not> err_is e ErrNoChange"
      "\<And>w e w'. drv_Version drv w = (Inl e, w') \<Longrightarrow> \<not> errors_Is e ErrNoChange"
      "\<And>w v d e w'. drv_SetVersion drv v d w = (e, w') \<Longrightarrow> \<not> err_is e ErrNoChange"
      "\<And>w q e w'. drv_Run drv q w = (e, w') \<Longrightarrow> \<not> err_is e ErrNoChange"
begin

lemma run_migration_body:
  assumes "idle w" "\<forall>q. mg_Body m = Some q \<longrightarrow> ok q" "(case mg_Body m of None \<Rightarrow> (None, w) | Some body \<Rightarrow> drv_Run drv body w) = (e, w')"
  shows "idle w' \<and> ver w' = ver w \<and> content w' = (if e = None then run_body script (content w) m else content w)"
  using assms Run_law [of w] by (auto simp: run_body_def split: option.splits)

lemma runMigrations_view:
  "idle w \<Longrightarrow> plan_ok ok ms \<Longrightarrow> runMigrations drv (map MsgMigration ms @ tl_msgs) w = (e, w') \<Longrightarrow>
   tl_msgs = [] \<or> (\<exists>x ms'. tl_msgs = MsgError x # ms') \<Longrightarrow>
     idle w' \<and> stopped_in script ms (view ver content w) (view ver content w')
   \<and> (err_is e ErrNoChange \<longrightarrow> (\<exists>x ms'. tl_msgs = MsgError x # ms' \<and> errors_Is x ErrNoChange))
   \<and> (e = None \<longrightarrow> tl_msgs = [] \<and> view ver content w' = (version_after (ver w) ms, run_all script ms (content w)))"
proof (induction ms arbitrary: w)
  case Nil
  then show ?case by (auto simp: view_def)
next
  case (Cons m ms)
  obtain e1 w1 where 1: "drv_SetVersion drv (mg_TargetVersion m) True w = (e1, w1)" by fastforce
  obtain e2 w2 where 2: "(case mg_Body m of None \<Rightarrow> (None, w1) | Some body \<Rightarrow> drv_Run drv body w1) = (e2, w2)" by fastforce
  obtain e3 w3 where 3: "drv_SetVersion drv (mg_TargetVersion m) False w2 = (e3, w3)" by fastforce
  have t: "mg_TargetVersion m \<ge> -1" "plan_ok ok ms" "\<forall>q. mg_Body m = Some q \<longrightarrow> ok q" using Cons.prems(2) by (simp_all add: plan_ok_def)
  note v1 = SetVersion_law [OF Cons.prems(1) t(1) 1]
  note v2 = run_migration_body [OF conjunct1 [OF v1] t(3) 2]
  note v3 = SetVersion_law [OF conjunct1 [OF v2] t(1) 3]
  show ?case
  proof (cases "e1 = None \<and> e2 = None \<and> e3 = None")
    case True
    then have r: "runMigrations drv (map MsgMigration ms @ tl_msgs) w3 = (e, w')" using Cons.prems(3) 1 2 3 by simp
    have w3: "view ver content w3 = ((mg_TargetVersion m, False), run_body script (snd (view ver content w)) m)"
      using v1 v2 v3 True by (simp add: view_def)
    show ?thesis
      using Cons.IH [OF conjunct1 [OF v3] t(2) r Cons.prems(4)] stopped_in_later [of script ms m "view ver content w" "view ver content w'"] w3
      by (simp add: view_def)
  next
    case False
    then have "e \<noteq> None" "e = e1 \<or> e = e2 \<or> e = e3" "w' = (if e1 \<noteq> None then w1 else if e2 \<noteq> None then w2 else w3)"
      using Cons.prems(3) 1 2 3 by (auto split: option.splits prod.splits)
    moreover have "\<not> err_is e1 ErrNoChange" "\<not> err_is e2 ErrNoChange" "\<not> err_is e3 ErrNoChange"
      using Errors_law(4) [OF 1] Errors_law(4) [OF 3] Errors_law(5) [of _ w1 e2 w2] 2 by (auto split: option.splits)
    ultimately show ?thesis
      using v1 v2 v3 False stopped_in_first [of "view ver content w'" m "view ver content w" script ms]
      by (auto simp: view_def split: if_splits)
  qed
qed

lemma unlockErr_view:
  "idle w \<Longrightarrow> unlockErr drv (p, w) = (e, w') \<Longrightarrow>
     idle w' \<and> view ver content w' = view ver content w \<and> (p \<noteq> None \<longrightarrow> e \<noteq> None) \<and> (e = None \<longrightarrow> p = None) \<and> (err_is e ErrNoChange \<longleftrightarrow> err_is p ErrNoChange)"
  using Unlock_law [of w] Errors_law(2) [of w] by (auto simp: unlockErr_def view_def errors_Join_None_iff err_is_Join_sentinel split: prod.splits option.splits)

end

lemma pending_ok: "scripts_ok ok src \<Longrightarrow> plan_ok ok (pending src v)"
  by (auto simp: plan_ok_def scripts_ok_def pending_def later_def up_migration_def)

lemma down_plan_Cons: "\<exists>t. t \<ge> -1 \<and> down_plan (f # fs) = down_migration f t # down_plan fs"
proof (cases fs)
  case (Cons g gs)
  then show ?thesis by (intro exI [of _ "int (mf_version g)"]) simp
qed auto

lemma down_plan_ok: "scripts_ok ok fs \<Longrightarrow> plan_ok ok (down_plan fs)"
proof (induction fs)
  case (Cons f fs)
  then show ?case using down_plan_Cons [of f fs] by (auto simp: plan_ok_def scripts_ok_def down_migration_def)
qed (simp add: plan_ok_def)

lemma take_plan_ok: "scripts_ok ok src \<Longrightarrow> plan_ok ok (take n (down_plan (rev (applied src v))))"
proof -
  assume "scripts_ok ok src"
  moreover have "set (rev (applied src v)) \<subseteq> set src" by (auto simp: applied_def)
  ultimately have "scripts_ok ok (rev (applied src v))" unfolding scripts_ok_def by blast
  from down_plan_ok [OF this] show ?thesis unfolding plan_ok_def by (meson in_set_takeD)
qed

text \<open>What a run under the lock does, when its messages are migrations and perhaps an error at the end.\<close>

definition run_result ::
  "(string \<Rightarrow> 'u \<Rightarrow> 'u) \<Rightarrow> Migration list \<Rightarrow> (int \<times> bool) \<times> 'u \<Rightarrow> err \<Rightarrow> (int \<times> bool) \<times> 'u \<Rightarrow> bool" where
  "run_result script ms st e st' \<longleftrightarrow> stopped_in script ms st st' \<and> (snd (fst st) \<longrightarrow> e \<noteq> None \<and> st' = st)
     \<and> (e = None \<longrightarrow> st' = (version_after (fst st) ms, run_all script ms (snd st)))"

lemma newMigrator_drv: "newMigrator env name (Some drv) path fs = Inr (drv', src) \<Longrightarrow> drv' = drv"
  by (auto simp: newMigrator_def split: option.splits sum.splits if_splits)

context migration_driver
begin

lemma run_locked_result:
  assumes "idle w" "run_locked drv read w = (e, w')"
    and "read (fst (ver w)) = map MsgMigration ms @ msgs" "plan_ok ok ms" "msgs = [] \<or> (\<exists>x. msgs = [MsgError x])"
  shows "idle w' \<and> run_result script ms (view ver content w) e (view ver content w')
    \<and> (err_is e ErrNoChange \<longrightarrow> (\<exists>x. msgs = [MsgError x] \<and> errors_Is x ErrNoChange) \<and> \<not> snd (ver w))
    \<and> (e = None \<longrightarrow> msgs = [])"
proof -
  obtain e1 w1 where 1: "drv_Lock drv w = (e1, w1)" by fastforce
  note v1 = Lock_law [OF assms(1) 1] and n1 = Errors_law(1) [OF 1]
  show ?thesis
  proof (cases e1)
    case (Some x)
    then show ?thesis using assms(2) 1 v1 n1 by (auto simp: run_locked_def run_result_def view_def)
  next
    case None
    obtain r w2 where 2: "drv_Version drv w1 = (r, w2)" by fastforce
    note v2 = Version_law [OF conjunct1 [OF v1] 2]
    have same: "view ver content w2 = view ver content w" using v1 v2 by (simp add: view_def)
    show ?thesis
    proof (cases r)
      case (Inl x)
      then have u: "unlockErr drv (Some x, w2) = (e, w')" using assms(2) 1 2 None by (simp add: run_locked_def)
      then show ?thesis using unlockErr_view [OF conjunct1 [OF v2] u] Errors_law(3) 2 Inl same
        by (auto simp: run_result_def)
    next
      case (Inr vd)
      then have vd: "vd = ver w" using v1 v2 by simp
      show ?thesis
      proof (cases "snd (ver w)")
        case True
        then have u: "unlockErr drv (Some (ErrDirty (fst (ver w))), w2) = (e, w')"
          using assms(2) 1 2 None Inr vd by (simp add: run_locked_def split: prod.splits)
        then show ?thesis using unlockErr_view [OF conjunct1 [OF v2] u] same by (auto simp: run_result_def)
      next
        case False
        obtain e3 w3 where 3: "runMigrations drv (map MsgMigration ms @ msgs) w2 = (e3, w3)" by fastforce
        then have u: "unlockErr drv (e3, w3) = (e, w')"
          using assms(2,3) 1 2 None Inr vd False by (simp add: run_locked_def split: prod.splits)
        have r: "idle w3 \<and> stopped_in script ms (view ver content w2) (view ver content w3)
            \<and> (err_is e3 ErrNoChange \<longrightarrow> (\<exists>x ms'. msgs = MsgError x # ms' \<and> errors_Is x ErrNoChange))
            \<and> (e3 = None \<longrightarrow> msgs = [] \<and> view ver content w3 = (version_after (ver w2) ms, run_all script ms (content w2)))"
          using runMigrations_view [OF conjunct1 [OF v2] assms(4) 3] assms(5) by auto
        show ?thesis
          using unlockErr_view [OF conjunct1 [OF r] u] r same False assms(5) by (auto simp: run_result_def view_def)
      qed
    qed
  qed
qed

lemma Migrate_Up_result:
  assumes "idle w" "good_source src" "scripts_ok ok src" "known src (fst (ver w))" "Migrate_Up drv src w = (e, w')"
  shows "idle w' \<and> run_result script (pending src (fst (ver w))) (view ver content w) e (view ver content w')
    \<and> (err_is e ErrNoChange \<longrightarrow> pending src (fst (ver w)) = [] \<and> \<not> snd (ver w))"
proof -
  let ?p = "pending src (fst (ver w))"
  have "readUp src (fst (ver w)) (-1) = map MsgMigration ?p @ (if ?p = [] then [MsgError ErrNoChange] else [])"
    using readUp_pending [OF assms(2,4)] by simp
  then show ?thesis
    using run_locked_result [OF assms(1), of "\<lambda>v. readUp src v (-1)" e w' ?p] assms(5) pending_ok [OF assms(3)]
    by (auto simp: Migrate_Up_def split: if_splits)
qed

lemma Migrate_Down_result:
  assumes "idle w" "good_source src" "scripts_ok ok src" "f \<in> set src" "fst (ver w) = int (mf_version f)" "0 < steps"
    and "Migrate_Steps drv src (- steps) w = (e, w')"
  shows "idle w' \<and> run_result script (take (nat steps) (down_plan (rev (applied src (fst (ver w))))))
      (view ver content w) e (view ver content w')
    \<and> (e = None \<longrightarrow> steps \<le> int (length (applied src (fst (ver w)))))"
proof -
  let ?n = "length (applied src (fst (ver w)))"
  let ?err = "if steps > int ?n then [MsgError (ErrShortLimit (steps - int ?n))] else []"
  have m: "readDown src (fst (ver w)) steps = map MsgMigration (take (nat steps) (down_plan (rev (applied src (fst (ver w)))))) @ ?err"
    using readDown_plan [OF assms(2,4,6)] assms(5) by simp
  have "run_locked drv (\<lambda>v. readDown src v steps) w = (e, w')"
    using assms(6,7) by (simp add: Migrate_Steps_def)
  from run_locked_result [OF assms(1) this m take_plan_ok [OF assms(3)]] show ?thesis by (cases "steps > int ?n") simp_all
qed

text \<open>The same for the functions of package db.\<close>

lemma db_MigrateUp_result:
  assumes "idle w" "newMigrator env name (Some drv) path fs = Inr (drv, src)" "good_source src" "scripts_ok ok src" "known src (fst (ver w))"
    and "db_MigrateUp env name (Some drv) path fs w = (e, w')"
  shows "idle w' \<and> run_result script (pending src (fst (ver w))) (view ver content w) e (view ver content w')"
proof -
  obtain e1 w1 where 1: "Migrate_Up drv src w = (e1, w1)" by fastforce
  show ?thesis
    using Migrate_Up_result [OF assms(1,3-5) 1] assms(2,6) 1
    by (auto simp: db_MigrateUp_def run_result_def stopped_in_def view_def split: option.splits if_splits)
qed

lemma db_MigrateDown_result:
  assumes "idle w" "newMigrator env name (Some drv) path fs = Inr (drv, src)" "good_source src" "scripts_ok ok src"
    and "f \<in> set src" "fst (ver w) = int (mf_version f)"
    and "db_MigrateDown env name (Some drv) path fs steps w = (e, w')"
  shows "idle w' \<and> run_result script (take (nat steps) (down_plan (rev (applied src (fst (ver w))))))
      (view ver content w) e (view ver content w')
    \<and> (e = None \<longrightarrow> 0 < steps \<and> steps \<le> int (length (applied src (fst (ver w)))))"
proof (cases "0 < steps")
  case True
  obtain e1 w1 where 1: "Migrate_Steps drv src (- steps) w = (e1, w1)" by fastforce
  show ?thesis
    using Migrate_Down_result [OF assms(1,3-6) True 1] assms(2,7) 1 True
    by (auto simp: db_MigrateDown_def run_result_def split: option.splits)
next
  case False
  then show ?thesis using assms(1,7) by (auto simp: db_MigrateDown_def run_result_def view_def)
qed

lemma db_MigrateForce_result:
  assumes "idle w" "db_MigrateForce env name (Some drv) path fs v w = (e, w')"
  shows "idle w' \<and> content w' = content w \<and> (e = None \<longrightarrow> v \<ge> -1 \<and> ver w' = (v, False))
    \<and> (ver w' = ver w \<or> ver w' = (v, False))"
proof -
  have "Migrate_Force drv v w = (e1, w1) \<Longrightarrow> idle w1 \<and> content w1 = content w \<and> (e1 = None \<longrightarrow> v \<ge> -1 \<and> ver w1 = (v, False))
    \<and> (ver w1 = ver w \<or> ver w1 = (v, False))" for e1 w1
  proof (cases "v < -1")
    case False
    assume m: "Migrate_Force drv v w = (e1, w1)"
    obtain a x where 1: "drv_Lock drv w = (a, x)" by fastforce
    obtain b y where 2: "drv_SetVersion drv v False x = (b, y)" by fastforce
    obtain c z where 3: "drv_Unlock drv y = (c, z)" by fastforce
    note v1 = Lock_law [OF assms(1) 1]
    note v2 = SetVersion_law [OF conjunct1 [OF v1] _ 2]
    show ?thesis
      using m False 1 2 3 v1 v2 Unlock_law [OF _ 3]
      by (auto simp: Migrate_Force_def unlockErr_def errors_Join_None_iff split: option.splits if_splits)
  qed (use assms(1) in \<open>auto simp: Migrate_Force_def\<close>)
  then show ?thesis
    using assms newMigrator_drv [of env name drv path fs]
    by (auto simp: db_MigrateForce_def split: sum.splits prod.splits option.splits)
qed

end

section \<open>Down after up\<close>

text \<open>The down file of a version takes back what its up file did.\<close>

definition inverse_files :: "(string \<Rightarrow> 'u \<Rightarrow> 'u) \<Rightarrow> source \<Rightarrow> bool" where
  "inverse_files script src \<longleftrightarrow> (\<forall>f\<in>set src. \<forall>u t. run_body script (run_body script u (up_migration f)) (down_migration f t) = u)"

lemma split_source:
  "source_ok src \<Longrightarrow> known src v \<Longrightarrow> src = applied src v @ later src v"
proof (induction src)
  case (Cons f src)
  show ?case
  proof (cases "int (mf_version f) \<le> v")
    case True
    have "known src v \<or> v = int (mf_version f)" using Cons.prems(2) by (auto simp: known_def versions_def)
    moreover have "v = int (mf_version f) \<Longrightarrow> applied src v = [] \<and> later src v = src"
      using Cons.prems(1) by (auto simp: applied_def later_def filter_empty_conv filter_id_conv)
    ultimately show ?thesis using Cons True by (auto simp: applied_def later_def)
  next
    case False
    then have "applied (f # src) v = [] \<and> later (f # src) v = f # src"
      using Cons.prems(1) by (auto simp: applied_def later_def filter_empty_conv filter_id_conv)
    then show ?thesis by simp
  qed
qed (simp add: applied_def later_def)

lemma applied_last: "source_ok src \<Longrightarrow> known src v \<Longrightarrow> v = (if applied src v = [] then -1 else int (mf_version (last (applied src v))))"
proof -
  assume ok: "source_ok src" and v: "known src v"
  show ?thesis
  proof (cases "v = -1")
    case True
    then show ?thesis by (simp add: applied_def)
  next
    case False
    then obtain f where f: "f \<in> set src" "v = int (mf_version f)" using v by (auto simp: known_def versions_def)
    then obtain A B where "src = A @ f # B" by (meson split_list)
    then have "applied src v = A @ [f]" using applied_split ok f(2) by simp
    then show ?thesis using f(2) by simp
  qed
qed

definition top_version :: "source \<Rightarrow> int" where
  "top_version A = (if A = [] then -1 else int (mf_version (last A)))"

lemma down_plan_top: "down_plan (f # rev A) = down_migration f (top_version A) # down_plan (rev A)"
  by (cases A rule: rev_cases) (simp_all add: top_version_def)

lemma down_undoes_up:
  "inverse_files script L \<Longrightarrow>
     run_all script (take (length L) (down_plan (rev (A @ L)))) (run_all script (map up_migration L) u) = u"
proof (induction L rule: rev_induct)
  case (snoc f L)
  then have IH: "run_all script (take (length L) (down_plan (rev (A @ L)))) (run_all script (map up_migration L) u) = u"
    and inv: "\<And>u t. run_body script (run_body script u (up_migration f)) (down_migration f t) = u"
    by (simp_all add: inverse_files_def)
  have "down_plan (rev (A @ L @ [f])) = down_migration f (top_version (A @ L)) # down_plan (rev (A @ L))"
    using down_plan_top [of f "A @ L"] by simp
  then show ?case using IH inv by (simp add: run_all_append)
qed simp

lemma down_version:
  "L \<noteq> [] \<Longrightarrow> version_after v (take (length L) (down_plan (rev (A @ L)))) = (top_version A, False)"
proof (induction L arbitrary: v rule: rev_induct)
  case (snoc f L)
  have p: "down_plan (rev (A @ L @ [f])) = down_migration f (top_version (A @ L)) # down_plan (rev (A @ L))"
    using down_plan_top [of f "A @ L"] by simp
  show ?case
  proof (cases "L = []")
    case True
    then show ?thesis using p by (simp add: down_migration_def)
  next
    case False
    then show ?thesis using p snoc.IH by simp
  qed
qed simp

section \<open>Runs without failures\<close>

text \<open>A driver on a database where no statement fails; \<open>locked\<close> says whether its lock is held.\<close>

locale reliable_driver = migration_driver +
  fixes locked :: "'a \<Rightarrow> bool"
  assumes Lock_ok: "\<And>w e w'. idle w \<Longrightarrow> \<not> locked w \<Longrightarrow> drv_Lock drv w = (e, w') \<Longrightarrow> e = None \<and> locked w'"
    and Unlock_ok: "\<And>w e w'. idle w \<Longrightarrow> locked w \<Longrightarrow> drv_Unlock drv w = (e, w') \<Longrightarrow> e = None \<and> \<not> locked w'"
    and Version_ok: "\<And>w r w'. idle w \<Longrightarrow> drv_Version drv w = (r, w') \<Longrightarrow> (\<exists>v. r = Inr v) \<and> locked w' = locked w"
    and SetVersion_ok: "\<And>w v d e w'. idle w \<Longrightarrow> v \<ge> -1 \<Longrightarrow> drv_SetVersion drv v d w = (e, w') \<Longrightarrow> e = None \<and> locked w' = locked w"
    and Run_ok: "\<And>w q e w'. idle w \<Longrightarrow> ok q \<Longrightarrow> drv_Run drv q w = (e, w') \<Longrightarrow> e = None \<and> locked w' = locked w"
begin

lemma runMigrations_succeeds:
  "idle w \<Longrightarrow> plan_ok ok ms \<Longrightarrow> runMigrations drv (map MsgMigration ms @ map MsgError es) w = (e, w') \<Longrightarrow>
     e = (case es of [] \<Rightarrow> None | x # _ \<Rightarrow> Some x) \<and> idle w' \<and> locked w' = locked w"
proof (induction ms arbitrary: w)
  case Nil
  then show ?case by (cases es) auto
next
  case (Cons m ms)
  obtain e1 w1 where 1: "drv_SetVersion drv (mg_TargetVersion m) True w = (e1, w1)" by fastforce
  obtain e2 w2 where 2: "(case mg_Body m of None \<Rightarrow> (None, w1) | Some body \<Rightarrow> drv_Run drv body w1) = (e2, w2)" by fastforce
  obtain e3 w3 where 3: "drv_SetVersion drv (mg_TargetVersion m) False w2 = (e3, w3)" by fastforce
  have t: "mg_TargetVersion m \<ge> -1" "plan_ok ok ms" "\<forall>q. mg_Body m = Some q \<longrightarrow> ok q"
    using Cons.prems(2) by (simp_all add: plan_ok_def)
  have i1: "idle w1" "e1 = None" "locked w1 = locked w"
    using SetVersion_law [OF Cons.prems(1) t(1) 1] SetVersion_ok [OF Cons.prems(1) t(1) 1] by simp_all
  have i2: "idle w2" using run_migration_body [OF i1(1) t(3) 2] by simp
  have n2: "e2 = None" "locked w2 = locked w"
    using Run_ok [OF i1(1), of _ e2 w2] 2 t(3) i1(3) by (auto split: option.splits)
  have i3: "idle w3" "e3 = None" "locked w3 = locked w"
    using SetVersion_law [OF i2 t(1) 3] SetVersion_ok [OF i2 t(1) 3] n2 by simp_all
  show ?case using Cons.IH [OF i3(1) t(2)] Cons.prems(3) 1 2 3 i1 n2 i3 by simp
qed

lemma Migrate_Up_succeeds:
  assumes "idle w" "\<not> locked w" "good_source src" "scripts_ok ok src" "known src (fst (ver w))" "\<not> snd (ver w)"
    and "Migrate_Up drv src w = (e, w')"
  shows "e = (if pending src (fst (ver w)) = [] then Some ErrNoChange else None)"
proof -
  obtain e1 w1 where 1: "drv_Lock drv w = (e1, w1)" by fastforce
  have a: "idle w1" "ver w1 = ver w" "e1 = None" "locked w1"
    using Lock_law [OF assms(1) 1] Lock_ok [OF assms(1,2) 1] by simp_all
  obtain r w2 where 2: "drv_Version drv w1 = (r, w2)" by fastforce
  have b: "idle w2" "r = Inr (ver w)" "locked w2"
    using Version_law [OF a(1) 2] Version_ok [OF a(1) 2] a by auto
  let ?p = "pending src (fst (ver w))"
  let ?es = "if ?p = [] then [ErrNoChange] else []"
  have m: "readUp src (fst (ver w)) (-1) = map MsgMigration ?p @ map MsgError ?es"
    using readUp_pending [OF assms(3,5)] by simp
  obtain e3 w3 where 3: "runMigrations drv (map MsgMigration ?p @ map MsgError ?es) w2 = (e3, w3)" by fastforce
  have c: "e3 = (case ?es of [] \<Rightarrow> None | x # _ \<Rightarrow> Some x)" "idle w3" "locked w3"
    using runMigrations_succeeds [OF b(1) pending_ok [OF assms(4)] 3] b(3) by simp_all
  obtain e4 w4 where 4: "drv_Unlock drv w3 = (e4, w4)" by fastforce
  have "e4 = None" using Unlock_ok [OF c(2,3) 4] by simp
  then have "e = e3"
    using assms(6,7) 1 2 3 4 a b m by (simp add: Migrate_Up_def run_locked_def unlockErr_def split: prod.splits)
  then show ?thesis using c(1) by simp
qed

end

end
