(* ===== verification/Sqlite.thy ===== *)
theory Sqlite
  imports MigrateRuns
begin

text \<open>
  Package sqlite (src/db/sqlite): the migration driver for a database handle of the caller and the
  migration functions on it. The handle is code outside the repository, a record of operations on a
  state; what the driver relies on (transactions, and what its own statements do to the table
  schema_migrations) is the predicate \<open>sql_contract\<close>.
\<close>

section \<open>The database handle\<close>

datatype sql_arg = ArgInt int | ArgBool bool

record 'w sql_db =
  sql_Ping :: "'w \<Rightarrow> err \<times> 'w"
  sql_Exec :: "string \<Rightarrow> 'w \<Rightarrow> err \<times> 'w"
  sql_BeginTx :: "'w \<Rightarrow> err \<times> 'w"
  tx_Exec :: "string \<Rightarrow> sql_arg list \<Rightarrow> 'w \<Rightarrow> err \<times> 'w"
  tx_Commit :: "'w \<Rightarrow> err \<times> 'w"
  tx_Rollback :: "'w \<Rightarrow> err \<times> 'w"
  sql_QueryVersion :: "string \<Rightarrow> 'w \<Rightarrow> (int \<times> bool) res \<times> 'w"

abbreviation "sql_ErrNoRows \<equiv> ErrNew ''sql.ErrNoRows''"
abbreviation "ErrLocked \<equiv> ErrNew ''database.ErrLocked''"
abbreviation "ErrNotLocked \<equiv> ErrNew ''database.ErrNotLocked''"

definition NilVersion :: int where
  "NilVersion = -1"

section \<open>The driver\<close>

definition createMigrationTableStatement :: string where
  "createMigrationTableStatement = [CHR 0x0A] @ ''CREATE TABLE IF NOT EXISTS schema_migrations (version uint64, dirty bool);''
     @ [CHR 0x0A] @ ''CREATE UNIQUE INDEX IF NOT EXISTS version_unique ON schema_migrations (version);'' @ [CHR 0x0A]"

definition deleteMigrationVersionStatement :: string where
  "deleteMigrationVersionStatement = ''DELETE FROM schema_migrations''"

definition selectMigrationVersionStatement :: string where
  "selectMigrationVersionStatement = ''SELECT version, dirty FROM schema_migrations LIMIT 1''"

definition insertMigrationVersionStatement :: string where
  "insertMigrationVersionStatement = [CHR 0x0A] @ ''INSERT INTO schema_migrations (version, dirty)'' @ [CHR 0x0A] @ ''VALUES (?, ?)''"

text \<open>The state of a driver is its locked flag next to the state of the database.\<close>

type_synonym 'w locked = "bool \<times> 'w"

fun sqlite_Lock :: "'w locked \<Rightarrow> err \<times> 'w locked" where
  "sqlite_Lock (locked, w) = (if locked then (Some ErrLocked, (locked, w)) else (None, (True, w)))"

fun sqlite_Unlock :: "'w locked \<Rightarrow> err \<times> 'w locked" where
  "sqlite_Unlock (locked, w) = (if \<not> locked then (Some ErrNotLocked, (locked, w)) else (None, (False, w)))"

definition sqlite_Open :: "string \<Rightarrow> go_error" where
  "sqlite_Open url = wrapped ErrUnsupported ''open SQLite migration database''"

definition sqlite_Close :: err where
  "sqlite_Close = None"

definition sqlite_Drop :: go_error where
  "sqlite_Drop = wrapped ErrUnsupported ''drop SQLite database''"

definition rollbackWithError :: "'w sql_db \<Rightarrow> go_error \<Rightarrow> string \<Rightarrow> 'w \<Rightarrow> err \<times> 'w" where
  "rollbackWithError sql originalErr query w =
     (case tx_Rollback sql w of
        (Some e, w) \<Rightarrow> (Some (DatabaseError (errors_Join [Some originalErr, Some e]) '''' query), w)
      | (None, w) \<Rightarrow> (Some (DatabaseError (Some originalErr) '''' query), w))"

definition sqlite_execute :: "'w sql_db \<Rightarrow> string \<Rightarrow> 'w \<Rightarrow> err \<times> 'w" where
  "sqlite_execute sql query w =
     (case sql_BeginTx sql w of
        (Some e, w) \<Rightarrow> (Some (DatabaseError (Some e) ''start migration transaction'' ''''), w)
      | (None, w) \<Rightarrow>
          (case tx_Exec sql query [] w of
             (Some e, w) \<Rightarrow> rollbackWithError sql e query w
           | (None, w) \<Rightarrow>
               (case tx_Commit sql w of
                  (Some e, w) \<Rightarrow> (Some (DatabaseError (Some e) ''commit migration transaction'' ''''), w)
                | (None, w) \<Rightarrow> (None, w))))"

text \<open>
  The migration is what \<open>io.ReadAll\<close> gives. golang-migrate hands the driver the end of a pipe it fills with the body and
  closes without an error, so that this is the body.
\<close>

definition sqlite_Run :: "'w sql_db \<Rightarrow> string res \<Rightarrow> 'w locked \<Rightarrow> err \<times> 'w locked" where
  "sqlite_Run sql migration s =
     (case migration of
        Inl e \<Rightarrow> (Some (wrapped e ''read migration''), s)
      | Inr contents \<Rightarrow> (case s of (l, w) \<Rightarrow> case sqlite_execute sql contents w of (e, w) \<Rightarrow> (e, (l, w))))"

definition commit_version :: "'w sql_db \<Rightarrow> 'w \<Rightarrow> err \<times> 'w" where
  "commit_version sql w =
     (case tx_Commit sql w of
        (Some e, w) \<Rightarrow> (Some (DatabaseError (Some e) ''commit migration version transaction'' ''''), w)
      | (None, w) \<Rightarrow> (None, w))"

definition write_version :: "'w sql_db \<Rightarrow> int \<Rightarrow> bool \<Rightarrow> 'w \<Rightarrow> err \<times> 'w" where
  "write_version sql version dirty w =
     (case sql_BeginTx sql w of
        (Some e, w) \<Rightarrow> (Some (DatabaseError (Some e) ''start migration version transaction'' ''''), w)
      | (None, w) \<Rightarrow>
          (case tx_Exec sql deleteMigrationVersionStatement [] w of
             (Some e, w) \<Rightarrow> rollbackWithError sql e deleteMigrationVersionStatement w
           | (None, w) \<Rightarrow>
               if version \<ge> 0 \<or> (version = NilVersion \<and> dirty) then
                 (case tx_Exec sql insertMigrationVersionStatement [ArgInt version, ArgBool dirty] w of
                    (Some e, w) \<Rightarrow> rollbackWithError sql e insertMigrationVersionStatement w
                  | (None, w) \<Rightarrow> commit_version sql w)
               else commit_version sql w))"

definition sqlite_SetVersion :: "'w sql_db \<Rightarrow> int \<Rightarrow> bool \<Rightarrow> 'w locked \<Rightarrow> err \<times> 'w locked" where
  "sqlite_SetVersion sql version dirty s =
     (case s of (l, w) \<Rightarrow> case write_version sql version dirty w of (e, w) \<Rightarrow> (e, (l, w)))"

definition sqlite_Version :: "'w sql_db \<Rightarrow> 'w locked \<Rightarrow> (int \<times> bool) res \<times> 'w locked" where
  "sqlite_Version sql s =
     (case s of (l, w) \<Rightarrow> case sql_QueryVersion sql selectMigrationVersionStatement w of
        (Inl e, w) \<Rightarrow> (if errors_Is e sql_ErrNoRows then Inr (NilVersion, False)
            else Inl (DatabaseError (Some e) '''' selectMigrationVersionStatement), (l, w))
      | (Inr (version, dirty), w) \<Rightarrow> (Inr (version, dirty), (l, w)))"

definition ensureMigrationTable :: "'w sql_db \<Rightarrow> 'w locked \<Rightarrow> err \<times> 'w locked" where
  "ensureMigrationTable sql s =
     (case sqlite_Lock s of
        (Some e, s) \<Rightarrow> (Some (wrapped e ''lock migration driver''), s)
      | (None, (l, w)) \<Rightarrow>
          (case sql_Exec sql createMigrationTableStatement w of (executionErr, w) \<Rightarrow>
             (case sqlite_Unlock (l, w) of (unlockError, s) \<Rightarrow>
                (case executionErr of
                   Some e \<Rightarrow> (Some (DatabaseError (if unlockError \<noteq> None then errors_Join [Some e, unlockError] else Some e)
                     '''' createMigrationTableStatement), s)
                 | None \<Rightarrow> (Wrap unlockError ''unlock migration driver'', s)))))"

definition sqlite_driver :: "'w sql_db \<Rightarrow> 'w locked driver" where
  "sqlite_driver sql = \<lparr>drv_Lock = sqlite_Lock, drv_Unlock = sqlite_Unlock, drv_Run = (\<lambda>body. sqlite_Run sql (Inr body)),
     drv_SetVersion = sqlite_SetVersion sql, drv_Version = sqlite_Version sql\<rparr>"

definition newDriver :: "'w sql_db \<Rightarrow> 'w \<Rightarrow> 'w locked driver res \<times> 'w locked" where
  "newDriver sql w =
     (case ensureMigrationTable sql (False, w) of
        (Some e, s) \<Rightarrow> (Inl (wrapped e ''ensure migration table''), s)
      | (None, s) \<Rightarrow> (Inr (sqlite_driver sql), s))"

section \<open>The migration functions\<close>

definition migrationDriver :: "'w sql_db option \<Rightarrow> 'w \<Rightarrow> 'w locked driver res \<times> 'w locked" where
  "migrationDriver sqlDB w =
     (case sqlDB of
        None \<Rightarrow> (Inl (wrapped ErrRequiredFieldNotSet ''SQLite database''), (False, w))
      | Some sql \<Rightarrow>
          (case sql_Ping sql w of
             (Some e, w) \<Rightarrow> (Inl (wrapped e ''ping SQLite database''), (False, w))
           | (None, w) \<Rightarrow>
               (case newDriver sql w of
                  (Inl e, s) \<Rightarrow> (Inl (wrapped e ''create SQLite migration driver''), s)
                | (Inr drv, s) \<Rightarrow> (Inr drv, s))))"

definition sqlite_MigrateUp ::
  "'fs migration_env \<Rightarrow> 'w sql_db option \<Rightarrow> string \<Rightarrow> 'fs option \<Rightarrow> 'w \<Rightarrow> err \<times> 'w" where
  "sqlite_MigrateUp env sqlDB path migrationFS w =
     (case migrationDriver sqlDB w of
        (Inl e, s) \<Rightarrow> (Some (wrapped e ''create SQLite migration driver''), snd s)
      | (Inr drv, s) \<Rightarrow>
          (case db_MigrateUp env ''sqlite'' (Some drv) path migrationFS s of
             (Some e, s) \<Rightarrow> (Some (wrapped e ''migrate SQLite up''), snd s)
           | (None, s) \<Rightarrow> (None, snd s)))"

definition sqlite_MigrateDown ::
  "'fs migration_env \<Rightarrow> 'w sql_db option \<Rightarrow> string \<Rightarrow> int \<Rightarrow> 'fs option \<Rightarrow> 'w \<Rightarrow> err \<times> 'w" where
  "sqlite_MigrateDown env sqlDB path steps migrationFS w =
     (case migrationDriver sqlDB w of
        (Inl e, s) \<Rightarrow> (Some (wrapped e ''create SQLite migration driver''), snd s)
      | (Inr drv, s) \<Rightarrow>
          (case db_MigrateDown env ''sqlite'' (Some drv) path migrationFS steps s of
             (Some e, s) \<Rightarrow> (Some (wrapped e ''migrate SQLite down''), snd s)
           | (None, s) \<Rightarrow> (None, snd s)))"

definition sqlite_MigrateForce ::
  "'fs migration_env \<Rightarrow> 'w sql_db option \<Rightarrow> string \<Rightarrow> int \<Rightarrow> 'fs option \<Rightarrow> 'w \<Rightarrow> err \<times> 'w" where
  "sqlite_MigrateForce env sqlDB path version migrationFS w =
     (case migrationDriver sqlDB w of
        (Inl e, s) \<Rightarrow> (Some (wrapped e ''create SQLite migration driver''), snd s)
      | (Inr drv, s) \<Rightarrow>
          (case db_MigrateForce env ''sqlite'' (Some drv) path migrationFS version s of
             (Some e, s) \<Rightarrow> (Some (wrapped e ''force SQLite migration version''), snd s)
           | (None, s) \<Rightarrow> (None, snd s)))"

section \<open>What the driver relies on\<close>

text \<open>
  The database has a committed content and, while a transaction is open, the content the transaction
  sees. A content is the rows of schema_migrations (none while the table does not exist) next to
  everything else, on which a migration's script acts. A statement may fail at any point:
  \<^item> what a transaction does shows only after a commit that returned no error;
  \<^item> commit and rollback end the transaction even when they fail;
  \<^item> scripts leave the migration table alone and change the rest as \<open>script\<close> says.
  Of statements other than the driver's own the contract speaks only of those in \<open>scripts\<close>: a text outside it, such as
  one that ends the transaction, may do anything.
\<close>

type_synonym 'u db_content = "(int \<times> bool) list \<times> 'u"

definition statement_effect :: "(string \<Rightarrow> 'u \<Rightarrow> 'u) \<Rightarrow> string \<Rightarrow> sql_arg list \<Rightarrow> 'u db_content \<Rightarrow> 'u db_content" where
  "statement_effect script q args c =
     (if q = deleteMigrationVersionStatement then ([], snd c)
      else if q = insertMigrationVersionStatement
        then (case args of [ArgInt v, ArgBool d] \<Rightarrow> (fst c @ [(v, d)], snd c) | _ \<Rightarrow> c)
      else (fst c, script q (snd c)))"

definition own_statements :: "string set" where
  "own_statements = {deleteMigrationVersionStatement, insertMigrationVersionStatement}"

definition sql_contract ::
  "string set \<Rightarrow> 'w sql_db \<Rightarrow> ('w \<Rightarrow> 'u db_content) \<Rightarrow> ('w \<Rightarrow> 'u db_content option) \<Rightarrow> (string \<Rightarrow> 'u \<Rightarrow> 'u) \<Rightarrow> bool" where
  "sql_contract scripts sql committed open_tx script \<longleftrightarrow>
     (\<forall>w e w'. sql_Ping sql w = (e, w') \<longrightarrow> committed w' = committed w \<and> open_tx w' = open_tx w)
   \<and> (\<forall>w e w'. sql_Exec sql createMigrationTableStatement w = (e, w') \<longrightarrow> committed w' = committed w \<and> open_tx w' = open_tx w)
   \<and> (\<forall>w e w'. open_tx w = None \<longrightarrow> sql_BeginTx sql w = (e, w') \<longrightarrow>
        committed w' = committed w \<and> open_tx w' = (if e = None then Some (committed w) else None))
   \<and> (\<forall>w c q args e w'. q \<in> scripts \<union> own_statements \<longrightarrow> open_tx w = Some c \<longrightarrow> tx_Exec sql q args w = (e, w') \<longrightarrow>
        committed w' = committed w \<and> (\<exists>c'. open_tx w' = Some c' \<and> (e = None \<longrightarrow> c' = statement_effect script q args c)))
   \<and> (\<forall>w c e w'. open_tx w = Some c \<longrightarrow> tx_Commit sql w = (e, w') \<longrightarrow>
        committed w' = (if e = None then c else committed w) \<and> open_tx w' = None)
   \<and> (\<forall>w e w'. tx_Rollback sql w = (e, w') \<longrightarrow> committed w' = committed w \<and> open_tx w' = None)
   \<and> (\<forall>w r w'. sql_QueryVersion sql selectMigrationVersionStatement w = (r, w') \<longrightarrow>
        committed w' = committed w \<and> open_tx w' = open_tx w
        \<and> (\<forall>row. r = Inr row \<longrightarrow> (\<exists>rows. fst (committed w) = row # rows))
        \<and> (\<forall>e. r = Inl e \<and> errors_Is e sql_ErrNoRows \<longrightarrow> fst (committed w) = []))"

fun ledger :: "(int \<times> bool) list \<Rightarrow> int \<times> bool" where
  "ledger [] = (NilVersion, False)"
| "ledger (row # _) = row"

definition script_ok :: "string set \<Rightarrow> string \<Rightarrow> bool" where
  "script_ok scripts q \<longleftrightarrow> q \<in> scripts \<and> q \<notin> own_statements"

lemma own [simp]: "deleteMigrationVersionStatement \<in> scripts \<union> own_statements" "insertMigrationVersionStatement \<in> scripts \<union> own_statements"
  by (simp_all add: own_statements_def)

lemma script_okD: "script_ok scripts q \<Longrightarrow> q \<in> scripts \<union> own_statements"
  "script_ok scripts q \<Longrightarrow> statement_effect script q [] c = (fst c, script q (snd c))"
  by (auto simp: script_ok_def own_statements_def statement_effect_def)

lemma statement_effects [simp]:
  "statement_effect script deleteMigrationVersionStatement args c = ([], snd c)"
  "statement_effect script insertMigrationVersionStatement [ArgInt v, ArgBool d] c = (fst c @ [(v, d)], snd c)"
  by (simp_all add: statement_effect_def deleteMigrationVersionStatement_def insertMigrationVersionStatement_def)

lemmas contract_Ping = sql_contract_def [THEN iffD1, THEN conjunct1, rule_format]
lemmas contract_Create = sql_contract_def [THEN iffD1, THEN conjunct2, THEN conjunct1, rule_format]
lemmas contract_Begin = sql_contract_def [THEN iffD1, THEN conjunct2, THEN conjunct2, THEN conjunct1, rule_format]
lemmas contract_Exec = sql_contract_def [THEN iffD1, THEN conjunct2, THEN conjunct2, THEN conjunct2, THEN conjunct1, rule_format]
lemmas contract_Commit = sql_contract_def [THEN iffD1, THEN conjunct2, THEN conjunct2, THEN conjunct2, THEN conjunct2, THEN conjunct1, rule_format]
lemmas contract_Rollback = sql_contract_def [THEN iffD1, THEN conjunct2, THEN conjunct2, THEN conjunct2, THEN conjunct2, THEN conjunct2, THEN conjunct1, rule_format]
lemmas contract_Query = sql_contract_def [THEN iffD1, THEN conjunct2, THEN conjunct2, THEN conjunct2, THEN conjunct2, THEN conjunct2, THEN conjunct2, rule_format]

section \<open>The operations of the driver\<close>

lemma rollback_effect:
  assumes "sql_contract scripts sql committed open_tx script" "rollbackWithError sql x q w = (e, w')"
  shows "committed w' = committed w \<and> open_tx w' = None \<and> (\<exists>o'. e = Some (DatabaseError o' '''' q))"
proof -
  obtain e1 w1 where 1: "tx_Rollback sql w = (e1, w1)" by fastforce
  show ?thesis using contract_Rollback [OF assms(1) 1] assms(2) 1 by (cases e1) (auto simp: rollbackWithError_def)
qed

text \<open>A transaction with a list of statements, the common shape of the two operations that write.\<close>

definition failed :: "err \<Rightarrow> bool" where
  "failed e \<longleftrightarrow> (\<exists>o' m q. e = Some (DatabaseError o' m q))"

lemma commit_effect:
  assumes "sql_contract scripts sql committed open_tx script" "open_tx w = Some c" "commit_version sql w = (e, w')"
  shows "committed w' = (if e = None then c else committed w) \<and> open_tx w' = None \<and> (e = None \<or> failed e)"
proof -
  obtain e1 w1 where 1: "tx_Commit sql w = (e1, w1)" by fastforce
  show ?thesis using contract_Commit [OF assms(1,2) 1] assms(3) 1 by (cases e1) (auto simp: commit_version_def failed_def)
qed

lemma execute_effect:
  assumes c: "sql_contract scripts sql committed open_tx script" and "open_tx w = None" "sqlite_execute sql q w = (e, w')"
    and q: "q \<in> scripts \<union> own_statements"
  shows "open_tx w' = None \<and> (e = None \<or> failed e)
    \<and> committed w' = (if e = None then statement_effect script q [] (committed w) else committed w)"
proof -
  obtain e1 w1 where 1: "sql_BeginTx sql w = (e1, w1)" by fastforce
  note v1 = contract_Begin [OF c assms(2) 1]
  show ?thesis
  proof (cases e1)
    case (Some x)
    then show ?thesis using v1 assms(3) 1 by (auto simp: sqlite_execute_def failed_def)
  next
    case None
    obtain e2 w2 where 2: "tx_Exec sql q [] w1 = (e2, w2)" by fastforce
    have o1: "open_tx w1 = Some (committed w)" using v1 None by simp
    obtain c2 where v2: "committed w2 = committed w1" "open_tx w2 = Some c2" "e2 = None \<longrightarrow> c2 = statement_effect script q [] (committed w)"
      using contract_Exec [OF c q o1 2] by auto
    show ?thesis
    proof (cases e2)
      case (Some x)
      then have "rollbackWithError sql x q w2 = (e, w')" using assms(3) 1 2 None by (simp add: sqlite_execute_def)
      from rollback_effect [OF c this] show ?thesis using v1 v2 by (auto simp: failed_def)
    next
      case n2: None
      obtain e3 w3 where 3: "tx_Commit sql w2 = (e3, w3)" by fastforce
      show ?thesis using contract_Commit [OF c v2(2) 3] v1 v2 n2 None 1 2 3 assms(3)
        by (cases e3) (auto simp: sqlite_execute_def failed_def)
    qed
  qed
qed

lemma write_version_effect:
  assumes c: "sql_contract scripts sql committed open_tx script" and "open_tx w = None" "write_version sql v d w = (e, w')"
  shows "open_tx w' = None \<and> (e = None \<or> failed e)
    \<and> committed w' = (if e = None then (if v \<ge> 0 \<or> (v = NilVersion \<and> d) then [(v, d)] else [], snd (committed w)) else committed w)"
proof -
  obtain e1 w1 where 1: "sql_BeginTx sql w = (e1, w1)" by fastforce
  note v1 = contract_Begin [OF c assms(2) 1]
  show ?thesis
  proof (cases e1)
    case (Some x)
    then show ?thesis using v1 assms(3) 1 by (auto simp: write_version_def failed_def)
  next
    case n1: None
    obtain e2 w2 where 2: "tx_Exec sql deleteMigrationVersionStatement [] w1 = (e2, w2)" by fastforce
    have o1: "open_tx w1 = Some (committed w)" using v1 n1 by simp
    obtain c2 where v2: "committed w2 = committed w1" "open_tx w2 = Some c2" "e2 = None \<longrightarrow> c2 = ([], snd (committed w))"
      using contract_Exec [OF c own(1) o1 2] by auto
    show ?thesis
    proof (cases e2)
      case (Some x)
      then have "rollbackWithError sql x deleteMigrationVersionStatement w2 = (e, w')"
        using assms(3) 1 2 n1 by (simp add: write_version_def)
      from rollback_effect [OF c this] show ?thesis using v1 v2 by (auto simp: failed_def)
    next
      case n2: None
      show ?thesis
      proof (cases "v \<ge> 0 \<or> (v = NilVersion \<and> d)")
        case False
        then have "commit_version sql w2 = (e, w')" using assms(3) 1 2 n1 n2 by (auto simp: write_version_def)
        from commit_effect [OF c v2(2) this] show ?thesis using v1 v2 n2 False by auto
      next
        case True
        obtain e3 w3 where 3: "tx_Exec sql insertMigrationVersionStatement [ArgInt v, ArgBool d] w2 = (e3, w3)" by fastforce
        obtain c3 where v3: "committed w3 = committed w2" "open_tx w3 = Some c3" "e3 = None \<longrightarrow> c3 = (fst c2 @ [(v, d)], snd c2)"
          using contract_Exec [OF c own(2) v2(2) 3] by auto
        show ?thesis
        proof (cases e3)
          case (Some x)
          then have "rollbackWithError sql x insertMigrationVersionStatement w3 = (e, w')"
            using assms(3) 1 2 3 n1 n2 True by (simp add: write_version_def)
          from rollback_effect [OF c this] show ?thesis using v1 v2 v3 by (auto simp: failed_def)
        next
          case None
          then have "commit_version sql w3 = (e, w')" using assms(3) 1 2 3 n1 n2 True by (simp add: write_version_def)
          from commit_effect [OF c v3(2) this] show ?thesis using v1 v2 v3 n2 None True by auto
        qed
      qed
    qed
  qed
qed

lemma Version_effect:
  assumes c: "sql_contract scripts sql committed open_tx script" and "sqlite_Version sql (l, w) = (r, s)"
  shows "\<exists>w'. s = (l, w') \<and> committed w' = committed w \<and> open_tx w' = open_tx w
    \<and> (\<forall>v. r = Inr v \<longrightarrow> v = ledger (fst (committed w))) \<and> (\<forall>e. r = Inl e \<longrightarrow> failed (Some e))"
proof -
  obtain r1 w1 where 1: "sql_QueryVersion sql selectMigrationVersionStatement w = (r1, w1)" by fastforce
  show ?thesis
    using contract_Query [OF c 1] assms(2) 1
    by (auto simp: sqlite_Version_def failed_def split: sum.splits if_splits)
qed

lemma failed_not_sentinel: "failed e \<Longrightarrow> \<not> err_is e (ErrNew s)"
  by (auto simp: failed_def)

definition db_err :: "err \<Rightarrow> bool" where
  "db_err e \<longleftrightarrow> e = None \<or> failed e"

lemma db_err_simps [simp]: "db_err None" "db_err (Some (DatabaseError o' m q))"
  by (auto simp: db_err_def failed_def)

lemma rollback_failed [simp]: "db_err (fst (rollbackWithError sql x q w))"
  by (simp add: rollbackWithError_def split: prod.split option.split)

lemma commit_failed [simp]: "db_err (fst (commit_version sql w))"
  by (simp add: commit_version_def split: prod.split option.split)

lemma write_version_failed: "db_err (fst (write_version sql v d w))"
  by (simp add: write_version_def split: prod.split option.split)

lemma execute_failed: "db_err (fst (sqlite_execute sql q w))"
  by (simp add: sqlite_execute_def split: prod.split option.split)

section \<open>The driver keeps the contract of golang-migrate\<close>

definition drv_idle :: "('w \<Rightarrow> 'u db_content option) \<Rightarrow> 'w locked \<Rightarrow> bool" where
  "drv_idle open_tx s \<longleftrightarrow> open_tx (snd s) = None"

definition drv_ver :: "('w \<Rightarrow> 'u db_content) \<Rightarrow> 'w locked \<Rightarrow> int \<times> bool" where
  "drv_ver committed s = ledger (fst (committed (snd s)))"

definition drv_content :: "('w \<Rightarrow> 'u db_content) \<Rightarrow> 'w locked \<Rightarrow> 'u" where
  "drv_content committed s = snd (committed (snd s))"

lemmas drv_view_defs = drv_idle_def drv_ver_def drv_content_def

lemma ledger_written: "v \<ge> -1 \<Longrightarrow> ledger (if v \<ge> 0 \<or> (v = NilVersion \<and> d) then [(v, d)] else []) = (v, d)"
  by (auto simp: NilVersion_def)

lemma sqlite_migration_driver:
  assumes c: "sql_contract scripts sql committed open_tx script"
  shows "migration_driver (sqlite_driver sql) (drv_idle open_tx) (drv_ver committed) (drv_content committed) script (script_ok scripts)"
proof (unfold_locales, goal_cases)
  case (1 w e w')
  then show ?case by (cases w) (auto simp: sqlite_driver_def drv_view_defs split: if_splits)
next
  case (2 w e w')
  then show ?case by (cases w) (auto simp: sqlite_driver_def drv_view_defs split: if_splits)
next
  case (3 w r w')
  then show ?case using Version_effect [OF c, of "fst w" "snd w" r w'] by (auto simp: sqlite_driver_def drv_view_defs)
next
  case (4 w v d e w')
  obtain e1 w1 where 1: "write_version sql v d (snd w) = (e1, w1)" by fastforce
  show ?case
    using write_version_effect [OF c _ 1] ledger_written [OF 4(2), of d] 4 1
    by (auto simp: sqlite_driver_def drv_view_defs sqlite_SetVersion_def split: prod.splits)
next
  case (5 w q e w')
  obtain e1 w1 where 1: "sqlite_execute sql q (snd w) = (e1, w1)" by fastforce
  show ?case
    using execute_effect [OF c _ 1 script_okD(1) [OF 5(2)]] script_okD(2) [OF 5(2), of script "committed (snd w)"] 5(1,3) 1
    by (auto simp: sqlite_driver_def drv_view_defs sqlite_Run_def split: prod.splits)
next
  case (6 w e w')
  then show ?case by (cases w) (auto simp: sqlite_driver_def split: if_splits)
next
  case (7 w e w')
  then show ?case by (cases w) (auto simp: sqlite_driver_def split: if_splits)
next
  case (8 w e w')
  then show ?case using Version_effect [OF c, of "fst w" "snd w" "Inl e" w'] failed_not_sentinel by (fastforce simp: sqlite_driver_def)
next
  case (9 w v d e w')
  then have "e = fst (write_version sql v d (snd w))"
    by (auto simp: sqlite_driver_def sqlite_SetVersion_def split: prod.splits)
  then show ?case using write_version_failed [of sql v d "snd w"] failed_not_sentinel by (auto simp: db_err_def)
next
  case (10 w q e w')
  then have "e = fst (sqlite_execute sql q (snd w))"
    by (auto simp: sqlite_driver_def sqlite_Run_def split: prod.splits)
  then show ?case using execute_failed [of sql q "snd w"] failed_not_sentinel by (auto simp: db_err_def)
qed

section \<open>A database without failures\<close>

definition sql_reliable :: "string set \<Rightarrow> 'w sql_db \<Rightarrow> ('w \<Rightarrow> 'u db_content option) \<Rightarrow> bool" where
  "sql_reliable scripts sql open_tx \<longleftrightarrow>
     (\<forall>w. fst (sql_Ping sql w) = None \<and> fst (sql_Exec sql createMigrationTableStatement w) = None)
   \<and> (\<forall>w. open_tx w = None \<longrightarrow> fst (sql_BeginTx sql w) = None)
   \<and> (\<forall>w q args. q \<in> scripts \<union> own_statements \<longrightarrow> open_tx w \<noteq> None \<longrightarrow> fst (tx_Exec sql q args w) = None)
   \<and> (\<forall>w. open_tx w \<noteq> None \<longrightarrow> fst (tx_Commit sql w) = None)
   \<and> (\<forall>w e. fst (sql_QueryVersion sql selectMigrationVersionStatement w) = Inl e \<longrightarrow> errors_Is e sql_ErrNoRows)"

lemma transaction_reliable:
  assumes c: "sql_contract scripts sql committed open_tx script" and r: "sql_reliable scripts sql open_tx" and "open_tx w = None"
  shows "q \<in> scripts \<union> own_statements \<Longrightarrow> fst (sqlite_execute sql q w) = None" and "fst (write_version sql v d w) = None"
proof -
  obtain e1 w1 where 1: "sql_BeginTx sql w = (e1, w1)" by fastforce
  have n1: "e1 = None" and o1: "open_tx w1 = Some (committed w)"
    using contract_Begin [OF c assms(3) 1] r assms(3) 1 unfolding sql_reliable_def by (metis fst_conv)+
  have ex: "\<exists>w' c'. tx_Exec sql q args x = (None, w') \<and> open_tx w' = Some c'" if "q \<in> scripts \<union> own_statements" "open_tx x = Some y" for q args x y
    using contract_Exec [OF c that, of args] r that unfolding sql_reliable_def
    by (metis (no_types, lifting) option.distinct(1) prod.collapse)
  have cm: "\<exists>w'. tx_Commit sql x = (None, w')" if "open_tx x = Some y" for x y
    using r that unfolding sql_reliable_def by (metis option.distinct(1) prod.collapse)
  show "fst (sqlite_execute sql q w) = None" if q: "q \<in> scripts \<union> own_statements"
  proof -
    obtain w2 c2 where 2: "tx_Exec sql q [] w1 = (None, w2)" "open_tx w2 = Some c2" using ex [OF q o1] by blast
    obtain w3 where 3: "tx_Commit sql w2 = (None, w3)" using cm [OF 2(2)] by blast
    show ?thesis using 1 2 3 n1 by (simp add: sqlite_execute_def)
  qed
  obtain w4 c4 where 4: "tx_Exec sql deleteMigrationVersionStatement [] w1 = (None, w4)" "open_tx w4 = Some c4"
    using ex [OF own(1) o1] by blast
  obtain w5 c5 where 5: "tx_Exec sql insertMigrationVersionStatement [ArgInt v, ArgBool d] w4 = (None, w5)" "open_tx w5 = Some c5"
    using ex [OF own(2) 4(2)] by blast
  obtain w6 w7 where "tx_Commit sql w4 = (None, w6)" "tx_Commit sql w5 = (None, w7)" using cm [OF 4(2)] cm [OF 5(2)] by blast
  then show "fst (write_version sql v d w) = None" using 1 4 5 n1 by (simp add: write_version_def commit_version_def)
qed

lemma sqlite_reliable_driver:
  assumes c: "sql_contract scripts sql committed open_tx script" and r: "sql_reliable scripts sql open_tx"
  shows "reliable_driver (sqlite_driver sql) (drv_idle open_tx) (drv_ver committed) (drv_content committed) script (script_ok scripts) fst"
proof (intro reliable_driver.intro reliable_driver_axioms.intro sqlite_migration_driver [OF c], goal_cases)
  case (1 w e w')
  then show ?case by (cases w) (auto simp: sqlite_driver_def)
next
  case (2 w e w')
  then show ?case by (cases w) (auto simp: sqlite_driver_def)
next
  case (3 w x w')
  obtain y z where q: "sql_QueryVersion sql selectMigrationVersionStatement (snd w) = (y, z)" by fastforce
  moreover have "\<And>e. y = Inl e \<Longrightarrow> errors_Is e sql_ErrNoRows" using r q unfolding sql_reliable_def by (metis fst_conv)
  ultimately show ?case using 3 by (cases w) (auto simp: sqlite_driver_def sqlite_Version_def split: sum.splits)
next
  case (4 w v d e w')
  then show ?case using transaction_reliable(2) [OF c r, of "snd w" v d]
    by (cases w) (auto simp: sqlite_driver_def sqlite_SetVersion_def drv_idle_def split: prod.splits)
next
  case (5 w q e w')
  then show ?case using transaction_reliable(1) [OF c r _ script_okD(1), of "snd w" q]
    by (cases w) (auto simp: sqlite_driver_def sqlite_Run_def drv_idle_def split: prod.splits)
qed

section \<open>The migration functions on a database\<close>

definition db_view :: "('w \<Rightarrow> 'u db_content) \<Rightarrow> 'w \<Rightarrow> (int \<times> bool) \<times> 'u" where
  "db_view committed w = (ledger (fst (committed w)), snd (committed w))"

lemma view_db [simp]: "view (drv_ver committed) (drv_content committed) s = db_view committed (snd s)"
  by (simp add: view_def db_view_def drv_ver_def drv_content_def)

lemma ensure_effect:
  assumes c: "sql_contract scripts sql committed open_tx script" and "ensureMigrationTable sql (False, w) = (e, s)"
  shows "fst s = False \<and> committed (snd s) = committed w \<and> open_tx (snd s) = open_tx w
    \<and> (sql_reliable scripts sql open_tx \<longrightarrow> e = None)"
proof -
  obtain e1 w1 where 1: "sql_Exec sql createMigrationTableStatement w = (e1, w1)" by fastforce
  have "sql_reliable scripts sql open_tx \<Longrightarrow> e1 = None" using 1 unfolding sql_reliable_def by (metis fst_conv)
  then show ?thesis
    using contract_Create [OF c 1] assms(2) 1 by (auto simp: ensureMigrationTable_def split: option.splits)
qed

lemma migrationDriver_effect:
  assumes c: "sql_contract scripts sql committed open_tx script" and "migrationDriver (Some sql) w = (r, s)"
  shows "fst s = False \<and> committed (snd s) = committed w \<and> open_tx (snd s) = open_tx w
    \<and> (\<forall>drv. r = Inr drv \<longrightarrow> drv = sqlite_driver sql) \<and> (sql_reliable scripts sql open_tx \<longrightarrow> r = Inr (sqlite_driver sql))"
proof -
  obtain e1 w1 where 1: "sql_Ping sql w = (e1, w1)" by fastforce
  obtain e2 s2 where 2: "ensureMigrationTable sql (False, w1) = (e2, s2)" by (rule prod.exhaust)
  have n1: "sql_reliable scripts sql open_tx \<Longrightarrow> e1 = None" using 1 unfolding sql_reliable_def by (metis fst_conv)
  show ?thesis
    using contract_Ping [OF c 1] ensure_effect [OF c 2] n1 assms(2) 1 2
    by (cases e1; cases e2) (auto simp: migrationDriver_def newDriver_def)
qed

end
