(* ===== verification/SqliteMigrations.thy ===== *)
theory SqliteMigrations
  imports Sqlite
begin

text \<open>
  The migration functions of package sqlite on a database that keeps \<open>sql_contract\<close>: what MigrateUp,
  MigrateDown and MigrateForce leave in the database, whatever statement fails.
\<close>

section \<open>An example database\<close>

text \<open>
  A database in memory: the committed content and the content of the open transaction. It serves to
  run the driver on concrete migrations.
\<close>

type_synonym 'u mem = "'u db_content \<times> 'u db_content option"

definition mem_sql :: "(string \<Rightarrow> 'u \<Rightarrow> 'u) \<Rightarrow> 'u mem sql_db" where
  "mem_sql script = \<lparr>sql_Ping = Pair None, sql_Exec = (\<lambda>q. Pair None),
     sql_BeginTx = (\<lambda>w. (None, (fst w, Some (fst w)))),
     tx_Exec = (\<lambda>q args w. (None, (fst w, map_option (statement_effect script q args) (snd w)))),
     tx_Commit = (\<lambda>w. case snd w of None \<Rightarrow> (Some (Foreign ''no transaction''), w) | Some c \<Rightarrow> (None, (c, None))),
     tx_Rollback = (\<lambda>w. (None, (fst w, None))),
     sql_QueryVersion = (\<lambda>q w. case fst (fst w) of [] \<Rightarrow> (Inl sql_ErrNoRows, w) | row # _ \<Rightarrow> (Inr row, w))\<rparr>"

lemma mem_sql_contract: "sql_contract scripts (mem_sql script) fst snd script"
  by (auto simp: sql_contract_def mem_sql_def simp del: split_paired_Ex split: list.splits)

lemma mem_sql_reliable: "sql_reliable scripts (mem_sql script) snd"
  by (auto simp: sql_reliable_def mem_sql_def split: list.splits)

interpretation mem: migration_driver "sqlite_driver (mem_sql script)" "drv_idle snd" "drv_ver fst" "drv_content fst" script "script_ok scripts"
  for script scripts
  by (rule sqlite_migration_driver [OF mem_sql_contract])

interpretation mem_ok: reliable_driver "sqlite_driver (mem_sql script)" "drv_idle snd" "drv_ver fst" "drv_content fst" script "script_ok scripts" fst
  for script scripts
  by (rule sqlite_reliable_driver [OF mem_sql_contract mem_sql_reliable])

section \<open>The version\<close>

text \<open>
  C31 (roundtrip): Version reads what SetVersion wrote. A SetVersion that returned no error is what the
  next Version answers, with every version below -1 read as no version; one that failed, at whichever
  statement, changed nothing. Neither leaves a transaction open or touches the rest of the database.
\<close>

theorem version_roundtrip:
  assumes "sql_contract scripts sql committed open_tx script" "open_tx w = None"
    and "sqlite_SetVersion sql v d (l, w) = (e, (l', w'))"
  shows "open_tx w' = None \<and> l' = l \<and> snd (committed w') = snd (committed w)
    \<and> (e \<noteq> None \<longrightarrow> committed w' = committed w)
    \<and> (e = None \<longrightarrow> (\<forall>x s. sqlite_Version sql (l, w') = (Inr x, s) \<longrightarrow> x = (if v \<ge> -1 then (v, d) else (NilVersion, False))))"
proof -
  have w: "write_version sql v d w = (e, w')" "l' = l"
    using assms(3) by (auto simp: sqlite_SetVersion_def split: prod.splits)
  note eff = write_version_effect [OF assms(1,2) w(1)]
  have "ledger (fst (committed w')) = (if v \<ge> -1 then (v, d) else (NilVersion, False))" if "e = None"
    using eff that ledger_written [of v d] by (auto simp: NilVersion_def)
  then show ?thesis using eff w(2) Version_effect [OF assms(1), of l w'] by auto
qed

theorem version_roundtrip_witness:
  "sqlite_Version (mem_sql (\<lambda>q u. u)) (False, snd (snd (sqlite_SetVersion (mem_sql (\<lambda>q u. u)) 7 True (False, ([(3, False)], ()), None))))
     = (Inr (7, True), (False, ([(7, True)], ()), None))"
  using version_roundtrip [OF mem_sql_contract [of UNIV], of "(([(3, False)], ()), None)" "\<lambda>q u. u" 7 True False None False "(([(7, True)], ()), None)"]
  by (simp add: sqlite_SetVersion_def write_version_def commit_version_def mem_sql_def sqlite_Version_def)

section \<open>Migrating up\<close>

lemma sqlite_up:
  assumes c: "sql_contract scripts sql committed open_tx script" and idle: "open_tx w = None"
    and src: "newMigrator env ''sqlite'' (Some (sqlite_driver sql)) path fs = Inr (sqlite_driver sql, src)"
    and good: "good_source src" "scripts_ok (script_ok scripts) src" "known src (fst (ledger (fst (committed w))))"
    and run: "sqlite_MigrateUp env (Some sql) path fs w = (e, w')"
  shows "open_tx w' = None \<and> run_result script (pending src (fst (ledger (fst (committed w))))) (db_view committed w) e (db_view committed w')"
proof -
  obtain r s where 1: "migrationDriver (Some sql) w = (r, s)" by (rule prod.exhaust)
  note eff = migrationDriver_effect [OF c 1]
  have same: "db_view committed (snd s) = db_view committed w" using eff by (simp add: db_view_def)
  show ?thesis
  proof (cases r)
    case (Inl x)
    then show ?thesis using run 1 eff idle same by (auto simp: sqlite_MigrateUp_def run_result_def)
  next
    case (Inr drv)
    obtain e2 s2 where 2: "db_MigrateUp env ''sqlite'' (Some (sqlite_driver sql)) path fs s = (e2, s2)" by (rule prod.exhaust)
    have "drv_idle open_tx s" "drv_ver committed s = ledger (fst (committed w))"
      using eff idle by (simp_all add: drv_view_defs)
    then have "drv_idle open_tx s2 \<and> run_result script (pending src (fst (ledger (fst (committed w))))) (db_view committed w) e2 (db_view committed (snd s2))"
      using migration_driver.db_MigrateUp_result [OF sqlite_migration_driver [OF c] _ src good(1,2) _ 2] good(3) same by simp
    then show ?thesis using run 1 2 Inr eff by (cases e2) (auto simp: sqlite_MigrateUp_def drv_idle_def run_result_def)
  qed
qed

text \<open>
  C27 (functional): a MigrateUp that returns no error has run exactly the pending migrations, those of
  the versions after the recorded one, in increasing order and once each, and has recorded the last
  version as clean; with nothing pending it changes nothing. It never does so over a dirty version: then
  it returns an error and changes nothing.
\<close>

theorem up_applies_pending:
  assumes "sql_contract scripts sql committed open_tx script" "open_tx w = None"
    and "newMigrator env ''sqlite'' (Some (sqlite_driver sql)) path fs = Inr (sqlite_driver sql, src)"
    and "good_source src" "scripts_ok (script_ok scripts) src" "known src (fst (ledger (fst (committed w))))"
    and "sqlite_MigrateUp env (Some sql) path fs w = (e, w')"
  shows "(e = None \<longrightarrow> db_view committed w' =
      (if later src (fst (ledger (fst (committed w)))) = [] then db_view committed w
       else ((int (mf_version (last src)), False),
             run_all script (map up_migration (later src (fst (ledger (fst (committed w)))))) (snd (committed w)))))
    \<and> (snd (ledger (fst (committed w))) \<longrightarrow> e \<noteq> None \<and> db_view committed w' = db_view committed w)"
proof -
  let ?v = "fst (ledger (fst (committed w)))"
  have last: "last (later src ?v) = last src" if "later src ?v \<noteq> []"
    using that split_source [OF good_sourceD(1) [OF assms(4)] assms(6)] by (metis last_appendR)
  have "version_after x (pending src ?v) = (int (mf_version (last src)), False)" if "later src ?v \<noteq> []" for x
    using that last version_after_last [of "pending src ?v" x] by (simp add: pending_def last_map up_migration_def)
  then show ?thesis using sqlite_up [OF assms] by (auto simp: run_result_def db_view_def pending_def)
qed

text \<open>
  C28 (safety): wherever MigrateUp fails, the database is left between two migrations or marked dirty at
  the one that failed, whose script then took effect as a whole or not at all; no transaction is open.
\<close>

theorem up_interrupted:
  assumes "sql_contract scripts sql committed open_tx script" "open_tx w = None"
    and "newMigrator env ''sqlite'' (Some (sqlite_driver sql)) path fs = Inr (sqlite_driver sql, src)"
    and "good_source src" "scripts_ok (script_ok scripts) src" "known src (fst (ledger (fst (committed w))))"
    and "sqlite_MigrateUp env (Some sql) path fs w = (e, w')"
  shows "open_tx w' = None \<and> (\<exists>k\<le>length (pending src (fst (ledger (fst (committed w))))).
     let ms = pending src (fst (ledger (fst (committed w))));
         u = run_all script (take k ms) (snd (committed w))
     in db_view committed w' = (version_after (ledger (fst (committed w))) (take k ms), u)
      \<or> k < length ms \<and> ledger (fst (committed w')) = (mg_TargetVersion (ms ! k), True)
        \<and> (snd (committed w') = u \<or> snd (committed w') = run_body script u (ms ! k)))"
  using sqlite_up [OF assms] by (simp add: run_result_def stopped_in_def db_view_def Let_def)

text \<open>
  Two migrations on a counter: the scripts are names of its operations. The source has them in an
  embedded filesystem.
\<close>

definition demo_script :: "string \<Rightarrow> int \<Rightarrow> int" where
  "demo_script q u = (if q = ''add'' then u + 5 else if q = ''sub'' then u - 5 else if q = ''inc'' then u + 1 else if q = ''dec'' then u - 1 else u)"

definition demo_source :: source where
  "demo_source = [\<lparr>mf_version = 1, mf_up = Some (Inr ''add''), mf_down = Some (Inr ''sub'')\<rparr>,
     \<lparr>mf_version = 3, mf_up = Some (Inr ''inc''), mf_down = Some (Inr ''dec'')\<rparr>]"

definition demo_env :: "unit migration_env" where
  "demo_env = \<lparr>iofs_New = (\<lambda>_ _. Inr demo_source), os_Stat = (\<lambda>_. None), file_URL = id, open_source = (\<lambda>_. Inr demo_source)\<rparr>"

lemma demo_migrator: "newMigrator demo_env n (Some d) p (Some ()) = Inr (d, demo_source)"
  by (simp add: newMigrator_def demo_env_def)

lemma demo_good: "good_source demo_source" "scripts_ok (script_ok UNIV) demo_source" "inverse_files demo_script demo_source"
  by (simp_all add: good_source_def demo_source_def readable_def nonempty_files_def scripts_ok_def script_ok_def own_statements_def
      deleteMigrationVersionStatement_def insertMigrationVersionStatement_def source_ok_def versions_def inverse_files_def
      run_body_def up_migration_def down_migration_def demo_script_def)

lemma demo_known: "known demo_source (-1)" "known demo_source 1" "known demo_source 3"
  by (simp_all add: known_def demo_source_def versions_def)

lemma demo_later: "later demo_source (-1) = demo_source" "later demo_source 1 = tl demo_source" "applied demo_source 3 = demo_source"
  by (simp_all add: later_def applied_def demo_source_def)

lemma demo_up: "sqlite_MigrateUp demo_env (Some (mem_sql demo_script)) '''' (Some ()) (([(1, False)], 10), None) = (None, (([(3, False)], 11), None))"
  by code_simp

lemma demo_pending: "run_all demo_script (map up_migration (tl demo_source)) 10 = 11"
  by code_simp

theorem up_applies_pending_witness:
  "db_view fst (snd (sqlite_MigrateUp demo_env (Some (mem_sql demo_script)) '''' (Some ()) (([(1, False)], 10), None))) = ((3, False), 11)"
proof -
  have "mf_version (last demo_source) = 3" "tl demo_source \<noteq> []" by (simp_all add: demo_source_def)
  then show ?thesis
    using up_applies_pending [OF mem_sql_contract [of UNIV], of "(([(1, False)], 10), None)" demo_env demo_script "''''" "Some ()" demo_source
      None "(([(3, False)], 11), None)"] demo_good demo_known
    by (simp add: demo_later demo_migrator demo_up demo_pending)
qed

theorem up_interrupted_witness:
  "snd (snd (sqlite_MigrateUp demo_env (Some (mem_sql demo_script)) '''' (Some ()) (([(1, False)], 10), None))) = None"
  using up_interrupted [OF mem_sql_contract [of UNIV], of "(([(1, False)], 10), None)" demo_env demo_script "''''" "Some ()" demo_source
      "fst (sqlite_MigrateUp demo_env (Some (mem_sql demo_script)) '''' (Some ()) (([(1, False)], 10), None))"
      "snd (sqlite_MigrateUp demo_env (Some (mem_sql demo_script)) '''' (Some ()) (([(1, False)], 10), None))"]
    demo_good demo_known
  by (simp add: demo_migrator)

text \<open>
  C29 (liveness): on a database where no statement fails, MigrateUp from a clean version returns no
  error.
\<close>

theorem up_succeeds:
  assumes "sql_contract scripts sql committed open_tx script" "sql_reliable scripts sql open_tx" "open_tx w = None"
    and "newMigrator env ''sqlite'' (Some (sqlite_driver sql)) path fs = Inr (sqlite_driver sql, src)"
    and "good_source src" "scripts_ok (script_ok scripts) src" "known src (fst (ledger (fst (committed w))))"
    and "\<not> snd (ledger (fst (committed w)))"
  shows "fst (sqlite_MigrateUp env (Some sql) path fs w) = None"
proof -
  obtain r s where 1: "migrationDriver (Some sql) w = (r, s)" by (rule prod.exhaust)
  note eff = migrationDriver_effect [OF assms(1) 1]
  have v: "drv_idle open_tx s" "\<not> fst s" "drv_ver committed s = ledger (fst (committed w))"
    using eff assms(3) by (simp_all add: drv_view_defs)
  obtain e2 s2 where 2: "Migrate_Up (sqlite_driver sql) src s = (e2, s2)" by (rule prod.exhaust)
  have "e2 = (if pending src (fst (ledger (fst (committed w)))) = [] then Some ErrNoChange else None)"
    using reliable_driver.Migrate_Up_succeeds [OF sqlite_reliable_driver [OF assms(1,2)] v(1,2) assms(5,6) _ _ 2] v(3) assms(7,8) by simp
  then have "fst (db_MigrateUp env ''sqlite'' (Some (sqlite_driver sql)) path fs s) = None"
    by (cases "pending src (fst (ledger (fst (committed w)))) = []") (simp_all add: db_MigrateUp_def assms(4) 2)
  moreover have "r = Inr (sqlite_driver sql)" using eff assms(2) by blast
  ultimately show ?thesis by (auto simp: sqlite_MigrateUp_def 1 split: prod.split option.split)
qed

theorem up_succeeds_witness:
  "fst (sqlite_MigrateUp demo_env (Some (mem_sql demo_script)) '''' (Some ()) (([(1, False)], 10), None)) = None"
  using up_succeeds [OF mem_sql_contract [of UNIV] mem_sql_reliable, of "(([(1, False)], 10), None)" demo_env demo_script "''''" "Some ()" demo_source]
    demo_good demo_known
  by (simp add: demo_migrator)

section \<open>Migrating down and forcing a version\<close>

lemma sqlite_down:
  assumes c: "sql_contract scripts sql committed open_tx script" and idle: "open_tx w = None"
    and src: "newMigrator env ''sqlite'' (Some (sqlite_driver sql)) path fs = Inr (sqlite_driver sql, src)"
    and good: "good_source src" "scripts_ok (script_ok scripts) src" "f \<in> set src" "fst (ledger (fst (committed w))) = int (mf_version f)"
    and run: "sqlite_MigrateDown env (Some sql) path steps fs w = (e, w')"
  shows "open_tx w' = None \<and> run_result script (take (nat steps) (down_plan (rev (applied src (int (mf_version f)))))) (db_view committed w) e (db_view committed w')
    \<and> (e = None \<longrightarrow> 0 < steps \<and> steps \<le> int (length (applied src (int (mf_version f)))))"
proof -
  obtain r s where 1: "migrationDriver (Some sql) w = (r, s)" by (rule prod.exhaust)
  note eff = migrationDriver_effect [OF c 1]
  have same: "db_view committed (snd s) = db_view committed w" using eff by (simp add: db_view_def)
  show ?thesis
  proof (cases r)
    case (Inl x)
    then show ?thesis using run 1 eff idle same by (auto simp: sqlite_MigrateDown_def run_result_def)
  next
    case (Inr drv)
    obtain e2 s2 where 2: "db_MigrateDown env ''sqlite'' (Some (sqlite_driver sql)) path fs steps s = (e2, s2)" by (rule prod.exhaust)
    have v: "drv_idle open_tx s" "fst (drv_ver committed s) = int (mf_version f)"
      using eff idle good(4) by (simp_all add: drv_view_defs)
    note res = migration_driver.db_MigrateDown_result [OF sqlite_migration_driver [OF c] v(1) src good(1-3) v(2) 2]
    show ?thesis using res run 1 2 Inr eff v(2) same by (cases e2) (auto simp: sqlite_MigrateDown_def drv_idle_def run_result_def)
  qed
qed

text \<open>
  C30 (roundtrip): going down undoes going up. When a MigrateUp that applied n migrations is followed by
  a MigrateDown of n steps, neither returned an error, and every down file takes back what its up file
  did, the database is what it was, version included.
\<close>

theorem up_down_roundtrip:
  assumes "sql_contract scripts sql committed open_tx script" "open_tx w = None"
    and "newMigrator env ''sqlite'' (Some (sqlite_driver sql)) path fs = Inr (sqlite_driver sql, src)"
    and "good_source src" "scripts_ok (script_ok scripts) src" "known src (fst (ledger (fst (committed w))))" "inverse_files script src"
    and "sqlite_MigrateUp env (Some sql) path fs w = (None, w1)"
    and "sqlite_MigrateDown env (Some sql) path (int (length (later src (fst (ledger (fst (committed w))))))) fs w1 = (None, w2)"
  shows "db_view committed w2 = db_view committed w"
proof -
  let ?v = "fst (ledger (fst (committed w)))"
  let ?A = "applied src ?v" and ?L = "later src ?v"
  have ok: "source_ok src" using assms(4) by (simp add: good_source_def)
  have src: "src = ?A @ ?L" by (rule split_source [OF ok assms(6)])
  note up = sqlite_up [OF assms(1-6,8)]
  have clean: "\<not> snd (ledger (fst (committed w)))" using up by (auto simp: run_result_def db_view_def)
  have L: "?L \<noteq> []"
  proof
    assume "?L = []"
    then have "sqlite_MigrateDown env (Some sql) path 0 fs w1 = (None, w2)" using assms(9) by simp
    then show False
      by (auto simp: sqlite_MigrateDown_def db_MigrateDown_def split: sum.splits prod.splits option.splits)
  qed
  define f where "f = last ?L"
  have f: "f \<in> set src" using L src unfolding f_def by (metis Un_iff last_in_set set_append)
  have "pending src ?v \<noteq> []" "mg_TargetVersion (last (pending src ?v)) = int (mf_version f)"
    using L by (simp_all add: pending_def last_map up_migration_def f_def)
  then have w1: "db_view committed w1 = ((int (mf_version f), False), run_all script (pending src ?v) (snd (committed w)))"
    using up version_after_last [of "pending src ?v"] by (simp add: run_result_def db_view_def)
  have all: "applied src (int (mf_version f)) = src"
    using applied_split [of "?A @ butlast ?L" f "[]"] ok src L unfolding f_def by simp
  have down: "db_view committed w2 = (version_after (fst (db_view committed w1)) (take (length ?L) (down_plan (rev src))),
      run_all script (take (length ?L) (down_plan (rev src))) (snd (db_view committed w1)))"
    using sqlite_down [OF assms(1) _ assms(3-5) f _ assms(9)] up w1 all by (simp add: run_result_def db_view_def)
  have inv: "inverse_files script ?L" using assms(7) by (auto simp: inverse_files_def later_def)
  have "run_all script (take (length ?L) (down_plan (rev src))) (run_all script (pending src ?v) (snd (committed w))) = snd (committed w)"
    using down_undoes_up [OF inv, of ?A] src by (simp add: pending_def)
  moreover have "version_after x (take (length ?L) (down_plan (rev src))) = (top_version ?A, False)" for x
    using down_version [OF L, of x ?A] src by simp
  moreover have "top_version ?A = ?v" using applied_last [OF ok assms(6)] by (simp add: top_version_def)
  ultimately show ?thesis using down w1 clean by (simp add: db_view_def prod_eq_iff)
qed

lemma demo_down: "sqlite_MigrateDown demo_env (Some (mem_sql demo_script)) '''' 2 (Some ()) (([(3, False)], 16), None) = (None, (([], 10), None))"
  by code_simp

lemma demo_up_all: "sqlite_MigrateUp demo_env (Some (mem_sql demo_script)) '''' (Some ()) (([], 10), None) = (None, (([(3, False)], 16), None))"
  by code_simp

theorem up_down_roundtrip_witness:
  "db_view fst (snd (sqlite_MigrateDown demo_env (Some (mem_sql demo_script)) '''' 2 (Some ()) (([(3, False)], 16), None)))
     = db_view fst (([], 10 :: int), None :: int db_content option)"
  using up_down_roundtrip [OF mem_sql_contract [of UNIV], of "(([], 10), None)" demo_env demo_script "''''" "Some ()" demo_source
      "(([(3, False)], 16), None)" "(([], 10), None)"] demo_good demo_known
  by (simp add: demo_later demo_migrator demo_down demo_up_all NilVersion_def)

end
