(* ===== verification/DbPools.thy ===== *)
theory DbPools
  imports Migrate Json
begin

text \<open>
  What packages mysql and postgresql share: the database server as a record of operations on a state
  \<open>'w\<close> (database/sql, gorm and golang-migrate's drivers are outside the repository), the trace of the
  pools and connections a call takes and gives back, the retry loop of
  src/vendor/github.com/cenkalti/backoff/v5/retry.go, and the quoting of identifiers.
\<close>

section \<open>The server\<close>

record ('w, 'g) dbms =
  dm_Open :: "string \<Rightarrow> 'w \<Rightarrow> nat res \<times> 'w"
  dm_Ping :: "nat \<Rightarrow> 'w \<Rightarrow> err \<times> 'w"
  dm_Close :: "nat \<Rightarrow> 'w \<Rightarrow> err \<times> 'w"
  dm_Exec :: "nat \<Rightarrow> string \<Rightarrow> 'w \<Rightarrow> err \<times> 'w"
  dm_QueryBool :: "nat \<Rightarrow> string \<Rightarrow> string \<Rightarrow> 'w \<Rightarrow> bool res \<times> 'w"
  dm_GormOpen :: "nat \<Rightarrow> 'w \<Rightarrow> 'g res \<times> 'w"
  dm_Conn :: "nat \<Rightarrow> 'w \<Rightarrow> nat res \<times> 'w"
  dm_ConnClose :: "nat \<Rightarrow> 'w \<Rightarrow> err \<times> 'w"
  dm_WithConnection :: "nat \<Rightarrow> 'w \<Rightarrow> 'w driver res \<times> 'w"
  dm_DriverClose :: "nat \<Rightarrow> 'w \<Rightarrow> err \<times> 'w"

text \<open>
  A pool is opened and closed, a connection reserved from a pool and released; closing gives the
  resource back even when it returns an error. The migration driver made on a reserved connection
  releases the connection when it is closed.
\<close>

datatype pool_event = PoolOpened nat | PoolClosed nat | ConnReserved nat nat | ConnReleased nat

text \<open>The calls that take and give back, with the events they are.\<close>

definition pool_Open :: "('w, 'g) dbms \<Rightarrow> string \<Rightarrow> 'w \<Rightarrow> nat res \<times> pool_event list \<times> 'w" where
  "pool_Open dm dsn w = (case dm_Open dm dsn w of (Inl e, w) \<Rightarrow> (Inl e, [], w) | (Inr p, w) \<Rightarrow> (Inr p, [PoolOpened p], w))"

definition pool_Close :: "('w, 'g) dbms \<Rightarrow> nat \<Rightarrow> 'w \<Rightarrow> err \<times> pool_event list \<times> 'w" where
  "pool_Close dm p w = (case dm_Close dm p w of (e, w) \<Rightarrow> (e, [PoolClosed p], w))"

definition pool_Conn :: "('w, 'g) dbms \<Rightarrow> nat \<Rightarrow> 'w \<Rightarrow> nat res \<times> pool_event list \<times> 'w" where
  "pool_Conn dm p w = (case dm_Conn dm p w of (Inl e, w) \<Rightarrow> (Inl e, [], w) | (Inr c, w) \<Rightarrow> (Inr c, [ConnReserved p c], w))"

definition conn_Close :: "('w, 'g) dbms \<Rightarrow> nat \<Rightarrow> 'w \<Rightarrow> err \<times> pool_event list \<times> 'w" where
  "conn_Close dm c w = (case dm_ConnClose dm c w of (e, w) \<Rightarrow> (e, [ConnReleased c], w))"

definition driver_Close :: "('w, 'g) dbms \<Rightarrow> nat \<Rightarrow> 'w \<Rightarrow> err \<times> pool_event list \<times> 'w" where
  "driver_Close dm c w = (case dm_DriverClose dm c w of (e, w) \<Rightarrow> (e, [ConnReleased c], w))"

lemmas pool_ops = pool_Open_def pool_Close_def pool_Conn_def conn_Close_def driver_Close_def

fun pool_step :: "nat list \<Rightarrow> pool_event \<Rightarrow> nat list" where
  "pool_step ps (PoolOpened p) = p # ps"
| "pool_step ps (PoolClosed p) = remove1 p ps"
| "pool_step ps _ = ps"

fun conn_step :: "nat list \<Rightarrow> pool_event \<Rightarrow> nat list" where
  "conn_step cs (ConnReserved p c) = c # cs"
| "conn_step cs (ConnReleased c) = remove1 c cs"
| "conn_step cs _ = cs"

text \<open>The pools open, and the connections held, after a trace.\<close>

definition pools_after :: "nat list \<Rightarrow> pool_event list \<Rightarrow> nat list" where
  "pools_after ps evs = foldl pool_step ps evs"

definition conns_after :: "nat list \<Rightarrow> pool_event list \<Rightarrow> nat list" where
  "conns_after cs evs = foldl conn_step cs evs"

lemma after_append [simp]:
  "pools_after ps (a @ b) = pools_after (pools_after ps a) b" "conns_after cs (a @ b) = conns_after (conns_after cs a) b"
  by (simp_all add: pools_after_def conns_after_def)

lemma pools_after_simps [simp]:
  "pools_after ps [] = ps" "pools_after ps (PoolOpened p # evs) = pools_after (p # ps) evs"
  "pools_after ps (PoolClosed p # evs) = pools_after (remove1 p ps) evs"
  "pools_after ps (ConnReserved q c # evs) = pools_after ps evs" "pools_after ps (ConnReleased c # evs) = pools_after ps evs"
  by (simp_all add: pools_after_def)

lemma conns_after_simps [simp]:
  "conns_after cs [] = cs" "conns_after cs (ConnReserved q c # evs) = conns_after (c # cs) evs"
  "conns_after cs (ConnReleased c # evs) = conns_after (remove1 c cs) evs"
  "conns_after cs (PoolOpened p # evs) = conns_after cs evs" "conns_after cs (PoolClosed p # evs) = conns_after cs evs"
  by (simp_all add: conns_after_def)

text \<open>Whether a trace gives back every connection it took and leaves the pools as they were.\<close>

definition balanced :: "pool_event list \<Rightarrow> bool" where
  "balanced evs \<longleftrightarrow> (\<forall>ps. pools_after ps evs = ps) \<and> (\<forall>cs. conns_after cs evs = cs)"

lemma balanced_Nil [simp]: "balanced []"
  by (simp add: balanced_def)

section \<open>Retrying\<close>

text \<open>
  What happens after a failed attempt that is not the last one: the loop waits and tries again, or the
  context ends with a cause. When the list is used up the loop gives up with the error of the attempt,
  because the maximal time has passed; the waiting times are at least a quarter of a second, so the
  list is finite.
\<close>

datatype retry_decision = TryAgain | ContextDone go_error

fun backoff_Retry ::
  "retry_decision list \<Rightarrow> ('w \<Rightarrow> 'a res \<times> pool_event list \<times> 'w) \<Rightarrow> 'w \<Rightarrow> 'a res \<times> pool_event list \<times> 'w" where
  "backoff_Retry ds operation w =
     (case operation w of
        (Inr r, evs, w) \<Rightarrow> (Inr r, evs, w)
      | (Inl e, evs, w) \<Rightarrow>
          (case ds of
             [] \<Rightarrow> (Inl e, evs, w)
           | ContextDone cause # _ \<Rightarrow> (Inl cause, evs, w)
           | TryAgain # ds \<Rightarrow> (case backoff_Retry ds operation w of (r, evs', w) \<Rightarrow> (r, evs @ evs', w))))"

declare backoff_Retry.simps [simp del]

text \<open>An operation without events has a retry loop without events.\<close>

lemma backoff_Retry_silent:
  "(\<And>w. fst (snd (operation w)) = []) \<Longrightarrow> fst (snd (backoff_Retry ds operation w)) = []"
proof (induction ds arbitrary: w)
  case Nil
  then show ?case by (subst backoff_Retry.simps) (auto split: prod.splits sum.splits, (metis fst_conv snd_conv)+)
next
  case (Cons d ds)
  have "fst (snd (operation w)) = []" by (rule Cons.prems)
  then show ?case using Cons.IH [OF Cons.prems]
    by (subst backoff_Retry.simps) (auto split: prod.splits sum.splits retry_decision.splits, (metis fst_conv snd_conv)+)
qed

section \<open>Quoted identifiers\<close>

definition ReplaceAll_byte :: "string \<Rightarrow> char \<Rightarrow> string \<Rightarrow> string" where
  "ReplaceAll_byte s c new = concat (map (\<lambda>x. if x = c then new else [x]) s)"

text \<open>How a server reads what follows the opening quote: a doubled quote stands for a quote.\<close>

fun read_quoted :: "char \<Rightarrow> string \<Rightarrow> (string \<times> string) option" where
  "read_quoted q [] = None"
| "read_quoted q (c # s) =
     (if c \<noteq> q then map_option (\<lambda>(n, r). (c # n, r)) (read_quoted q s)
      else (case s of
         d # s' \<Rightarrow> if d = q then map_option (\<lambda>(n, r). (q # n, r)) (read_quoted q s') else Some ([], s)
       | [] \<Rightarrow> Some ([], [])))"

lemma read_quoted_escaped:
  "rest = [] \<or> hd rest \<noteq> q \<Longrightarrow> read_quoted q (ReplaceAll_byte name q [q, q] @ q # rest) = Some (name, rest)"
proof (induction name)
  case Nil
  then show ?case by (cases rest) (simp_all add: ReplaceAll_byte_def)
next
  case (Cons c name)
  then show ?case by (simp add: ReplaceAll_byte_def)
qed

end
