(* ===== verification/Mysql.thy ===== *)
theory Mysql
  imports DbPools
begin

text \<open>
  Package mysql (src/db/mysql): configuration, connecting, creating the database, and migrations on a
  pool of their own. A configured connector is named by its data source, the driver configuration;
  the environment parser is a parameter.
\<close>

section \<open>Configuration\<close>

record mysql_Config =
  my_Hostname :: string
  my_Port :: int
  my_Username :: string
  my_Password :: string
  my_Database :: string
  my_IsSSL :: bool

definition maxPort :: int where
  "maxPort = 65535"

definition maxDatabaseNameCharacters :: nat where
  "maxDatabaseNameCharacters = 64"

definition mysql_validate :: "mysql_Config \<Rightarrow> err" where
  "mysql_validate c =
     (if TrimSpace (my_Hostname c) = '''' \<or> my_Username c = '''' \<or> my_Database c = ''''
        then Some (wrapped ErrRequiredFieldNotSet ''MySQL hostname, username and database are required'')
      else if my_Port c < 1 \<or> my_Port c > maxPort
        then Some (wrapped ErrInvalidArgument ''MySQL port must be between 1 and 65535'')
      else if CHR 0x00 \<in> set (my_Database c) \<or> length (runes_of (my_Database c)) > maxDatabaseNameCharacters
        then Some (wrapped ErrInvalidArgument ''MySQL database name must contain at most 64 characters and no NUL'')
      else None)"

definition mysql_parseConfig :: "mysql_Config res \<Rightarrow> mysql_Config res" where
  "mysql_parseConfig parsed = (case parsed of
     Inl e \<Rightarrow> Inl (wrapped e ''parse MySQL config'')
   | Inr cfg \<Rightarrow> Inr cfg)"

record driver_Config =
  dc_Net :: string
  dc_Addr :: string
  dc_User :: string
  dc_Passwd :: string
  dc_DBName :: string
  dc_ParseTime :: bool
  dc_Timeout :: int
  dc_MultiStatements :: bool
  dc_TLSConfig :: string

definition connectionTimeout :: int where
  "connectionTimeout = 5 * 1000000000"

definition connectionRetryTimeout :: int where
  "connectionRetryTimeout = 30 * 1000000000"

definition JoinHostPort :: "string \<Rightarrow> string \<Rightarrow> string" where
  "JoinHostPort host port = (if CHR '':'' \<in> set host then ''['' @ host @ '']:'' @ port else host @ '':'' @ port)"

text \<open>The location is UTC in every configuration.\<close>

definition driverConfig :: "mysql_Config \<Rightarrow> string \<Rightarrow> bool \<Rightarrow> driver_Config" where
  "driverConfig cfg database multiStatements =
     \<lparr>dc_Net = ''tcp'', dc_Addr = JoinHostPort (my_Hostname cfg) (itoa (my_Port cfg)), dc_User = my_Username cfg,
      dc_Passwd = my_Password cfg, dc_DBName = database, dc_ParseTime = True, dc_Timeout = connectionTimeout,
      dc_MultiStatements = multiStatements, dc_TLSConfig = (if my_IsSSL cfg then ''true'' else '''')\<rparr>"

section \<open>Connecting\<close>

text \<open>\<open>source\<close> renders a driver configuration as the data source the server is opened with.\<close>

record 'g Mysql =
  ms_SQLDB :: "nat option"
  ms_GormDB :: 'g
  ms_config :: mysql_Config

definition ping_attempt :: "('w, 'g) dbms \<Rightarrow> nat \<Rightarrow> 'w \<Rightarrow> unit res \<times> pool_event list \<times> 'w" where
  "ping_attempt dm p w = (case dm_Ping dm p w of
     (Some e, w) \<Rightarrow> (Inl (wrapped e ''ping MySQL''), [], w)
   | (None, w) \<Rightarrow> (Inr (), [], w))"

definition mysql_connect ::
  "('w, 'g) dbms \<Rightarrow> (driver_Config \<Rightarrow> string) \<Rightarrow> retry_decision list \<Rightarrow> mysql_Config \<Rightarrow> string \<Rightarrow> 'w \<Rightarrow> nat res \<times> pool_event list \<times> 'w" where
  "mysql_connect dm dsn ds cfg database w =
     (case pool_Open dm (dsn (driverConfig cfg database False)) w of
        (Inl e, evs, w) \<Rightarrow> (Inl (wrapped e ''configure MySQL connector''), evs, w)
      | (Inr p, evs, w) \<Rightarrow>
          (case backoff_Retry ds (ping_attempt dm p) w of
             (Inl e, evs2, w) \<Rightarrow>
               (case pool_Close dm p w of (ce, evs3, w) \<Rightarrow>
                  (Inl (wrapped (JoinError (e # somes [ce])) ''connect MySQL pool''), evs @ evs2 @ evs3, w))
           | (Inr _, evs2, w) \<Rightarrow> (Inr p, evs @ evs2, w)))"

definition create_database_query :: "string \<Rightarrow> string" where
  "create_database_query database = ''CREATE DATABASE IF NOT EXISTS '' @ [CHR 0x60] @ ReplaceAll_byte database (CHR 0x60) [CHR 0x60, CHR 0x60] @ [CHR 0x60]"

definition mysql_ensureDatabaseExists ::
  "('w, 'g) dbms \<Rightarrow> (driver_Config \<Rightarrow> string) \<Rightarrow> retry_decision list \<Rightarrow> mysql_Config \<Rightarrow> 'w \<Rightarrow> err \<times> pool_event list \<times> 'w" where
  "mysql_ensureDatabaseExists dm dsn ds cfg w =
     (case mysql_connect dm dsn ds cfg '''' w of
        (Inl e, evs, w) \<Rightarrow> (Some (wrapped e ''connect MySQL server for database creation''), evs, w)
      | (Inr p, evs, w) \<Rightarrow>
          (case dm_Exec dm p (create_database_query (my_Database cfg)) w of (executionErr, w) \<Rightarrow>
             (case pool_Close dm p w of (closeErr, evs2, w) \<Rightarrow>
                (Wrap (errors_Join [executionErr, closeErr]) ''create MySQL database'', evs @ evs2, w))))"

definition mysql_NewWithConfig ::
  "('w, 'g) dbms \<Rightarrow> (driver_Config \<Rightarrow> string) \<Rightarrow> retry_decision list \<Rightarrow> retry_decision list \<Rightarrow> mysql_Config \<Rightarrow> bool \<Rightarrow> 'w
     \<Rightarrow> 'g Mysql res \<times> pool_event list \<times> 'w" where
  "mysql_NewWithConfig dm dsn ds1 ds2 cfg ensureDBExists w =
     (case mysql_validate cfg of
        Some e \<Rightarrow> (Inl (wrapped e ''validate MySQL config''), [], w)
      | None \<Rightarrow>
          (case (if ensureDBExists then mysql_ensureDatabaseExists dm dsn ds1 cfg w else (None, [], w)) of
             (Some e, evs, w) \<Rightarrow> (Inl (wrapped e ''ensure MySQL database exists''), evs, w)
           | (None, evs, w) \<Rightarrow>
               (case mysql_connect dm dsn ds2 cfg (my_Database cfg) w of
                  (Inl e, evs2, w) \<Rightarrow> (Inl (wrapped e ''connect MySQL''), evs @ evs2, w)
                | (Inr p, evs2, w) \<Rightarrow>
                    (case dm_GormOpen dm p w of
                       (Inl e, w) \<Rightarrow>
                         (case pool_Close dm p w of (ce, evs3, w) \<Rightarrow>
                            (Inl (wrapped (JoinError (e # somes [ce])) ''open MySQL GORM connection''), evs @ evs2 @ evs3, w))
                     | (Inr g, w) \<Rightarrow> (Inr \<lparr>ms_SQLDB = Some p, ms_GormDB = g, ms_config = cfg\<rparr>, evs @ evs2, w)))))"

definition mysql_New ::
  "('w, 'g) dbms \<Rightarrow> (driver_Config \<Rightarrow> string) \<Rightarrow> mysql_Config res \<Rightarrow> retry_decision list \<Rightarrow> retry_decision list \<Rightarrow> bool \<Rightarrow> 'w
     \<Rightarrow> 'g Mysql res \<times> pool_event list \<times> 'w" where
  "mysql_New dm dsn parsed ds1 ds2 ensureDBExists w =
     (case mysql_parseConfig parsed of
        Inl e \<Rightarrow> (Inl (wrapped e ''load MySQL config''), [], w)
      | Inr cfg \<Rightarrow> mysql_NewWithConfig dm dsn ds1 ds2 cfg ensureDBExists w)"

text \<open>Closing a nil client, or one without a pool, does nothing.\<close>

definition mysql_Close :: "('w, 'g) dbms \<Rightarrow> 'g Mysql option \<Rightarrow> 'w \<Rightarrow> err \<times> pool_event list \<times> 'w" where
  "mysql_Close dm m w = (case m of
     None \<Rightarrow> (None, [], w)
   | Some m \<Rightarrow> (case ms_SQLDB m of
       None \<Rightarrow> (None, [], w)
     | Some p \<Rightarrow> (case pool_Close dm p w of (e, evs, w) \<Rightarrow> (Wrap e ''close MySQL'', evs, w))))"

section \<open>Migrations\<close>

definition mysql_withMigrationDriver ::
  "('w, 'g) dbms \<Rightarrow> nat option \<Rightarrow> ('w driver \<Rightarrow> 'w \<Rightarrow> err \<times> 'w) \<Rightarrow> 'w \<Rightarrow> err \<times> pool_event list \<times> 'w" where
  "mysql_withMigrationDriver dm sqlDB run w =
     (case sqlDB of
        None \<Rightarrow> (Some (wrapped ErrRequiredFieldNotSet ''MySQL database''), [], w)
      | Some p \<Rightarrow>
          (case pool_Conn dm p w of
             (Inl e, evs, w) \<Rightarrow> (Some (wrapped e ''reserve MySQL migration connection''), evs, w)
           | (Inr c, evs, w) \<Rightarrow>
               (case dm_WithConnection dm c w of
                  (Inl e, w) \<Rightarrow>
                    (case conn_Close dm c w of (ce, evs2, w) \<Rightarrow>
                       (Wrap (errors_Join [Some e, ce]) ''create MySQL migration driver'', evs @ evs2, w))
                | (Inr drv, w) \<Rightarrow>
                    (case run drv w of (runErr, w) \<Rightarrow>
                       (case driver_Close dm c w of (ce, evs2, w) \<Rightarrow>
                          (Wrap (errors_Join [runErr, ce]) ''run MySQL migrations'', evs @ evs2, w))))))"

definition mysql_MigrateUp where
  "mysql_MigrateUp dm env sqlDB path fs w =
     mysql_withMigrationDriver dm sqlDB (\<lambda>drv. db_MigrateUp env ''mysql'' (Some drv) path fs) w"

definition mysql_MigrateDown where
  "mysql_MigrateDown dm env sqlDB path steps fs w =
     (if steps \<le> 0 then (Some (wrapped ErrInvalidArgument ''migration steps must be greater than zero''), [], w)
      else mysql_withMigrationDriver dm sqlDB (\<lambda>drv. db_MigrateDown env ''mysql'' (Some drv) path fs steps) w)"

definition mysql_MigrateForce where
  "mysql_MigrateForce dm env sqlDB path version fs w =
     mysql_withMigrationDriver dm sqlDB (\<lambda>drv. db_MigrateForce env ''mysql'' (Some drv) path fs version) w"

definition withMigrationPool ::
  "('w, 'g) dbms \<Rightarrow> (driver_Config \<Rightarrow> string) \<Rightarrow> 'g Mysql option \<Rightarrow> (nat option \<Rightarrow> 'w \<Rightarrow> err \<times> pool_event list \<times> 'w) \<Rightarrow> 'w
     \<Rightarrow> err \<times> pool_event list \<times> 'w" where
  "withMigrationPool dm dsn m run w =
     (case Option.bind m (\<lambda>m. map_option (\<lambda>p. (m, p)) (ms_SQLDB m)) of
        None \<Rightarrow> (Some (wrapped ErrRequiredFieldNotSet ''MySQL connection''), [], w)
      | Some (m, p) \<Rightarrow>
          (case dm_Ping dm p w of
             (Some e, w) \<Rightarrow> (Some (wrapped e ''check MySQL connection before migrating''), [], w)
           | (None, w) \<Rightarrow>
               (case pool_Open dm (dsn (driverConfig (ms_config m) (my_Database (ms_config m)) True)) w of
                  (Inl e, evs, w) \<Rightarrow> (Some (wrapped e ''configure MySQL migration pool''), evs, w)
                | (Inr q, evs, w) \<Rightarrow>
                    (case run (Some q) w of (runErr, evs2, w) \<Rightarrow>
                       (case pool_Close dm q w of (ce, evs3, w) \<Rightarrow>
                          (Wrap (errors_Join [runErr, ce]) ''close MySQL migration pool'', evs @ evs2 @ evs3, w))))))"

definition Mysql_MigrateUp where
  "Mysql_MigrateUp dm dsn env m path fs w =
     withMigrationPool dm dsn m (\<lambda>sqlDB. mysql_MigrateUp dm env sqlDB path fs) w"

definition Mysql_MigrateDown where
  "Mysql_MigrateDown dm dsn env m path steps fs w =
     withMigrationPool dm dsn m (\<lambda>sqlDB. mysql_MigrateDown dm env sqlDB path steps fs) w"

definition Mysql_MigrateForce where
  "Mysql_MigrateForce dm dsn env m path version fs w =
     withMigrationPool dm dsn m (\<lambda>sqlDB. mysql_MigrateForce dm env sqlDB path version fs) w"

section \<open>Pools and connections\<close>

lemma mysql_withMigrationDriver_balanced: "balanced (fst (snd (mysql_withMigrationDriver dm sqlDB run w)))"
  by (simp add: mysql_withMigrationDriver_def pool_ops balanced_def split: option.split prod.split sum.split)

lemma withMigrationPool_balanced:
  assumes "\<And>p w. balanced (fst (snd (run p w)))"
  shows "balanced (fst (snd (withMigrationPool dm dsn m run w)))"
proof -
  obtain e evs w' where r: "withMigrationPool dm dsn m run w = (e, evs, w')" by (metis prod_cases3)
  have ok: "\<And>p w e evs w' ps cs. run p w = (e, evs, w') \<Longrightarrow> pools_after ps evs = ps \<and> conns_after cs evs = cs"
    using assms by (metis balanced_def fst_conv snd_conv)
  have "evs = [] \<or> (\<exists>q x e1 evs1 w1. run (Some q) x = (e1, evs1, w1) \<and> evs = PoolOpened q # evs1 @ [PoolClosed q])"
    using r by (fastforce simp: withMigrationPool_def pool_ops split: option.splits prod.splits sum.splits)
  then show ?thesis using r ok by (auto simp: balanced_def)
qed

lemma ping_silent: "backoff_Retry ds (ping_attempt dm p) w = (r, evs, w') \<Longrightarrow> evs = []"
proof -
  have "\<And>w. fst (snd (ping_attempt dm p w)) = []" by (simp add: ping_attempt_def split: prod.split option.split)
  then have "fst (snd (backoff_Retry ds (ping_attempt dm p) w)) = []" by (rule backoff_Retry_silent)
  then show "backoff_Retry ds (ping_attempt dm p) w = (r, evs, w') \<Longrightarrow> evs = []" by simp
qed

lemma connect_pools:
  "mysql_connect dm dsn ds cfg database w = (r, evs, w') \<Longrightarrow>
     pools_after ps evs = (case r of Inl _ \<Rightarrow> ps | Inr p \<Rightarrow> p # ps) \<and> conns_after cs evs = cs"
  by (auto simp: mysql_connect_def pool_ops dest!: ping_silent split: sum.splits prod.splits)

lemma ensure_pools:
  assumes "mysql_ensureDatabaseExists dm dsn ds cfg w = (r, evs, w')"
  shows "pools_after ps evs = ps \<and> conns_after cs evs = cs"
proof -
  obtain r1 evs1 w1 where 1: "mysql_connect dm dsn ds cfg [] w = (r1, evs1, w1)" by (metis prod_cases3)
  show ?thesis
    using connect_pools [OF 1, of ps cs] assms 1
    by (auto simp: mysql_ensureDatabaseExists_def pool_ops split: sum.splits prod.splits)
qed

lemma new_pools:
  assumes "mysql_NewWithConfig dm dsn ds1 ds2 cfg ens w = (r, evs, w')"
  shows "pools_after ps evs = (case r of Inl _ \<Rightarrow> ps | Inr m \<Rightarrow> the (ms_SQLDB m) # ps) \<and> conns_after cs evs = cs"
proof (cases "mysql_validate cfg")
  case (Some e)
  then show ?thesis using assms by (auto simp: mysql_NewWithConfig_def)
next
  case None
  obtain r1 evs1 w1 where 1: "(if ens then mysql_ensureDatabaseExists dm dsn ds1 cfg w else (None, [], w)) = (r1, evs1, w1)"
    by (metis prod_cases3)
  have p1: "pools_after ps evs1 = ps" "conns_after cs evs1 = cs"
    using 1 ensure_pools [of dm dsn ds1 cfg w r1 evs1 w1 ps cs] by (auto split: if_splits)
  obtain r2 evs2 w2 where 2: "mysql_connect dm dsn ds2 cfg (my_Database cfg) w1 = (r2, evs2, w2)" by (metis prod_cases3)
  note p2 = connect_pools [OF 2, of ps cs]
  show ?thesis
  proof (cases r1)
    case (Some e)
    then show ?thesis using assms None 1 p1 by (auto simp: mysql_NewWithConfig_def)
  next
    case n1: None
    then show ?thesis
      using assms None 1 2 p1 p2 by (cases r2) (auto simp: mysql_NewWithConfig_def pool_ops split: sum.splits prod.splits)
  qed
qed

lemma mysql_migrations_balanced:
  "balanced (fst (snd (Mysql_MigrateUp dm dsn env m path fs w)))"
  "balanced (fst (snd (Mysql_MigrateDown dm dsn env m path steps fs w)))"
  "balanced (fst (snd (Mysql_MigrateForce dm dsn env m path version fs w)))"
proof -
  have "balanced (fst (snd (mysql_MigrateUp dm env p path fs w)))"
    and "balanced (fst (snd (mysql_MigrateDown dm env p path steps fs w)))"
    and "balanced (fst (snd (mysql_MigrateForce dm env p path version fs w)))" for p w
    by (simp_all add: mysql_MigrateUp_def mysql_MigrateDown_def mysql_MigrateForce_def mysql_withMigrationDriver_balanced)
  then show "balanced (fst (snd (Mysql_MigrateUp dm dsn env m path fs w)))"
    and "balanced (fst (snd (Mysql_MigrateDown dm dsn env m path steps fs w)))"
    and "balanced (fst (snd (Mysql_MigrateForce dm dsn env m path version fs w)))"
    unfolding Mysql_MigrateUp_def Mysql_MigrateDown_def Mysql_MigrateForce_def by (intro withMigrationPool_balanced; blast)+
qed

text \<open>
  C32 (safety): making a MySQL client leaks no pool. A client that could not be made leaves the pools as
  they were, whatever failed and however often the ping was retried; one that was made has opened
  exactly its own pool, the pool for creating the database being closed.
\<close>

theorem mysql_no_leaks:
  "case mysql_NewWithConfig dm dsn ds1 ds2 cfg ens w of (r, evs, w') \<Rightarrow>
     pools_after ps evs = (case r of Inl _ \<Rightarrow> ps | Inr m \<Rightarrow> the (ms_SQLDB m) # ps) \<and> conns_after cs evs = cs"
proof -
  obtain r evs w' where "mysql_NewWithConfig dm dsn ds1 ds2 cfg ens w = (r, evs, w')" by (metis prod_cases3)
  then show ?thesis using new_pools [of dm dsn ds1 ds2 cfg ens w r evs w' ps cs] by simp
qed

end
