(* ===== verification/Postgresql.thy ===== *)
theory Postgresql
  imports DbPools
begin

text \<open>
  Package postgresql (src/db/postgresql): configuration, the data source name, connecting with retries,
  creating the database, and migrations on a reserved connection. The environment parser is a
  parameter; the debug log is left out.
\<close>

section \<open>Configuration\<close>

record pg_Config =
  pg_Hostname :: string
  pg_Port :: int
  pg_Username :: string
  pg_Password :: string
  pg_Database :: string
  pg_IsSSL :: bool

abbreviation "ErrHostnameRequired \<equiv> ErrNew ''postgresql.ErrHostnameRequired''"
abbreviation "ErrPortRequired \<equiv> ErrNew ''postgresql.ErrPortRequired''"
abbreviation "ErrUsernameRequired \<equiv> ErrNew ''postgresql.ErrUsernameRequired''"
abbreviation "ErrPasswordRequired \<equiv> ErrNew ''postgresql.ErrPasswordRequired''"
abbreviation "ErrDatabaseRequired \<equiv> ErrNew ''postgresql.ErrDatabaseRequired''"

definition pg_validate :: "pg_Config \<Rightarrow> err" where
  "pg_validate c =
     (if pg_Hostname c = '''' then Some (wrapped ErrHostnameRequired ''hostname'')
      else if pg_Port c = 0 then Some (wrapped ErrPortRequired ''port'')
      else if pg_Username c = '''' then Some (wrapped ErrUsernameRequired ''username'')
      else if pg_Password c = '''' then Some (wrapped ErrPasswordRequired ''password'')
      else if pg_Database c = '''' then Some (wrapped ErrDatabaseRequired ''database'')
      else None)"

definition pg_parseConfig :: "pg_Config res \<Rightarrow> pg_Config res" where
  "pg_parseConfig parsed = (case parsed of
     Inl e \<Rightarrow> Inl (wrapped e ''could not parse config'')
   | Inr cfg \<Rightarrow> Inr cfg)"

definition getDSN :: "pg_Config \<Rightarrow> bool \<Rightarrow> string" where
  "getDSN cfg usePostgresDatabase =
     ''host='' @ pg_Hostname cfg @ '' user='' @ pg_Username cfg @ '' password='' @ pg_Password cfg
     @ '' dbname='' @ (if usePostgresDatabase then ''postgres'' else pg_Database cfg)
     @ '' port='' @ itoa (pg_Port cfg) @ '' sslmode='' @ (if pg_IsSSL cfg then ''require'' else ''disable'')"

section \<open>Connecting\<close>

record 'g Postgresql =
  pq_config :: pg_Config
  pq_SQLDB :: "nat option"
  pq_GormDB :: 'g

text \<open>One attempt opens a pool and pings it; the pool of a failed ping is not closed.\<close>

definition connect_attempt :: "('w, 'g) dbms \<Rightarrow> string \<Rightarrow> 'w \<Rightarrow> nat res \<times> pool_event list \<times> 'w" where
  "connect_attempt dm dsn w =
     (case pool_Open dm dsn w of
        (Inl e, evs, w) \<Rightarrow> (Inl (wrapped e ''could not open database''), evs, w)
      | (Inr p, evs, w) \<Rightarrow>
          (case dm_Ping dm p w of
             (Some e, w) \<Rightarrow> (Inl (wrapped e ''could not ping database''), evs, w)
           | (None, w) \<Rightarrow> (Inr p, evs, w)))"

definition connectToDB ::
  "('w, 'g) dbms \<Rightarrow> retry_decision list \<Rightarrow> string \<Rightarrow> 'w \<Rightarrow> nat res \<times> pool_event list \<times> 'w" where
  "connectToDB dm ds dsn w =
     (case backoff_Retry ds (connect_attempt dm dsn) w of
        (Inl e, evs, w) \<Rightarrow> (Inl (wrapped e ''could not connect to database''), evs, w)
      | (Inr p, evs, w) \<Rightarrow> (Inr p, evs, w))"

text \<open>\<open>text_of\<close> is the Error method of a foreign error.\<close>

definition databaseExists :: "('w, 'g) dbms \<Rightarrow> (go_error \<Rightarrow> string) \<Rightarrow> nat \<Rightarrow> string \<Rightarrow> 'w \<Rightarrow> bool res \<times> 'w" where
  "databaseExists dm text_of p dbName w =
     (case dm_QueryBool dm p ''SELECT EXISTS(SELECT 1 FROM pg_database WHERE datname = $1)'' dbName w of
        (Inl e, w) \<Rightarrow>
          if text_of e = ''pq: database '' @ [CHR 0x22] @ dbName @ [CHR 0x22] @ '' does not exist'' then (Inr False, w)
          else (Inl (wrapped e ''could not check if database exists''), w)
      | (Inr exists, w) \<Rightarrow> (Inr exists, w))"

definition createDatabase_query :: "string \<Rightarrow> string" where
  "createDatabase_query dbName = ''CREATE DATABASE '' @ [CHR 0x22] @ ReplaceAll_byte dbName (CHR 0x22) [CHR 0x22, CHR 0x22] @ [CHR 0x22]"

definition createDatabase :: "('w, 'g) dbms \<Rightarrow> nat \<Rightarrow> string \<Rightarrow> 'w \<Rightarrow> err \<times> 'w" where
  "createDatabase dm p dbName w =
     (case dm_Exec dm p (createDatabase_query dbName) w of (e, w) \<Rightarrow> (Wrap e ''could not create database'', w))"

definition pg_ensureDatabaseExists ::
  "('w, 'g) dbms \<Rightarrow> (go_error \<Rightarrow> string) \<Rightarrow> retry_decision list \<Rightarrow> pg_Config \<Rightarrow> 'w \<Rightarrow> err \<times> pool_event list \<times> 'w" where
  "pg_ensureDatabaseExists dm text_of ds cfg w =
     (case connectToDB dm ds (getDSN cfg True) w of
        (Inl e, evs, w) \<Rightarrow> (Some (wrapped e ''could not connect to database''), evs, w)
      | (Inr p, evs, w) \<Rightarrow>
          (case (case databaseExists dm text_of p (pg_Database cfg) w of
                   (Inl e, w) \<Rightarrow> (Some (wrapped e ''could not check if database exists''), w)
                 | (Inr True, w) \<Rightarrow> (None, w)
                 | (Inr False, w) \<Rightarrow>
                     (case createDatabase dm p (pg_Database cfg) w of (e, w) \<Rightarrow> (Wrap e ''could not create database'', w))) of
             (r, w) \<Rightarrow> (case pool_Close dm p w of (_, evs2, w) \<Rightarrow> (r, evs @ evs2, w))))"

definition pg_NewWithConfig ::
  "('w, 'g) dbms \<Rightarrow> (go_error \<Rightarrow> string) \<Rightarrow> retry_decision list \<Rightarrow> retry_decision list \<Rightarrow> pg_Config \<Rightarrow> bool \<Rightarrow> 'w
     \<Rightarrow> 'g Postgresql res \<times> pool_event list \<times> 'w" where
  "pg_NewWithConfig dm text_of ds1 ds2 cfg ensureDBExists w =
     (case pg_validate cfg of
        Some e \<Rightarrow> (Inl (wrapped e ''could not validate config''), [], w)
      | None \<Rightarrow>
          (case (if ensureDBExists then pg_ensureDatabaseExists dm text_of ds1 cfg w else (None, [], w)) of
             (Some e, evs, w) \<Rightarrow> (Inl (wrapped e ''failed to ensure database exists''), evs, w)
           | (None, evs, w) \<Rightarrow>
               (case connectToDB dm ds2 (getDSN cfg False) w of
                  (Inl e, evs2, w) \<Rightarrow> (Inl (wrapped e ''could not connect to database''), evs @ evs2, w)
                | (Inr p, evs2, w) \<Rightarrow>
                    (case dm_GormOpen dm p w of
                       (Inl e, w) \<Rightarrow> (Inl (wrapped e ''could not open gorm database''), evs @ evs2, w)
                     | (Inr g, w) \<Rightarrow> (Inr \<lparr>pq_config = cfg, pq_SQLDB = Some p, pq_GormDB = g\<rparr>, evs @ evs2, w)))))"

definition pg_New ::
  "('w, 'g) dbms \<Rightarrow> (go_error \<Rightarrow> string) \<Rightarrow> pg_Config res \<Rightarrow> retry_decision list \<Rightarrow> retry_decision list \<Rightarrow> bool \<Rightarrow> 'w
     \<Rightarrow> 'g Postgresql res \<times> pool_event list \<times> 'w" where
  "pg_New dm text_of parsed ds1 ds2 ensureDBExists w =
     (case pg_parseConfig parsed of
        Inl e \<Rightarrow> (Inl (wrapped e ''could not parse config''), [], w)
      | Inr cfg \<Rightarrow> pg_NewWithConfig dm text_of ds1 ds2 cfg ensureDBExists w)"

text \<open>None: closing a client without a pool panics.\<close>

definition pg_Close :: "('w, 'g) dbms \<Rightarrow> 'g Postgresql \<Rightarrow> 'w \<Rightarrow> (err \<times> pool_event list \<times> 'w) option" where
  "pg_Close dm p w = (case pq_SQLDB p of
     None \<Rightarrow> None
   | Some p \<Rightarrow> (case pool_Close dm p w of (e, evs, w) \<Rightarrow> Some (Wrap e ''could not close sql database'', evs, w)))"

section \<open>Migrations\<close>

definition pg_withMigrationDriver ::
  "('w, 'g) dbms \<Rightarrow> 'g Postgresql option \<Rightarrow> ('w driver \<Rightarrow> 'w \<Rightarrow> err \<times> 'w) \<Rightarrow> 'w \<Rightarrow> err \<times> pool_event list \<times> 'w" where
  "pg_withMigrationDriver dm p run w =
     (case Option.bind p pq_SQLDB of
        None \<Rightarrow> (Some (wrapped ErrRequiredFieldNotSet ''PostgreSQL database''), [], w)
      | Some q \<Rightarrow>
          (case pool_Conn dm q w of
             (Inl e, evs, w) \<Rightarrow> (Some (wrapped e ''reserve PostgreSQL migration connection''), evs, w)
           | (Inr c, evs, w) \<Rightarrow>
               (case dm_WithConnection dm c w of
                  (Inl e, w) \<Rightarrow>
                    (case conn_Close dm c w of (ce, evs2, w) \<Rightarrow>
                       (Wrap (errors_Join [Some e, ce]) ''create PostgreSQL migration driver'', evs @ evs2, w))
                | (Inr drv, w) \<Rightarrow>
                    (case run drv w of (runErr, w) \<Rightarrow>
                       (case driver_Close dm c w of (ce, evs2, w) \<Rightarrow>
                          (Wrap (errors_Join [runErr, ce]) ''run PostgreSQL migrations'', evs @ evs2, w))))))"

text \<open>The methods read the configuration of the client; a nil client is refused before that.\<close>

definition pg_name :: "'g Postgresql option \<Rightarrow> string" where
  "pg_name p = (case p of None \<Rightarrow> '''' | Some p \<Rightarrow> pg_Database (pq_config p))"

definition pg_MigrateUp where
  "pg_MigrateUp dm env p path fs w =
     pg_withMigrationDriver dm p (\<lambda>drv. db_MigrateUp env (pg_name p) (Some drv) path fs) w"

definition pg_MigrateDown where
  "pg_MigrateDown dm env p path steps fs w =
     (if steps \<le> 0 then (Some (wrapped ErrInvalidArgument ''migration steps must be greater than zero''), [], w)
      else pg_withMigrationDriver dm p (\<lambda>drv. db_MigrateDown env (pg_name p) (Some drv) path fs steps) w)"

definition pg_MigrateForce where
  "pg_MigrateForce dm env p path version fs w =
     pg_withMigrationDriver dm p (\<lambda>drv. db_MigrateForce env (pg_name p) (Some drv) path fs version) w"

section \<open>Pools\<close>

lemma pg_migrations_balanced:
  "balanced (fst (snd (pg_withMigrationDriver dm p run w)))"
  by (simp add: pg_withMigrationDriver_def pool_ops balanced_def split: option.split prod.split sum.split)

text \<open>An attempt on a server that accepts no ping leaves its pool behind.\<close>

definition unreachable :: "('w, 'g) dbms \<Rightarrow> bool" where
  "unreachable dm \<longleftrightarrow> (\<forall>x w. \<exists>p w'. dm_Open dm x w = (Inr p, w')) \<and> (\<forall>p w. \<exists>e w'. dm_Ping dm p w = (Some e, w'))"

lemma attempt_unreachable:
  "unreachable dm \<Longrightarrow> \<exists>e p w'. connect_attempt dm dsn w = (Inl e, [PoolOpened p], w')"
proof -
  assume u: "unreachable dm"
  obtain p w1 where 1: "dm_Open dm dsn w = (Inr p, w1)" using u unfolding unreachable_def by blast
  obtain e w2 where "dm_Ping dm p w1 = (Some e, w2)" using u unfolding unreachable_def by blast
  then show ?thesis using 1 by (simp add: connect_attempt_def pool_ops)
qed

lemma retries_unreachable:
  assumes "unreachable dm"
  shows "\<exists>e evs w'. backoff_Retry (replicate k TryAgain) (connect_attempt dm dsn) w = (Inl e, evs, w')
    \<and> (\<forall>ps. length (pools_after ps evs) = Suc k + length ps)"
proof (induction k arbitrary: w)
  case 0
  obtain e p w' where "connect_attempt dm dsn w = (Inl e, [PoolOpened p], w')" using attempt_unreachable [OF assms] by blast
  then show ?case by (simp add: backoff_Retry.simps)
next
  case (Suc k)
  obtain e p w1 where 1: "connect_attempt dm dsn w = (Inl e, [PoolOpened p], w1)" using attempt_unreachable [OF assms] by blast
  obtain e2 evs w2 where 2: "backoff_Retry (replicate k TryAgain) (connect_attempt dm dsn) w1 = (Inl e2, evs, w2)"
    "\<forall>ps. length (pools_after ps evs) = Suc k + length ps" using Suc by blast
  show ?case using 1 2 by (simp add: backoff_Retry.simps [of "TryAgain # _"])
qed

text \<open>
  C35 (error): connecting to a PostgreSQL server that does not answer leaks a pool per attempt. After k
  retries NewWithConfig returns an error and k + 1 pools are open that nobody has a handle on.
\<close>

theorem pg_retries_leak:
  assumes "unreachable dm" "pg_validate cfg = None"
  shows "\<exists>e evs w'. pg_NewWithConfig dm text_of ds (replicate k TryAgain) cfg False w = (Inl e, evs, w')
    \<and> length (pools_after [] evs) = k + 1"
proof -
  obtain e evs w' where "backoff_Retry (replicate k TryAgain) (connect_attempt dm (getDSN cfg False)) w = (Inl e, evs, w')"
    "\<forall>ps. length (pools_after ps evs) = Suc k + length ps" using retries_unreachable [OF assms(1)] by blast
  then show ?thesis using assms(2) by (simp add: pg_NewWithConfig_def connectToDB_def)
qed

text \<open>A server that opens every pool under the next number and answers no ping.\<close>

definition silent_server :: "(nat, unit) dbms" where
  "silent_server = \<lparr>dm_Open = (\<lambda>_ w. (Inr w, Suc w)), dm_Ping = (\<lambda>_ w. (Some (Foreign ''timeout''), w)), dm_Close = (\<lambda>_ w. (None, w)),
     dm_Exec = (\<lambda>_ _ w. (None, w)), dm_QueryBool = (\<lambda>_ _ _ w. (Inr True, w)), dm_GormOpen = (\<lambda>_ w. (Inr (), w)),
     dm_Conn = (\<lambda>_ w. (Inr 0, w)), dm_ConnClose = (\<lambda>_ w. (None, w)),
     dm_WithConnection = (\<lambda>_ w. (Inl (Foreign ''timeout''), w)), dm_DriverClose = (\<lambda>_ w. (None, w))\<rparr>"

definition demo_cfg :: pg_Config where
  "demo_cfg = \<lparr>pg_Hostname = ''db'', pg_Port = 5432, pg_Username = ''u'', pg_Password = ''p'', pg_Database = ''app'', pg_IsSSL = False\<rparr>"

theorem pg_retries_leak_witness:
  "\<exists>e evs w'. pg_NewWithConfig silent_server (\<lambda>_. '''') [] (replicate 3 TryAgain) demo_cfg False 0 = (Inl e, evs, w')
    \<and> length (pools_after [] evs) = 4"
  using pg_retries_leak [of silent_server demo_cfg "\<lambda>_. ''''" "[]" 3 0]
  by (simp add: unreachable_def silent_server_def demo_cfg_def pg_validate_def)

text \<open>
  The data source name does not quote its values: a blank in one of them starts the next setting, so
  configurations with different passwords are one name.
\<close>

lemma dsn_ambiguous:
  "getDSN (cfg\<lparr>pg_Username := ''u password=x'', pg_Password := ''y''\<rparr>) b = getDSN (cfg\<lparr>pg_Username := ''u'', pg_Password := ''x password=y''\<rparr>) b"
  by (simp add: getDSN_def)

end
