(* ===== verification/HttpUtil.thy ===== *)
theory HttpUtil
  imports Http GoStrings "HOL-Library.Multiset"
begin

text \<open>
  Package httputil (src/utils/httputil): downloading a file, downloading many files with a bounded
  number of workers, and the small helpers. The network and the failures of the filesystem are
  parameters; files are a map from paths to contents.
\<close>

section \<open>Downloading a file\<close>

abbreviation "ErrUnexpectedHTTPStatusCode \<equiv> ErrNew ''httputil.ErrUnexpectedHTTPStatusCode''"

text \<open>
  What may go wrong on the host: opening a path fails, or a write to it fails after some bytes.
\<close>

record 'w host =
  hs_net :: "'w network"
  hs_open :: "string \<Rightarrow> err"
  hs_write :: "string \<Rightarrow> (nat \<times> go_error) option"

type_synonym files = "string \<Rightarrow> string option"

text \<open>A file opened without truncation keeps what lies behind the bytes that are written.\<close>

definition overwrite :: "string \<Rightarrow> string option \<Rightarrow> string" where
  "overwrite data old = data @ drop (length data) (case old of None \<Rightarrow> '''' | Some c \<Rightarrow> c)"

text \<open>\<open>io.Copy\<close> into the file: it ends with the first error of reading or writing.\<close>

definition copy_body :: "(nat \<times> go_error) option \<Rightarrow> string \<times> err \<Rightarrow> string \<times> err" where
  "copy_body wfail body =
     (case wfail of
        Some (n, e) \<Rightarrow> if n < length (fst body) then (take n (fst body), Some e) else body
      | None \<Rightarrow> body)"

text \<open>The request up to its response, and the copy of the body into the file.\<close>

definition fetch :: "'w host \<Rightarrow> string \<Rightarrow> 'w \<Rightarrow> http_response res \<times> http_event list \<times> 'w" where
  "fetch hs url w =
     (case NewRequest (hs_net hs) ''GET'' url '''' of
        Inl e \<Rightarrow> (Inl (wrapped e ''failed to create HTTP request''), [], w)
      | Inr req \<Rightarrow>
          (case Do (hs_net hs) w req of
             (Inl e, w) \<Rightarrow> (Inl (wrapped e ''failed to download file''), [Sent req], w)
           | (Inr resp, w) \<Rightarrow>
               if StatusCode resp \<noteq> StatusOK
               then (Inl (wrapped ErrUnexpectedHTTPStatusCode (''status code: '' @ itoa (StatusCode resp))), [Sent req, BodyClosed], w)
               else (Inr resp, [Sent req], w)))"

definition save :: "'w host \<Rightarrow> string \<Rightarrow> http_response \<Rightarrow> files \<Rightarrow> err \<times> files" where
  "save hs targetPath resp fs =
     (case hs_open hs targetPath of
        Some e \<Rightarrow> (Some (wrapped e ''failed to create local file''), fs)
      | None \<Rightarrow>
          (case copy_body (hs_write hs targetPath) (Body resp) of (data, e) \<Rightarrow>
             (Wrap e ''failed to write file'', fs(targetPath := Some (overwrite data (fs targetPath))))))"

definition DownloadFile ::
  "'w host \<Rightarrow> string \<Rightarrow> string \<Rightarrow> 'w \<times> files \<Rightarrow> err \<times> http_event list \<times> 'w \<times> files" where
  "DownloadFile hs url targetPath s =
     (case s of (w, fs) \<Rightarrow>
        case fetch hs url w of
          (Inl e, evs, w) \<Rightarrow> (Some e, evs, w, fs)
        | (Inr resp, evs, w) \<Rightarrow>
            (case save hs targetPath resp fs of (e, fs) \<Rightarrow> (e, evs @ [BodyClosed], w, fs)))"

section \<open>Downloading many files\<close>

text \<open>
  One goroutine per file waits for a slot, downloads, sends its error if it has one, and frees the slot.
  A state has the files still waiting, those being downloaded, the results so far and the error channel.
  The outcome of a download is open: a step may end it with any error or none.
\<close>

type_synonym job = "string \<times> string"

record downloads =
  dl_waiting :: "job list"
  dl_running :: "job list"
  dl_results :: "(job \<times> err) list"
  dl_errChan :: "go_error list"

definition downloadFilesWorkerLimit :: nat where
  "downloadFilesWorkerLimit = 5"

definition workerLimit :: "job list \<Rightarrow> nat" where
  "workerLimit jobs = min downloadFilesWorkerLimit (length jobs)"

definition downloads_init :: "job list \<Rightarrow> downloads" where
  "downloads_init jobs = \<lparr>dl_waiting = jobs, dl_running = [], dl_results = [], dl_errChan = []\<rparr>"

definition job_error :: "job \<Rightarrow> go_error \<Rightarrow> go_error" where
  "job_error j e = wrapped e (''failed to download '' @ fst j @ '' to '' @ snd j)"

definition take_slot :: "job list \<Rightarrow> job \<Rightarrow> downloads \<Rightarrow> downloads option" where
  "take_slot jobs j s =
     (if j \<in> set (dl_waiting s) \<and> length (dl_running s) < workerLimit jobs
      then Some (s\<lparr>dl_waiting := remove1 j (dl_waiting s), dl_running := j # dl_running s\<rparr>) else None)"

text \<open>Sending to the error channel blocks while it is full; its capacity is the number of files.\<close>

definition end_download :: "job list \<Rightarrow> job \<Rightarrow> err \<Rightarrow> downloads \<Rightarrow> downloads option" where
  "end_download jobs j e s =
     (if j \<notin> set (dl_running s) then None
      else (case e of
         None \<Rightarrow> Some (s\<lparr>dl_running := remove1 j (dl_running s), dl_results := dl_results s @ [(j, e)]\<rparr>)
       | Some x \<Rightarrow>
           if length (dl_errChan s) < length jobs
           then Some (s\<lparr>dl_running := remove1 j (dl_running s), dl_results := dl_results s @ [(j, e)],
                        dl_errChan := dl_errChan s @ [job_error j x]\<rparr>)
           else None))"

inductive dl_step :: "job list \<Rightarrow> downloads \<Rightarrow> downloads \<Rightarrow> bool" for jobs where
  slot: "take_slot jobs j s = Some t \<Longrightarrow> dl_step jobs s t"
| finish: "end_download jobs j e s = Some t \<Longrightarrow> dl_step jobs s t"

inductive_cases dl_stepE: "dl_step jobs s t"

text \<open>The wait group is done when every goroutine has ended.\<close>

definition downloads_done :: "downloads \<Rightarrow> bool" where
  "downloads_done s \<longleftrightarrow> dl_waiting s = [] \<and> dl_running s = []"

fun join_messages :: "string list \<Rightarrow> string" where
  "join_messages [] = ''''"
| "join_messages [m] = m"
| "join_messages (m # ms) = m @ ''; '' @ join_messages ms"

text \<open>What DownloadFiles returns once the wait group is done; \<open>etext\<close> is the Error method.\<close>

definition downloads_result :: "(go_error \<Rightarrow> string) \<Rightarrow> downloads \<Rightarrow> err" where
  "downloads_result etext s =
     (if dl_errChan s = [] then None
      else Some (wrapped ErrCouldNotDownloadFiles (''errors downloading files: '' @ join_messages (map etext (dl_errChan s)))))"

section \<open>Small helpers\<close>

definition CreateBase64ImageURI :: "string \<Rightarrow> string \<Rightarrow> string" where
  "CreateBase64ImageURI base64Data contentType = ''data:'' @ contentType @ '';base64,'' @ base64Data"

text \<open>A value of type any: the cases the code tells apart; of other values their JSON, if they have one.\<close>

datatype any_value = AnyString string | AnyBytes string | AnyReader string | AnyNil | AnyOther "go_error + json"

definition AnyToReader :: "any_value \<Rightarrow> string res" where
  "AnyToReader v = (case v of
     AnyString s \<Rightarrow> Inr s
   | AnyBytes b \<Rightarrow> Inr b
   | AnyReader content \<Rightarrow> Inr content
   | AnyNil \<Rightarrow> Inr ''''
   | AnyOther (Inl e) \<Rightarrow> Inl (wrapped e ''failed to marshal to JSON'')
   | AnyOther (Inr j) \<Rightarrow> Inr (Marshal j))"

text \<open>The name of the dynamic type of a value; nil has none.\<close>

definition IsPointer :: "string option \<Rightarrow> bool" where
  "IsPointer type_name = (case type_name of None \<Rightarrow> False | Some n \<Rightarrow> HasPrefix n ''*'')"

section \<open>Properties of downloads\<close>

definition dl_inv :: "job list \<Rightarrow> downloads \<Rightarrow> bool" where
  "dl_inv jobs s \<longleftrightarrow> mset (dl_waiting s) + mset (dl_running s) + mset (map fst (dl_results s)) = mset jobs
     \<and> length (dl_running s) \<le> workerLimit jobs
     \<and> dl_errChan s = map (\<lambda>(j, e). job_error j (the e)) (filter (\<lambda>(j, e). e \<noteq> None) (dl_results s))"

lemma dl_inv_init: "dl_inv jobs (downloads_init jobs)"
  by (simp add: dl_inv_def downloads_init_def)

lemma dl_inv_step: "dl_step jobs s t \<Longrightarrow> dl_inv jobs s \<Longrightarrow> dl_inv jobs t"
proof (induction rule: dl_step.induct)
  case (slot j s t)
  then have j: "j \<in> set (dl_waiting s)" and t: "t = s\<lparr>dl_waiting := remove1 j (dl_waiting s), dl_running := j # dl_running s\<rparr>"
    and l: "length (dl_running s) < workerLimit jobs"
    by (auto simp: take_slot_def split: if_splits)
  have "mset (dl_waiting s) = add_mset j (mset (remove1 j (dl_waiting s)))" using j by simp
  then show ?case using slot.prems t l by (simp add: dl_inv_def del: mset_remove1)
next
  case (finish j e s t)
  then have j: "j \<in> set (dl_running s)" by (auto simp: end_download_def split: if_splits)
  have m: "mset (dl_running s) = add_mset j (mset (remove1 j (dl_running s)))" using j by simp
  have l: "length (remove1 j (dl_running s)) \<le> length (dl_running s)" by (simp add: length_remove1)
  show ?case
    using finish j m l by (cases e) (auto simp: dl_inv_def end_download_def split: if_splits simp del: mset_remove1)
qed

lemma dl_inv_reach: "(dl_step jobs)\<^sup>*\<^sup>* (downloads_init jobs) s \<Longrightarrow> dl_inv jobs s"
  by (induction rule: rtranclp_induct) (auto intro: dl_inv_init dl_inv_step)

lemma dl_inv_lengths:
  assumes "dl_inv jobs s"
  shows "length (dl_waiting s) + length (dl_running s) + length (dl_results s) = length jobs"
    and "length (dl_errChan s) \<le> length (dl_results s)"
proof -
  have "size (mset (dl_waiting s) + mset (dl_running s) + mset (map fst (dl_results s))) = size (mset jobs)"
    using assms by (simp add: dl_inv_def)
  then show "length (dl_waiting s) + length (dl_running s) + length (dl_results s) = length jobs" by simp
  show "length (dl_errChan s) \<le> length (dl_results s)" using assms by (simp add: dl_inv_def)
qed

text \<open>No goroutine waits forever: while a file is being downloaded its error can be sent, and otherwise a slot is free.\<close>

lemma dl_progress:
  assumes inv: "dl_inv jobs s" and "\<not> downloads_done s"
  shows "dl_running s = [] \<Longrightarrow> \<exists>j \<in> set (dl_waiting s). \<exists>t. take_slot jobs j s = Some t"
    and "j \<in> set (dl_running s) \<Longrightarrow> \<exists>t. end_download jobs j e s = Some t"
proof -
  show "\<exists>j \<in> set (dl_waiting s). \<exists>t. take_slot jobs j s = Some t" if "dl_running s = []"
  proof -
    have w: "dl_waiting s \<noteq> []" using that assms(2) by (simp add: downloads_done_def)
    then have "0 < length jobs" using dl_inv_lengths(1) [OF inv] by (cases "dl_waiting s") auto
    then show ?thesis using w that by (intro bexI [of _ "hd (dl_waiting s)"]) (auto simp: take_slot_def workerLimit_def downloadFilesWorkerLimit_def)
  qed
  show "\<exists>t. end_download jobs j e s = Some t" if "j \<in> set (dl_running s)"
  proof -
    have "0 < length (dl_running s)" using that by (cases "dl_running s") auto
    then have "length (dl_errChan s) < length jobs" using dl_inv_lengths [OF inv] by linarith
    then show ?thesis using that by (simp add: end_download_def split: option.split)
  qed
qed

definition dl_size :: "downloads \<Rightarrow> nat" where
  "dl_size s = 2 * length (dl_waiting s) + length (dl_running s)"

lemma dl_step_size: "dl_step jobs s t \<Longrightarrow> dl_size t < dl_size s"
proof (induction rule: dl_step.induct)
  case (slot j s t)
  then have "j \<in> set (dl_waiting s)" "t = s\<lparr>dl_waiting := remove1 j (dl_waiting s), dl_running := j # dl_running s\<rparr>"
    by (auto simp: take_slot_def split: if_splits)
  moreover obtain n where "length (dl_waiting s) = Suc n"
    using length_pos_if_in_set [OF calculation(1)] by (cases "length (dl_waiting s)") simp_all
  ultimately show ?case by (simp add: dl_size_def length_remove1)
next
  case (finish j e s t)
  then have "j \<in> set (dl_running s)" "dl_waiting t = dl_waiting s" "dl_running t = remove1 j (dl_running s)"
    by (auto simp: end_download_def split: if_splits option.splits)
  then show ?case using length_pos_if_in_set [of j "dl_running s"] by (simp add: dl_size_def length_remove1)
qed

lemma dl_run_length: "(dl_step jobs ^^ k) s t \<Longrightarrow> k + dl_size t \<le> dl_size s"
proof (induction k arbitrary: t)
  case (Suc k)
  then obtain u where "(dl_step jobs ^^ k) s u" "dl_step jobs u t" by auto
  then show ?case using Suc.IH [of u] dl_step_size [of jobs u t] by simp
qed simp

lemma errChan_empty: "dl_inv jobs s \<Longrightarrow> dl_errChan s = [] \<longleftrightarrow> (\<forall>(j, e)\<in>set (dl_results s). e = None)"
  by (auto simp: dl_inv_def filter_empty_conv)

text \<open>
  DownloadFiles never has more than five downloads at work, never blocks, and ends. In
  every state its goroutines can reach, either all have ended or one can go on, a finished download can
  always report its error, and no run takes more than two steps per file. When all have ended, every
  file has been tried exactly once, and the call returns nil if all downloads succeeded and
  ErrCouldNotDownloadFiles otherwise.
\<close>

theorem downloads_bounded:
  assumes "(dl_step jobs ^^ k) (downloads_init jobs) s"
  shows "length (dl_running s) \<le> 5 \<and> k \<le> 2 * length jobs
    \<and> (downloads_done s \<or> (\<exists>t. dl_step jobs s t))
    \<and> (j \<in> set (dl_running s) \<longrightarrow> (\<exists>t. end_download jobs j e s = Some t))
    \<and> (downloads_done s \<longrightarrow> mset (map fst (dl_results s)) = mset jobs
        \<and> (if \<forall>(j, e)\<in>set (dl_results s). e = None then downloads_result etext s = None
           else err_is (downloads_result etext s) ErrCouldNotDownloadFiles))"
proof -
  have inv: "dl_inv jobs s" using assms by (intro dl_inv_reach) (rule relpowp_imp_rtranclp)
  have "length (dl_running s) \<le> 5" using inv by (simp add: dl_inv_def workerLimit_def downloadFilesWorkerLimit_def)
  moreover have "k \<le> 2 * length jobs" using dl_run_length [OF assms] by (simp add: dl_size_def downloads_init_def)
  moreover have "downloads_done s \<or> (\<exists>t. dl_step jobs s t)"
  proof (cases "dl_running s")
    case Nil
    then show ?thesis using dl_progress(1) [OF inv] dl_step.slot by blast
  next
    case (Cons x xs)
    then have "\<not> downloads_done s" "x \<in> set (dl_running s)" by (simp_all add: downloads_done_def)
    then show ?thesis using dl_progress(2) [OF inv, of x None] dl_step.finish by blast
  qed
  moreover have "j \<in> set (dl_running s) \<Longrightarrow> \<exists>t. end_download jobs j e s = Some t"
  proof -
    assume j: "j \<in> set (dl_running s)"
    then have "\<not> downloads_done s" by (auto simp: downloads_done_def)
    from dl_progress(2) [OF inv this j] show ?thesis .
  qed
  moreover have "downloads_done s \<Longrightarrow> mset (map fst (dl_results s)) = mset jobs" using inv by (simp add: dl_inv_def downloads_done_def)
  ultimately show ?thesis using errChan_empty [OF inv] by (auto simp: downloads_result_def)
qed

theorem downloads_bounded_witness:
  "length (dl_running \<lparr>dl_waiting = [], dl_running = [(''u'', ''t'')], dl_results = [], dl_errChan = []\<rparr>) \<le> 5
    \<and> (\<exists>t. end_download [(''u'', ''t'')] (''u'', ''t'') (Some ErrFileNotFound) \<lparr>dl_waiting = [], dl_running = [(''u'', ''t'')], dl_results = [], dl_errChan = []\<rparr> = Some t)"
proof -
  have "(dl_step [(''u'', ''t'')] ^^ 1) (downloads_init [(''u'', ''t'')]) \<lparr>dl_waiting = [], dl_running = [(''u'', ''t'')], dl_results = [], dl_errChan = []\<rparr>"
    by (auto intro!: dl_step.slot [of _ "(''u'', ''t'')"] simp: take_slot_def downloads_init_def workerLimit_def downloadFilesWorkerLimit_def)
  from downloads_bounded [OF this] show ?thesis by simp
qed

lemma copy_body_ok: "copy_body x b = (data, None) \<Longrightarrow> b = (data, None)"
  by (auto simp: copy_body_def split: option.splits if_splits)

text \<open>
  Downloading over a longer file leaves its end. A download that succeeds writes the body
  over the start of the file and nothing else; what the file had beyond the length of the body stays.
\<close>

theorem download_overwrites:
  assumes "DownloadFile hs url p (w, fs) = (None, evs, w', fs')"
  shows "\<exists>req resp. Do (hs_net hs) w req = (Inr resp, w') \<and> StatusCode resp = 200 \<and> evs = [Sent req, BodyClosed]
    \<and> fs' = fs(p := Some (fst (Body resp) @ drop (length (fst (Body resp))) (case fs p of None \<Rightarrow> '''' | Some c \<Rightarrow> c)))"
  using assms
  by (auto simp: DownloadFile_def fetch_def save_def overwrite_def Wrap_None_iff dest!: copy_body_ok split: sum.splits prod.splits option.splits if_splits)

definition demo_host :: "unit host" where
  "demo_host = \<lparr>hs_net = \<lparr>parse_url = (\<lambda>_. None), Do = (\<lambda>w r. (Inr \<lparr>StatusCode = 200, Body = (''new'', None)\<rparr>, w))\<rparr>,
     hs_open = (\<lambda>_. None), hs_write = (\<lambda>_. None)\<rparr>"

theorem download_overwrites_witness:
  "snd (snd (snd (DownloadFile demo_host ''u'' ''p'' ((), \<lambda>_. Some ''previous'')))) ''p'' = Some ''newvious''"
proof -
  obtain evs fs' where d: "DownloadFile demo_host ''u'' ''p'' ((), \<lambda>_. Some ''previous'') = (None, evs, (), fs')"
    by (simp add: DownloadFile_def fetch_def save_def demo_host_def NewRequest_def copy_body_def)
  show ?thesis using download_overwrites [OF d] d by (auto simp: demo_host_def)
qed

end
