(* ===== verification/Utils.thy ===== *)
theory Utils
  imports Http GoStrings "HOL-Library.Word"
begin

text \<open>
  The small utility packages: urlutil, randutil, fileutil and ptrutil (src/utils). The random source, the
  filesystem and the generator of identifiers are parameters.
\<close>

section \<open>urlutil\<close>

text \<open>\<open>url.UserPassword(user, pass).String()\<close>: bytes outside the allowed set are percent-encoded.\<close>

definition upper_hex :: "nat \<Rightarrow> char" where
  "upper_hex n = char_of (if n < 10 then 48 + n else 55 + n)"

definition userinfo_char :: "char \<Rightarrow> bool" where
  "userinfo_char c \<longleftrightarrow> (let n = of_char c in
     (48 \<le> n \<and> n \<le> 57) \<or> (65 \<le> n \<and> n \<le> 90) \<or> (97 \<le> n \<and> n \<le> (122 :: nat)))
     \<or> c \<in> set ''-_.~$&+,;=''"

definition escape_userinfo :: "string \<Rightarrow> string" where
  "escape_userinfo s = concat (map (\<lambda>c. if userinfo_char c then [c]
     else [CHR ''%'', upper_hex (of_char c div 16), upper_hex (of_char c mod 16)]) s)"

definition UserPassword_String :: "string \<Rightarrow> string \<Rightarrow> string" where
  "UserPassword_String user pass = escape_userinfo user @ '':'' @ escape_userinfo pass"

definition BuildURI :: "string \<Rightarrow> string \<Rightarrow> string \<Rightarrow> string \<Rightarrow> string \<Rightarrow> string \<Rightarrow> string" where
  "BuildURI scheme user pass host port path =
     scheme @ ''://''
     @ (if user \<noteq> '''' then (if pass \<noteq> '''' then UserPassword_String user pass else user) @ ''@'' else '''')
     @ host @ (if port \<noteq> '''' then '':'' @ port else '''') @ path"

definition JoinURLPaths :: "string \<Rightarrow> string list \<Rightarrow> string" where
  "JoinURLPaths baseURL paths =
     (let cleanPaths = filter (\<lambda>p. p \<noteq> '''') (map (\<lambda>p. TrimByte p CHR ''/'') paths);
          base = TrimRightByte baseURL CHR ''/''
      in base @ concat (map (\<lambda>p. ''/'' @ p) cleanPaths))"

section \<open>randutil\<close>

text \<open>
  A random source gives, for a positive bound, a number below it; for other bounds the standard function
  panics (None).
\<close>

type_synonym 'g rand = "'g \<Rightarrow> int \<Rightarrow> int \<times> 'g"

definition rand_ok :: "'g rand \<Rightarrow> bool" where
  "rand_ok r \<longleftrightarrow> (\<forall>g n. 0 < n \<longrightarrow> 0 \<le> fst (r g n) \<and> fst (r g n) < n)"

definition InsecureIntN :: "'g rand \<Rightarrow> 'g \<Rightarrow> int \<Rightarrow> (int \<times> 'g) option" where
  "InsecureIntN r g n = (if n \<le> 0 then None else Some (r g n))"

text \<open>The product is a Go int, which wraps at 64 bits.\<close>

fun max_val :: "nat \<Rightarrow> 64 word" where
  "max_val 0 = 1"
| "max_val (Suc k) = max_val k * 16"

fun hex_of :: "nat \<Rightarrow> string" where
  "hex_of n = (if n < 16 then [hex_char n] else hex_of (n div 16) @ [hex_char (n mod 16)])"

declare hex_of.simps [simp del]

text \<open>A negative length runs no iteration of either loop.\<close>

definition pad_zeros :: "int \<Rightarrow> string \<Rightarrow> string" where
  "pad_zeros len s = replicate (nat len - length s) CHR ''0'' @ s"

definition GetRandomHex :: "'g rand \<Rightarrow> 'g \<Rightarrow> int \<Rightarrow> (string \<times> 'g) option" where
  "GetRandomHex r g len =
     (case InsecureIntN r g (sint (max_val (nat len))) of
        None \<Rightarrow> None
      | Some (v, g) \<Rightarrow> Some (pad_zeros len (hex_of (nat v)), g))"

fun random_chars :: "'g rand \<Rightarrow> 'g \<Rightarrow> string \<Rightarrow> nat \<Rightarrow> (string \<times> 'g) option" where
  "random_chars r g chars 0 = Some ('''', g)"
| "random_chars r g chars (Suc k) =
     (case InsecureIntN r g (int (length chars)) of
        None \<Rightarrow> None
      | Some (i, g) \<Rightarrow> (case random_chars r g chars k of
          None \<Rightarrow> None
        | Some (s, g) \<Rightarrow> Some (chars ! nat i # s, g)))"

definition GetRandomAlphanumeric :: "'g rand \<Rightarrow> 'g \<Rightarrow> int \<Rightarrow> (string \<times> 'g) option" where
  "GetRandomAlphanumeric r g len =
     (if len < 0 then None else random_chars r g ''ABCDEFGHIJKLMNOPQRSTUVWXYZ0123456789'' (nat len))"

definition GetRandomString :: "'g rand \<Rightarrow> 'g \<Rightarrow> int \<Rightarrow> (string \<times> 'g) option" where
  "GetRandomString r g len =
     (if len < 0 then None
      else random_chars r g ''ABCDEFGHIJKLMNOPQRSTUVWXYZabcdefghijklmnopqrstuvwxyz0123456789 '' (nat len))"

definition GetRandomStringInRange :: "'g rand \<Rightarrow> 'g \<Rightarrow> int \<Rightarrow> int \<Rightarrow> (string \<times> 'g) option" where
  "GetRandomStringInRange r g minLength maxLength =
     (case InsecureIntN r g (maxLength - minLength + 1) of
        None \<Rightarrow> None
      | Some (n, g) \<Rightarrow> GetRandomString r g (n + minLength))"

section \<open>fileutil and ptrutil\<close>

text \<open>\<open>os.Stat\<close> as a function of the path; an error for a missing path is recognised as such.\<close>

definition PathExists :: "(string \<Rightarrow> err) \<Rightarrow> string \<Rightarrow> bool res" where
  "PathExists stat path = (case stat path of
     Some e \<Rightarrow> if errors_Is e (ErrNew ''os.ErrNotExist'') then Inr False
       else Inl (wrapped e ''error checking if path exists'')
   | None \<Rightarrow> Inr True)"

definition ValidatePathExists :: "(string \<Rightarrow> err) \<Rightarrow> string \<Rightarrow> err" where
  "ValidatePathExists stat path = (case PathExists stat path of
     Inl e \<Rightarrow> Some (wrapped e (''error checking if path exists: '' @ path))
   | Inr found \<Rightarrow> if \<not> found then Some (wrapped ErrFileNotFound (''path: '' @ path)) else None)"

definition GetRandomFilename :: "string \<Rightarrow> string \<Rightarrow> string" where
  "GetRandomFilename uuid extension = uuid @ extension"

text \<open>The directory, and the result of the clean-up function given the fate of its removal.\<close>

definition CreateTempDir :: "(string \<Rightarrow> string res) \<Rightarrow> string \<Rightarrow> (string \<times> (err \<Rightarrow> err)) res" where
  "CreateTempDir mkdirTemp pattern = (case mkdirTemp pattern of
     Inl e \<Rightarrow> Inl (wrapped e ''failed to create temp dir'')
   | Inr dir \<Rightarrow> Inr (dir, \<lambda>removed. Wrap removed ''failed to remove temp dir''))"

definition Of :: "'a \<Rightarrow> 'a option" where
  "Of v = Some v"

definition ZeroOrVal :: "'a \<Rightarrow> 'a option \<Rightarrow> 'a" where
  "ZeroOrVal zero ptr = (case ptr of Some v \<Rightarrow> v | None \<Rightarrow> zero)"

definition DefaultOrVal :: "'a option \<Rightarrow> 'a \<Rightarrow> 'a" where
  "DefaultOrVal ptr defaultVal = (case ptr of Some v \<Rightarrow> v | None \<Rightarrow> defaultVal)"

section \<open>Random hexadecimal strings\<close>

lemma max_val_power: "max_val k = 16 ^ k"
  by (induction k) simp_all

lemma max_val_small: "k \<le> 15 \<Longrightarrow> sint (max_val k) = 16 ^ k"
proof -
  assume "k \<le> 15"
  then have "k \<in> set [0..<16]" by simp
  then show ?thesis by (simp only: max_val_power) (auto simp: upt_rec)
qed

lemma max_val_large: "16 \<le> k \<Longrightarrow> max_val k = 0"
proof -
  assume "16 \<le> k"
  then obtain j where "k = 16 + j" by (auto simp: le_iff_add)
  moreover have "(16 :: 64 word) ^ 16 = 0" by simp
  ultimately show ?thesis by (simp only: max_val_power power_add mult_zero_left)
qed

definition is_hex :: "char \<Rightarrow> bool" where
  "is_hex c \<longleftrightarrow> (48 \<le> byte c \<and> byte c \<le> 57) \<or> (97 \<le> byte c \<and> byte c \<le> 102)"

lemma is_hex_char: "d < 16 \<Longrightarrow> is_hex (hex_char d)"
  by (auto simp: is_hex_def hex_char_def)

lemma hex_char_0: "hex_char 0 = CHR ''0''"
  by code_simp

lemma hex_of_hex: "list_all is_hex (hex_of n)"
proof (induction n rule: hex_of.induct)
  case (1 n)
  show ?case
  proof (cases "n < 16")
    case True
    then show ?thesis by (simp add: hex_of.simps [of n] is_hex_char)
  next
    case False
    then show ?thesis using 1 by (simp add: hex_of.simps [of n] is_hex_char)
  qed
qed

lemma length_hex_of: "0 < k \<Longrightarrow> n < 16 ^ k \<Longrightarrow> length (hex_of n) \<le> k"
proof (induction n arbitrary: k rule: hex_of.induct)
  case (1 n)
  show ?case
  proof (cases "n < 16")
    case True
    then show ?thesis using 1(2) by (simp add: hex_of.simps [of n])
  next
    case False
    then obtain j where k: "k = Suc j" "0 < j" using 1(2,3) by (cases k; cases "k - 1") auto
    then have "n div 16 < 16 ^ j" using 1(3) by (simp add: less_mult_imp_div_less mult.commute)
    then show ?thesis using 1(1) [OF False k(2)] False k by (simp add: hex_of.simps [of n])
  qed
qed

text \<open>
  GetRandomHex gives a string of exactly the requested length, of hexadecimal digits, for
  lengths from 1 to 15. For a length of 16 or more the bound 16 to the length has wrapped to zero and the
  call panics; for a length of zero or less it gives the one-digit string 0.
\<close>

theorem random_hex_lengths:
  assumes "rand_ok r"
  shows "(1 \<le> len \<and> len \<le> 15 \<longrightarrow> (\<exists>s g'. GetRandomHex r g len = Some (s, g') \<and> int (length s) = len \<and> list_all is_hex s))
    \<and> (16 \<le> len \<longrightarrow> GetRandomHex r g len = None)
    \<and> (len \<le> 0 \<longrightarrow> (\<exists>g'. GetRandomHex r g len = Some (''0'', g')))"
proof -
  have "\<exists>s g'. GetRandomHex r g len = Some (s, g') \<and> int (length s) = len \<and> list_all is_hex s" if l: "1 \<le> len" "len \<le> 15"
  proof -
    obtain v g' where v: "r g (16 ^ nat len) = (v, g')" by fastforce
    then have b: "0 \<le> v" "v < 16 ^ nat len" using assms [unfolded rand_ok_def, rule_format, of "16 ^ nat len" g] by simp_all
    then have "nat v < 16 ^ nat len" by (simp add: nat_less_iff)
    then have "length (hex_of (nat v)) \<le> nat len" using length_hex_of l by simp
    moreover have "sint (max_val (nat len)) = 16 ^ nat len" using max_val_small l by simp
    moreover have "\<not> (16 :: int) ^ nat len \<le> 0" by (simp add: not_le)
    ultimately show ?thesis
      using v l hex_of_hex [of "nat v"]
      by (auto simp: GetRandomHex_def InsecureIntN_def pad_zeros_def list_all_iff is_hex_def)
  qed
  moreover have "GetRandomHex r g len = None" if "16 \<le> len"
    using that max_val_large [of "nat len"] by (simp add: GetRandomHex_def InsecureIntN_def)
  moreover have "\<exists>g'. GetRandomHex r g len = Some (''0'', g')" if "len \<le> 0"
  proof -
    obtain v g' where v: "r g 1 = (v, g')" by fastforce
    then have "v = 0" using assms [unfolded rand_ok_def, rule_format, of 1 g] by simp
    then show ?thesis using v that max_val_small [of 0] by (simp add: GetRandomHex_def InsecureIntN_def pad_zeros_def hex_of.simps hex_char_0)
  qed
  ultimately show ?thesis by blast
qed

theorem random_hex_lengths_witness:
  "\<exists>s g'. GetRandomHex (\<lambda>g n. (0, g)) () 15 = Some (s, g') \<and> int (length s) = 15 \<and> list_all is_hex s"
  using random_hex_lengths [of "\<lambda>g n. (0, g)" 15 "()"] by (simp add: rand_ok_def)

lemma unescaped_user: "BuildURI ''mq'' ''a@evil/'' '''' ''h'' '''' '''' = BuildURI ''mq'' ''a'' '''' ''evil/@h'' '''' ''''"
  by (simp add: BuildURI_def)

end
