(* ===== verification/Temporal.thy ===== *)
theory Temporal
  imports CtxErrors Complex_Main
begin

text \<open>
  Package commontemporal (src/temporal): client, worker, workflow status and waiting for a type of
  workflow to be clear. The Temporal SDK and server are parameters: dialling, describing and listing
  workflows, executing an activity under a retry policy, and \<open>strconv.Quote\<close>, whose table of printable
  runes is left out.
\<close>

section \<open>Client\<close>

record tp_ClientConfig =
  tc_HostPort :: string
  tc_Namespace :: string
  tc_APIKey :: string

abbreviation "ErrHostPortRequired \<equiv> ErrNew ''commontemporal.ErrHostPortRequired''"

definition tp_validate :: "tp_ClientConfig \<Rightarrow> err" where
  "tp_validate c = (if tc_HostPort c = '''' then Some ErrHostPortRequired else None)"

definition tp_parseClientConfig :: "tp_ClientConfig res \<Rightarrow> tp_ClientConfig res" where
  "tp_parseClientConfig parsed = (case parsed of
     Inl e \<Rightarrow> Inl (wrapped e ''could not parse config'')
   | Inr cfg \<Rightarrow> Inr cfg)"

text \<open>
  The options of the SDK client. With an API key the connection uses TLS, every call carries the
  namespace as metadata, and the key is the static credential. A nil logger is replaced by the default.
\<close>

record 'l client_Options =
  op_HostPort :: string
  op_Namespace :: string
  op_Logger :: 'l
  op_TLS :: bool
  op_Metadata :: "(string \<times> string) list"
  op_APIKey :: "string option"

definition NewSlogAdapter :: "'l \<Rightarrow> 'l option \<Rightarrow> 'l" where
  "NewSlogAdapter default_logger logger = (case logger of None \<Rightarrow> default_logger | Some l \<Rightarrow> l)"

text \<open>
  The adapter hands every message to the logger under the level of the method; \<open>emit\<close> is what the logger does with
  a record of a level, a message and its key-value arguments.
\<close>

datatype slog_level = LevelDebug | LevelInfo | LevelWarn | LevelError

type_synonym ('l, 'a, 'w) log_fun = "'l \<Rightarrow> slog_level \<Rightarrow> string \<Rightarrow> 'a list \<Rightarrow> 'w \<Rightarrow> 'w"

definition SlogAdapter_Debug :: "('l, 'a, 'w) log_fun \<Rightarrow> 'l \<Rightarrow> string \<Rightarrow> 'a list \<Rightarrow> 'w \<Rightarrow> 'w" where
  "SlogAdapter_Debug emit l msg keyvals = emit l LevelDebug msg keyvals"

definition SlogAdapter_Info :: "('l, 'a, 'w) log_fun \<Rightarrow> 'l \<Rightarrow> string \<Rightarrow> 'a list \<Rightarrow> 'w \<Rightarrow> 'w" where
  "SlogAdapter_Info emit l msg keyvals = emit l LevelInfo msg keyvals"

definition SlogAdapter_Warn :: "('l, 'a, 'w) log_fun \<Rightarrow> 'l \<Rightarrow> string \<Rightarrow> 'a list \<Rightarrow> 'w \<Rightarrow> 'w" where
  "SlogAdapter_Warn emit l msg keyvals = emit l LevelWarn msg keyvals"

definition SlogAdapter_Error :: "('l, 'a, 'w) log_fun \<Rightarrow> 'l \<Rightarrow> string \<Rightarrow> 'a list \<Rightarrow> 'w \<Rightarrow> 'w" where
  "SlogAdapter_Error emit l msg keyvals = emit l LevelError msg keyvals"

definition configureAPIKey :: "tp_ClientConfig \<Rightarrow> 'l client_Options \<Rightarrow> 'l client_Options" where
  "configureAPIKey cfg opts = opts\<lparr>op_TLS := True, op_Metadata := [(''temporal-namespace'', tc_Namespace cfg)], op_APIKey := Some (tc_APIKey cfg)\<rparr>"

definition createClientOptions :: "'l \<Rightarrow> tp_ClientConfig \<Rightarrow> 'l option \<Rightarrow> 'l client_Options" where
  "createClientOptions default_logger cfg logger =
     (let opts = \<lparr>op_HostPort = tc_HostPort cfg, op_Namespace = tc_Namespace cfg, op_Logger = NewSlogAdapter default_logger logger,
        op_TLS = False, op_Metadata = [], op_APIKey = None\<rparr>
      in if tc_APIKey cfg \<noteq> '''' then configureAPIKey cfg opts else opts)"

definition tp_NewClientWithConfig ::
  "('l client_Options \<Rightarrow> 'c res) \<Rightarrow> 'l \<Rightarrow> tp_ClientConfig \<Rightarrow> 'l option \<Rightarrow> (tp_ClientConfig \<times> 'c) res" where
  "tp_NewClientWithConfig dial default_logger cfg logger =
     (case tp_validate cfg of
        Some e \<Rightarrow> Inl (wrapped e ''could not validate config'')
      | None \<Rightarrow>
          (case dial (createClientOptions default_logger cfg logger) of
             Inl e \<Rightarrow> Inl (wrapped e ''failed to create Temporal client'')
           | Inr c \<Rightarrow> Inr (cfg, c)))"

definition tp_NewClient ::
  "('l client_Options \<Rightarrow> 'c res) \<Rightarrow> 'l \<Rightarrow> tp_ClientConfig res \<Rightarrow> 'l option \<Rightarrow> (tp_ClientConfig \<times> 'c) res" where
  "tp_NewClient dial default_logger parsed logger =
     (case tp_parseClientConfig parsed of
        Inl e \<Rightarrow> Inl (wrapped e ''could not parse config'')
      | Inr cfg \<Rightarrow> tp_NewClientWithConfig dial default_logger cfg logger)"

definition tp_Close :: "('c \<Rightarrow> 'w \<Rightarrow> 'w) \<Rightarrow> tp_ClientConfig \<times> 'c \<Rightarrow> 'w \<Rightarrow> 'w" where
  "tp_Close sdk_close c = sdk_close (snd c)"

section \<open>Worker\<close>

text \<open>A worker is what has been registered on it, for a task queue.\<close>

record 'f Worker =
  wk_queue :: string
  wk_workflows :: "'f list"
  wk_activities :: "'f list"

definition NewWorker :: "string \<Rightarrow> 'f Worker" where
  "NewWorker taskQueue = \<lparr>wk_queue = taskQueue, wk_workflows = [], wk_activities = []\<rparr>"

definition RegisterWorkflow :: "'f \<Rightarrow> 'f Worker \<Rightarrow> 'f Worker" where
  "RegisterWorkflow f w = w\<lparr>wk_workflows := wk_workflows w @ [f]\<rparr>"

definition RegisterWorkflows :: "'f list \<Rightarrow> 'f Worker \<Rightarrow> 'f Worker" where
  "RegisterWorkflows fs w = foldl (\<lambda>w f. RegisterWorkflow f w) w fs"

definition RegisterActivity :: "'f \<Rightarrow> 'f Worker \<Rightarrow> 'f Worker" where
  "RegisterActivity f w = w\<lparr>wk_activities := wk_activities w @ [f]\<rparr>"

definition RegisterActivities :: "'f list \<Rightarrow> 'f Worker \<Rightarrow> 'f Worker" where
  "RegisterActivities fs w = foldl (\<lambda>w f. RegisterActivity f w) w fs"

definition Worker_Run :: "err \<Rightarrow> err" where
  "Worker_Run sdk_run = Wrap sdk_run ''failed to run worker''"

definition Worker_Stop :: "('f Worker \<Rightarrow> 'w \<Rightarrow> 'w) \<Rightarrow> 'f Worker \<Rightarrow> 'w \<Rightarrow> 'w" where
  "Worker_Stop sdk_stop w = sdk_stop w"

section \<open>Workflow\<close>

datatype wf_status = UNSPECIFIED | RUNNING | COMPLETED | FAILED | CANCELED | TERMINATED | CONTINUED_AS_NEW | TIMED_OUT | PAUSED | OtherStatus int

text \<open>\<open>errors.As\<close> for an error type the code tests for.\<close>

fun errors_As :: "string \<Rightarrow> go_error \<Rightarrow> bool" where
  "errors_As ty (TypedError t n) = (t = ty)"
| "errors_As ty (CTXError (Some e) m) = errors_As ty e"
| "errors_As ty (WrapError m e) = errors_As ty e"
| "errors_As ty (JoinError es) = list_ex (errors_As ty) es"
| "errors_As ty _ = False"

definition isWorkflowErrorNotFound :: "go_error \<Rightarrow> bool" where
  "isWorkflowErrorNotFound e = errors_As ''serviceerror.NotFound'' e"

definition isWorkflowStatusTerminal :: "wf_status \<Rightarrow> bool" where
  "isWorkflowStatusTerminal s = (case s of
     COMPLETED \<Rightarrow> True | FAILED \<Rightarrow> True | CANCELED \<Rightarrow> True | TERMINATED \<Rightarrow> True | TIMED_OUT \<Rightarrow> True | UNSPECIFIED \<Rightarrow> True
   | RUNNING \<Rightarrow> False | CONTINUED_AS_NEW \<Rightarrow> False | PAUSED \<Rightarrow> False | OtherStatus _ \<Rightarrow> False)"

record 'v temporal_service =
  ts_Describe :: "string \<Rightarrow> wf_status res"
  ts_Result :: "string \<Rightarrow> 'v res"
  ts_List :: "string \<Rightarrow> int \<Rightarrow> nat res"

text \<open>A handle on a workflow: the client and the identifier.\<close>

record 'v Workflow =
  wf_client :: "'v temporal_service"
  wf_ID :: string

definition NewWorkflow :: "'v temporal_service \<Rightarrow> string \<Rightarrow> 'v Workflow" where
  "NewWorkflow c id' = \<lparr>wf_client = c, wf_ID = id'\<rparr>"

definition GetStatus :: "'v Workflow \<Rightarrow> (wf_status \<times> bool) res" where
  "GetStatus w = (case ts_Describe (wf_client w) (wf_ID w) of
     Inl e \<Rightarrow> if isWorkflowErrorNotFound e then Inl ErrNotFound else Inl (wrapped e ''failed to get workflow status'')
   | Inr s \<Rightarrow> Inr (s, isWorkflowStatusTerminal s))"

definition GetResult :: "'v Workflow \<Rightarrow> 'v res" where
  "GetResult w = (case ts_Result (wf_client w) (wf_ID w) of
     Inl e \<Rightarrow> if isWorkflowErrorNotFound e then Inl ErrNotFound else Inl (wrapped e ''failed to get workflow result'')
   | Inr v \<Rightarrow> Inr v)"

definition IsRunning :: "'v Workflow \<Rightarrow> bool res" where
  "IsRunning w = (case GetStatus w of
     Inl e \<Rightarrow> if errors_Is e ErrNotFound then Inr False else Inl (wrapped e ''failed to get workflow status'')
   | Inr (s, _) \<Rightarrow> Inr (s = RUNNING))"

definition IsWorkflowTypeRunning :: "(string \<Rightarrow> string) \<Rightarrow> 'v temporal_service \<Rightarrow> string \<Rightarrow> bool res" where
  "IsWorkflowTypeRunning Quote svc workflowType =
     (case ts_List svc (''WorkflowType='' @ Quote workflowType @ '' AND ExecutionStatus='' @ Quote ''Running'') 1 of
        Inl e \<Rightarrow> Inl (wrapped e (''list workflows by type '' @ Quote workflowType))
      | Inr n \<Rightarrow> Inr (n > 0))"

definition IsCompletedSuccessfully :: "'v Workflow \<Rightarrow> bool res" where
  "IsCompletedSuccessfully w = (case GetStatus w of
     Inl e \<Rightarrow> Inl (wrapped e ''failed to get workflow status'')
   | Inr (s, terminal) \<Rightarrow> Inr (terminal \<and> s = COMPLETED))"

section \<open>Waiting for a type to be clear\<close>

text \<open>Durations are nanoseconds; the coefficient is a rational number.\<close>

record WaitConfig =
  wc_StartToCloseTimeout :: int
  wc_InitialInterval :: int
  wc_BackoffCoefficient :: rat
  wc_MaximumInterval :: int
  wc_MaximumAttempts :: int

abbreviation seconds :: "int \<Rightarrow> int" where "seconds n \<equiv> n * 1000000000"

definition default_wait :: WaitConfig where
  "default_wait = \<lparr>wc_StartToCloseTimeout = seconds 30, wc_InitialInterval = seconds 300, wc_BackoffCoefficient = 2,
     wc_MaximumInterval = seconds 900, wc_MaximumAttempts = 4\<rparr>"

abbreviation or_default :: "'a :: zero \<Rightarrow> 'a \<Rightarrow> 'a" where
  "or_default v d \<equiv> (if v = 0 then d else v)"

definition applyDefaults :: "WaitConfig \<Rightarrow> WaitConfig" where
  "applyDefaults c =
     \<lparr>wc_StartToCloseTimeout = or_default (wc_StartToCloseTimeout c) (wc_StartToCloseTimeout default_wait),
      wc_InitialInterval = or_default (wc_InitialInterval c) (wc_InitialInterval default_wait),
      wc_BackoffCoefficient = or_default (wc_BackoffCoefficient c) (wc_BackoffCoefficient default_wait),
      wc_MaximumInterval = or_default (wc_MaximumInterval c) (wc_MaximumInterval default_wait),
      wc_MaximumAttempts = or_default (wc_MaximumAttempts c) (wc_MaximumAttempts default_wait)\<rparr>"

abbreviation "ErrWorkflowTypeRunning \<equiv> ErrNew ''commontemporal.ErrWorkflowTypeRunning''"

definition WaitActivity :: "(string \<Rightarrow> string) \<Rightarrow> 'v temporal_service \<Rightarrow> string \<Rightarrow> err" where
  "WaitActivity Quote svc workflowType = (case IsWorkflowTypeRunning Quote svc workflowType of
     Inl e \<Rightarrow> Some (wrapped e ''check workflow type running'')
   | Inr running \<Rightarrow> if running then Some ErrWorkflowTypeRunning else None)"

definition WaitForWorkflowTypeClear ::
  "(string \<Rightarrow> string) \<Rightarrow> (WaitConfig \<Rightarrow> string \<Rightarrow> string \<Rightarrow> err) \<Rightarrow> string \<Rightarrow> WaitConfig \<Rightarrow> err" where
  "WaitForWorkflowTypeClear Quote execute workflowType cfg =
     Wrap (execute (applyDefaults cfg) ''CommonTemporal_WaitForWorkflowTypeClear'' workflowType)
       (''wait for workflow type '' @ Quote workflowType @ '' to clear'')"

text \<open>
  The documented retry policy: the gap before attempt i + 2 is the initial interval times the i-th power
  of the coefficient, at most the maximal interval; there is a gap between attempts only.
\<close>

definition retry_gaps :: "WaitConfig \<Rightarrow> rat list" where
  "retry_gaps c = map (\<lambda>i. min (of_int (wc_MaximumInterval c)) (of_int (wc_InitialInterval c) * wc_BackoffCoefficient c ^ i))
     [0..<nat (wc_MaximumAttempts c) - 1]"

definition zero_WaitConfig :: WaitConfig where
  "zero_WaitConfig = \<lparr>wc_StartToCloseTimeout = 0, wc_InitialInterval = 0, wc_BackoffCoefficient = 0, wc_MaximumInterval = 0, wc_MaximumAttempts = 0\<rparr>"

text \<open>With the defaults the waits are 5, 10 and 15 minutes, half an hour in all.\<close>

lemma default_gaps:
  "retry_gaps (applyDefaults zero_WaitConfig) = map of_int [seconds 300, seconds 600, seconds 900]"
  "sum_list (retry_gaps (applyDefaults zero_WaitConfig)) = of_int (seconds 1800)"
  by (simp_all add: retry_gaps_def applyDefaults_def default_wait_def zero_WaitConfig_def upt_rec)

text \<open>A status that counts as running is not terminal, and a missing workflow is not running.\<close>

lemma running_not_terminal: "IsRunning w = Inr True \<Longrightarrow> GetStatus w = Inr (RUNNING, False)"
  by (auto simp: IsRunning_def GetStatus_def isWorkflowStatusTerminal_def split: sum.splits if_splits)

lemma missing_not_running:
  "ts_Describe svc i = Inl (TypedError ''serviceerror.NotFound'' n) \<Longrightarrow>
     IsRunning (NewWorkflow svc i) = Inr False \<and> GetStatus (NewWorkflow svc i) = Inl ErrNotFound"
  by (simp add: NewWorkflow_def IsRunning_def GetStatus_def isWorkflowErrorNotFound_def)

section \<open>What waiting comes to\<close>

text \<open>
  The documented behaviour of an activity under a retry policy: attempts follow each other until one succeeds or the
  maximal number is reached; the error is that of the last attempt. \<open>attempt\<close> gives the result of the n-th one.
\<close>

fun retry :: "nat \<Rightarrow> nat \<Rightarrow> (nat \<Rightarrow> err) \<Rightarrow> err" where
  "retry i 0 attempt = None"
| "retry i (Suc k) attempt = (case attempt i of None \<Rightarrow> None | Some e \<Rightarrow> if k = 0 then Some e else retry (Suc i) k attempt)"

lemma retry_None_iff: "0 < k \<Longrightarrow> retry i k attempt = None \<longleftrightarrow> (\<exists>j<k. attempt (i + j) = None)"
proof (induction k arbitrary: i)
  case (Suc k)
  have ex: "(\<exists>j<Suc k. attempt (i + j) = None) \<longleftrightarrow> attempt i = None \<or> (\<exists>j<k. attempt (Suc i + j) = None)"
    by (auto simp: less_Suc_eq_0_disj)
  show ?case using Suc.IH [of "Suc i"] unfolding ex by (cases "attempt i"; cases k) auto
qed simp

definition activity_runs :: "(string \<Rightarrow> string) \<Rightarrow> (nat \<Rightarrow> 'v temporal_service) \<Rightarrow> WaitConfig \<Rightarrow> string \<Rightarrow> string \<Rightarrow> err" where
  "activity_runs Quote svc cfg name workflowType =
     (if name = ''CommonTemporal_WaitForWorkflowTypeClear''
      then retry 0 (nat (wc_MaximumAttempts cfg)) (\<lambda>i. WaitActivity Quote (svc i) workflowType)
      else Some (Foreign ''activity not registered''))"

text \<open>With the defaults the wait ends without an error just when one of four attempts finds no workflow of the type.\<close>

lemma wait_clear_iff:
  "WaitForWorkflowTypeClear Quote (activity_runs Quote svc) workflowType zero_WaitConfig = None
     \<longleftrightarrow> (\<exists>i<4. IsWorkflowTypeRunning Quote (svc i) workflowType = Inr False)"
proof -
  have "WaitActivity Quote (svc i) workflowType = None \<longleftrightarrow> IsWorkflowTypeRunning Quote (svc i) workflowType = Inr False" for i
    by (auto simp: WaitActivity_def split: sum.splits)
  then show ?thesis
    by (simp add: WaitForWorkflowTypeClear_def Wrap_None_iff activity_runs_def applyDefaults_def default_wait_def
        zero_WaitConfig_def retry_None_iff)
qed

end
