(* ===== verification/CacheRedis.thy ===== *)
theory CacheRedis
  imports CacheMemory
begin

text \<open>
  The cache on a Redis client and the choice of a cache from the configuration (src/cache/redis.go,
  src/cache/config.go). The client is a parameter.
\<close>

section \<open>Redis\<close>

record 'w redis_client =
  rd_Get :: "string \<Rightarrow> 'w \<Rightarrow> bytes res \<times> 'w"
  rd_Set :: "string \<Rightarrow> bytes \<Rightarrow> int \<Rightarrow> 'w \<Rightarrow> err \<times> 'w"
  rd_Del :: "string \<Rightarrow> 'w \<Rightarrow> err \<times> 'w"

abbreviation "redis_Nil \<equiv> ErrNew ''redis.Nil''"

record 'w Redis =
  rd_client :: "'w redis_client"
  rd_keyPrefix :: string

definition NewRedis :: "'w redis_client \<Rightarrow> 'w Redis" where
  "NewRedis client = \<lparr>rd_client = client, rd_keyPrefix = ''''\<rparr>"

definition NewRedisWithPrefix :: "'w redis_client \<Rightarrow> string \<Rightarrow> 'w Redis" where
  "NewRedisWithPrefix client prefix = \<lparr>rd_client = client, rd_keyPrefix = prefix\<rparr>"

definition buildKey :: "'w Redis \<Rightarrow> string \<Rightarrow> string" where
  "buildKey r k = rd_keyPrefix r @ ''cache:'' @ k"

definition Redis_Get :: "'w Redis \<Rightarrow> string \<Rightarrow> 'w \<Rightarrow> bytes res \<times> 'w" where
  "Redis_Get r k w = (case rd_Get (rd_client r) (buildKey r k) w of
     (Inl e, w) \<Rightarrow> (Inl (if errors_Is e redis_Nil then ErrCacheMiss else wrapped e ''redis get''), w)
   | (Inr v, w) \<Rightarrow> (Inr v, w))"

definition Redis_Set :: "'w Redis \<Rightarrow> string \<Rightarrow> bytes \<Rightarrow> int \<Rightarrow> 'w \<Rightarrow> err \<times> 'w" where
  "Redis_Set r k v ttl w = (case rd_Set (rd_client r) (buildKey r k) v ttl w of (e, w) \<Rightarrow> (Wrap e ''redis set'', w))"

definition Redis_Delete :: "'w Redis \<Rightarrow> string \<Rightarrow> 'w \<Rightarrow> err \<times> 'w" where
  "Redis_Delete r k w = (case rd_Del (rd_client r) (buildKey r k) w of (e, w) \<Rightarrow> (Wrap e ''redis delete'', w))"

definition Redis_Close :: err where
  "Redis_Close = None"

section \<open>Configuration\<close>

record cache_Config =
  cc_Mode :: string
  cc_TTL :: int
  cc_MaxEntries :: int
  cc_RedisKeyPrefix :: string

definition cache_ParseConfig :: "cache_Config res \<Rightarrow> cache_Config res" where
  "cache_ParseConfig parsed = (case parsed of
     Inl e \<Rightarrow> Inl (wrapped e ''parse cache config'')
   | Inr cfg \<Rightarrow> Inr cfg)"

abbreviation "ErrInvalidCacheMode \<equiv> ErrNew ''cache.ErrInvalidCacheMode''"

text \<open>
  The cache that was chosen, with None for a nil cache, and the clean-up function the caller gets beside it, which
  closes the cache or does nothing.
\<close>

datatype 'w cache_kind = MemoryCache Memory | RedisCache "'w Redis"

datatype cleanup = CleanupNothing | CleanupClose

definition cache_New :: "cache_Config \<Rightarrow> 'w redis_client option \<Rightarrow> 'w cache_kind option \<times> cleanup \<times> err" where
  "cache_New opts redisClient =
     (if cc_Mode opts = ''memory'' then (Some (MemoryCache (NewMemory (cc_MaxEntries opts))), CleanupClose, None)
      else if cc_Mode opts = ''redis'' then
        (case redisClient of
           None \<Rightarrow> (None, CleanupNothing, Some (wrapped ErrInvalidCacheMode ''redis client required for redis cache mode''))
         | Some c \<Rightarrow> (Some (RedisCache (NewRedisWithPrefix c (cc_RedisKeyPrefix opts))), CleanupClose, None))
      else if cc_Mode opts = ''none'' \<or> cc_Mode opts = '''' then (None, CleanupNothing, None)
      else (None, CleanupNothing, Some (wrapped ErrInvalidCacheMode (''unknown cache mode: '' @ cc_Mode opts))))"

text \<open>Calling the clean-up function on the cache as it is then; None is a panic.\<close>

fun run_cleanup :: "cleanup \<Rightarrow> 'w cache_kind option \<Rightarrow> 'w cache_kind option option" where
  "run_cleanup CleanupClose (Some (MemoryCache m)) = map_option (Some \<circ> MemoryCache \<circ> snd) (Memory_Close m)"
| "run_cleanup cl c = Some c"

text \<open>
  An error comes with no cache and a clean-up function that does nothing; what New returns can be cleaned up once, and
  the in-memory cache not twice: the second close of its channel panics.
\<close>

lemma cache_New_error: "cache_New opts rc = (c, cl, Some e) \<Longrightarrow> c = None \<and> cl = CleanupNothing \<and> errors_Is e ErrInvalidCacheMode"
  by (auto simp: cache_New_def split: if_splits option.splits)

lemma cleanup_runs: "cache_New opts rc = (c, cl, e) \<Longrightarrow> run_cleanup cl c \<noteq> None"
  by (auto simp: cache_New_def Memory_Close_def NewMemory_def split: if_splits option.splits)

lemma memory_cleanup_once: "run_cleanup CleanupClose (Some (MemoryCache m)) = Some c \<Longrightarrow> run_cleanup CleanupClose c = None"
  by (auto simp: Memory_Close_def split: if_splits)

section \<open>Keys\<close>

text \<open>Within one cache different keys are stored under different names; across prefixes they may meet.\<close>

lemma buildKey_inject: "buildKey r k = buildKey r k' \<longleftrightarrow> k = k'"
  by (simp add: buildKey_def)

lemma prefixes_collide:
  "buildKey (NewRedisWithPrefix c ''a'') ''cache:x'' = buildKey (NewRedisWithPrefix c ''acache:'') ''x''"
  by (simp add: buildKey_def NewRedisWithPrefix_def)

text \<open>
  What the client promises of the store behind it: a read finds what is stored, a write that succeeds was done, and one
  that fails may have been done, since an answer can be lost.
\<close>

definition redis_contract :: "'w redis_client \<Rightarrow> ('w \<Rightarrow> string \<rightharpoonup> bytes) \<Rightarrow> bool" where
  "redis_contract c store \<longleftrightarrow>
     (\<forall>k w r w'. rd_Get c k w = (r, w') \<longrightarrow> store w' = store w
        \<and> (\<forall>v. r = Inr v \<longrightarrow> store w k = Some v) \<and> (\<forall>e. r = Inl e \<longrightarrow> errors_Is e redis_Nil \<longrightarrow> store w k = None))
   \<and> (\<forall>k v ttl w e w'. rd_Set c k v ttl w = (e, w') \<longrightarrow>
        store w' = (store w)(k \<mapsto> v) \<or> e \<noteq> None \<and> store w' = store w)
   \<and> (\<forall>k w e w'. rd_Del c k w = (e, w') \<longrightarrow> store w' = (store w)(k := None) \<or> e \<noteq> None \<and> store w' = store w)"

text \<open>
  So a value that was set is found, other keys of the cache are untouched, and the key that was set is not a miss.
\<close>

lemmas redis_GetD = redis_contract_def [THEN iffD1, THEN conjunct1, rule_format]
lemmas redis_SetD = redis_contract_def [THEN iffD1, THEN conjunct2, THEN conjunct1, rule_format]
lemmas redis_DelD = redis_contract_def [THEN iffD1, THEN conjunct2, THEN conjunct2, rule_format]

lemma redis_get_after_set:
  assumes c: "redis_contract (rd_client r) store" and "Redis_Set r k v ttl w = (None, w1)" "Redis_Get r k' w1 = (x, w2)"
  shows "(x = Inr v' \<longrightarrow> v' = (if k' = k then v else the (store w (buildKey r k')))) \<and> (k' = k \<longrightarrow> x \<noteq> Inl ErrCacheMiss)"
proof -
  obtain e s where 1: "rd_Set (rd_client r) (buildKey r k) v ttl w = (e, s)" by fastforce
  then have e: "e = None" "s = w1" using assms(2) by (auto simp: Redis_Set_def Wrap_None_iff)
  obtain y t where 2: "rd_Get (rd_client r) (buildKey r k') w1 = (y, t)" by fastforce
  show ?thesis
    using redis_SetD [OF c 1] redis_GetD [OF c 2] e assms(3) 2
    by (auto simp: Redis_Get_def buildKey_inject split: sum.splits if_splits)
qed

section \<open>The time to live\<close>

text \<open>
  A server with a clock, as the client documents its commands: SET with a positive expiration is given in
  milliseconds, rounded down but at least one, minus one keeps the expiration of the key, and any other leaves the key
  without one. An expired key reads as a missing one.
\<close>

record redis_world =
  rw_now :: int
  rw_keys :: "string \<rightharpoonup> bytes \<times> int option"

definition redis_live :: "int \<Rightarrow> bytes \<times> int option \<Rightarrow> bool" where
  "redis_live now x = (case snd x of None \<Rightarrow> True | Some t \<Rightarrow> now < t)"

definition whole_ms :: "int \<Rightarrow> int" where
  "whole_ms d = max 1 (d div 1000000) * 1000000"

definition redis_server :: "redis_world redis_client" where
  "redis_server = \<lparr>
     rd_Get = \<lambda>k w. (case rw_keys w k of
         Some x \<Rightarrow> if redis_live (rw_now w) x then Inr (fst x) else Inl redis_Nil
       | None \<Rightarrow> Inl redis_Nil, w),
     rd_Set = \<lambda>k v d w. (None, w\<lparr>rw_keys := (rw_keys w)(k \<mapsto> (v,
         if 0 < d then Some (rw_now w + whole_ms d)
         else if d = - 1 then (case rw_keys w k of Some x \<Rightarrow> if redis_live (rw_now w) x then snd x else None | None \<Rightarrow> None)
         else None))\<rparr>),
     rd_Del = \<lambda>k w. (None, w\<lparr>rw_keys := (rw_keys w)(k := None)\<rparr>)\<rparr>"

text \<open>This server keeps what it is given, in the sense of the contract above, as far as it is alive.\<close>

definition redis_visible :: "redis_world \<Rightarrow> string \<rightharpoonup> bytes" where
  "redis_visible w k = (case rw_keys w k of Some x \<Rightarrow> if redis_live (rw_now w) x then Some (fst x) else None | None \<Rightarrow> None)"

lemma whole_ms_pos: "0 < whole_ms d"
  by (simp add: whole_ms_def)

lemma redis_server_contract: "redis_contract redis_server redis_visible"
  using whole_ms_pos
  by (auto simp: redis_contract_def redis_server_def redis_visible_def redis_live_def fun_eq_iff
      split: option.splits if_splits)

text \<open>
  With a time to live of whole milliseconds a value is found until its time has passed, as in the in-memory cache but
  for the last instant. With zero it is found for ever, where the in-memory cache drops it at the next instant.
\<close>

lemma redis_ttl:
  assumes "0 < ttl" "1000000 dvd ttl" "Redis_Set (NewRedisWithPrefix redis_server p) k v ttl w = (e, w1)"
  shows "e = None \<and> fst (Redis_Get (NewRedisWithPrefix redis_server p) k (w1\<lparr>rw_now := t\<rparr>))
    = (if t < rw_now w + ttl then Inr v else Inl ErrCacheMiss)"
proof -
  have "whole_ms ttl = ttl" using assms(1,2) by (auto simp: whole_ms_def elim!: dvdE)
  then show ?thesis
    using assms(1,3) by (auto simp: Redis_Set_def Redis_Get_def NewRedisWithPrefix_def redis_server_def redis_live_def Wrap_None_iff)
qed

lemma redis_ttl_zero:
  assumes "Redis_Set (NewRedisWithPrefix redis_server p) k v 0 w = (e, w1)"
  shows "e = None \<and> fst (Redis_Get (NewRedisWithPrefix redis_server p) k (w1\<lparr>rw_now := t\<rparr>)) = Inr v"
  using assms by (auto simp: Redis_Set_def Redis_Get_def NewRedisWithPrefix_def redis_server_def redis_live_def Wrap_None_iff)

end
