(* ===== verification/EchoHttp.thy ===== *)
theory EchoHttp
  imports Http GoStrings
begin

text \<open>
  The HTTP server side: package commonecho (src/http/echo), its middleware
  (src/http/echo/middleware, src/http/oapi-codegen/middleware), and under them the parts of the vendored
  echo-middleware and kin-openapi that decide whether a request reaches its handler. The router, the
  validation of parameters and bodies, the writing of responses and the framework's own error handler
  are parameters.
\<close>

section \<open>Requests\<close>

text \<open>
  A request as a server has it. Its body is absent, still comes from the connection (the bytes, and the error that ends
  them early if there is one), was put back into memory, or was read and closed. \<open>GetBody\<close> makes a fresh copy; net/http
  sets none on the requests of a server.
\<close>

datatype server_body =
    NoBody
  | Incoming string err
  | Restored string
  | ClosedBody

record server_request =
  sr_method :: string
  sr_url :: string
  sr_header :: "(string, string) gomap"
  sr_body :: server_body
  sr_GetBody :: "string option"
  sr_ContentLength :: int

abbreviation "ErrBodyReadAfterClose \<equiv> ErrNew ''http.ErrBodyReadAfterClose''"

text \<open>\<open>io.ReadAll\<close> on a body that is there, and the body once it has been closed after that.\<close>

fun body_ReadAll :: "server_body \<Rightarrow> string res" where
  "body_ReadAll (Incoming data None) = Inr data"
| "body_ReadAll (Incoming data (Some e)) = Inl e"
| "body_ReadAll (Restored data) = Inr data"
| "body_ReadAll ClosedBody = Inl ErrBodyReadAfterClose"
| "body_ReadAll NoBody = Inr []"

fun read_and_closed :: "server_body \<Rightarrow> server_body" where
  "read_and_closed (Restored data) = Restored []"
| "read_and_closed NoBody = NoBody"
| "read_and_closed _ = ClosedBody"

section \<open>Handlers\<close>

text \<open>
  A handler returns an error or nil, panics, or aborts with the panic value net/http reserves for that.
  Its events are the responses it sends and whatever else it does.
\<close>

datatype 'e server_event = Responded int string | Did 'e
datatype handler_result = Returned err | Panicked string | Aborted

type_synonym 'e outcome = "'e server_event list \<times> handler_result"
type_synonym 'e handler = "server_request \<Rightarrow> 'e outcome"
type_synonym 'e middleware = "'e handler \<Rightarrow> 'e handler"

text \<open>The first middleware of a list is the outermost.\<close>

definition applyMiddleware :: "'e handler \<Rightarrow> 'e middleware list \<Rightarrow> 'e handler" where
  "applyMiddleware h ms = foldr (\<lambda>m h. m h) ms h"

text \<open>\<open>middleware.Recover()\<close>: a panic is handed to the framework's error handler.\<close>

definition Recover :: "(string \<Rightarrow> 'e server_event list) \<Rightarrow> 'e middleware" where
  "Recover on_error nxt r =
     (case nxt r of
        (evs, Panicked m) \<Rightarrow> (evs @ on_error m, Returned None)
      | (evs, x) \<Rightarrow> (evs, x))"

section \<open>Request validation\<close>

text \<open>
  Of the OpenAPI document a route has the security requirements of its operation, None where the
  operation has none of its own, next to the document's own requirements and its declared schemes. A
  requirement is the list of the schemes it asks for, in the order of their names.
\<close>

record route =
  rt_security :: "string list list option"
  rt_global_security :: "string list list"
  rt_schemes :: "string list"

datatype route_error = RouteError string | OtherRouteError string
datatype rest_error = RequestError string | MultiError "string list" | OtherError string

text \<open>
  An authentication function gets the request and may read its body; None stands for nil. Its errors are not lists of
  errors (openapi3.MultiError).
\<close>

type_synonym AuthFunc = "(server_request \<Rightarrow> err \<times> server_request) option"

abbreviation "ErrAuthenticationServiceMissing \<equiv> ErrNew ''openapi3filter.ErrAuthenticationServiceMissing''"

text \<open>The data that was read from the body, if it had one, is put back.\<close>

definition put_back :: "string option \<Rightarrow> server_request \<Rightarrow> server_request" where
  "put_back data r =
     (case data of
        None \<Rightarrow> r
      | Some d \<Rightarrow>
          (case sr_GetBody r of
             Some body \<Rightarrow> r\<lparr>sr_body := Restored body\<rparr>
           | None \<Rightarrow> r\<lparr>sr_body := Restored d, sr_GetBody := Some d, sr_ContentLength := int (length d)\<rparr>))"

text \<open>The loop over the names of a requirement, which are in order.\<close>

fun check_schemes ::
  "(server_request \<Rightarrow> err \<times> server_request) \<Rightarrow> string list \<Rightarrow> string option \<Rightarrow> server_request \<Rightarrow> string list \<Rightarrow> err \<times> server_request" where
  "check_schemes f declared data r [] = (None, put_back data r)"
| "check_schemes f declared data r (name # names) =
     (if name \<notin> set declared then (Some (Foreign (''security scheme '' @ name @ '' is not declared'')), r)
      else (case f (put_back data r) of
              (Some e, r') \<Rightarrow> (Some e, r')
            | (None, r') \<Rightarrow> check_schemes f declared data r' names))"

definition validateSecurityRequirement :: "AuthFunc \<Rightarrow> string list \<Rightarrow> server_request \<Rightarrow> string list \<Rightarrow> err \<times> server_request" where
  "validateSecurityRequirement auth declared r names =
     (case auth of
        None \<Rightarrow> (Some ErrAuthenticationServiceMissing, r)
      | Some f \<Rightarrow>
          if sr_body r = NoBody then check_schemes f declared None r names
          else
            (let r' = r\<lparr>sr_body := read_and_closed (sr_body r)\<rparr> in
             case body_ReadAll (sr_body r) of
               Inl e \<Rightarrow> (Some (WrapError ''reading failed: '' e), r')
             | Inr data \<Rightarrow> check_schemes f declared (Some data) r' names))"

text \<open>None: one requirement is met. Some: the errors of all of them.\<close>

fun requirement_errors ::
  "AuthFunc \<Rightarrow> string list \<Rightarrow> server_request \<Rightarrow> string list list \<Rightarrow> go_error list \<Rightarrow> go_error list option \<times> server_request" where
  "requirement_errors auth declared r [] errs = (Some errs, r)"
| "requirement_errors auth declared r (sr # srs) errs =
     (case validateSecurityRequirement auth declared r sr of
        (Some e, r') \<Rightarrow> requirement_errors auth declared r' srs (errs @ [e])
      | (None, r') \<Rightarrow> (None, r'))"

definition ValidateSecurityRequirements ::
  "AuthFunc \<Rightarrow> string list \<Rightarrow> server_request \<Rightarrow> string list list \<Rightarrow> go_error list option \<times> server_request" where
  "ValidateSecurityRequirements auth declared r srs =
     (if srs = [] then (None, r) else requirement_errors auth declared r srs [])"

definition security_of :: "route \<Rightarrow> string list list" where
  "security_of rt = (case rt_security rt of None \<Rightarrow> rt_global_security rt | Some s \<Rightarrow> s)"

text \<open>An echo.HTTPError, a status with a message.\<close>

type_synonym http_error = "int \<times> string"

fun first_http_error :: "go_error list \<Rightarrow> http_error option" where
  "first_http_error [] = None"
| "first_http_error (HTTPError code msg # es) = Some (code, msg)"
| "first_http_error (_ # es) = first_http_error es"

fun join_strings :: "string \<Rightarrow> string list \<Rightarrow> string" where
  "join_strings sep [] = ''''"
| "join_strings sep [s] = s"
| "join_strings sep (s # ss) = s @ sep @ join_strings sep ss"

definition multiErrorHandler :: "string list \<Rightarrow> http_error" where
  "multiErrorHandler errMsgs = (400, ''Validation failed: '' @ join_strings ''; '' errMsgs)"

text \<open>The checks after the security requirements may change the request: they read the body and put it back.\<close>

record api =
  FindRoute :: "server_request \<Rightarrow> route_error + route"
  validate_rest :: "route \<Rightarrow> server_request \<Rightarrow> rest_error option \<times> server_request"

text \<open>
  The options the middleware passes have no MultiError flag, so validation stops at the first error; an
  error that wraps several still goes to \<open>multiErrorHandler\<close>. \<open>etext\<close> is the Error method. The request is the one the
  handler then sees.
\<close>

definition ValidateRequestFromContext ::
  "(go_error \<Rightarrow> string) \<Rightarrow> api \<Rightarrow> AuthFunc \<Rightarrow> server_request \<Rightarrow> http_error option \<times> server_request" where
  "ValidateRequestFromContext etext oas auth r =
     (case FindRoute oas r of
        Inl (RouteError reason) \<Rightarrow> (Some (404, reason), r)
      | Inl (OtherRouteError e) \<Rightarrow> (Some (500, ''error validating route: '' @ e), r)
      | Inr rt \<Rightarrow>
          (case ValidateSecurityRequirements auth (rt_schemes rt) r (security_of rt) of
             (Some errs, r') \<Rightarrow>
               (case first_http_error errs of
                  Some he \<Rightarrow> (Some he, r')
                | None \<Rightarrow> (Some (403, ''security requirements failed: '' @ join_strings '' | '' (map etext errs)), r'))
           | (None, r') \<Rightarrow>
               (case validate_rest oas rt r' of
                  (None, r'') \<Rightarrow> (None, r'')
                | (Some (RequestError line), r'') \<Rightarrow> (Some (400, line), r'')
                | (Some (MultiError msgs), r'') \<Rightarrow> (Some (multiErrorHandler msgs), r'')
                | (Some (OtherError e), r'') \<Rightarrow> (Some (500, ''error validating request: '' @ e), r''))))"

section \<open>The middleware\<close>

definition ErrorResponse_json :: "string \<Rightarrow> json" where
  "ErrorResponse_json code = JObj [(''error'', JStr code)]"

text \<open>\<open>send\<close> is the fate of writing a response.\<close>

definition errorHandler :: "(int \<Rightarrow> string \<Rightarrow> err) \<Rightarrow> http_error \<Rightarrow> 'e outcome" where
  "errorHandler send he =
     (case he of (code, msg) \<Rightarrow>
        let body = Marshal (ErrorResponse_json (ErrCodeFromHTTPStatus code)) in
        (case send code body of
           Some e \<Rightarrow> ([], Returned (Some (wrapped e ''failed to send error response'')))
         | None \<Rightarrow> ([Responded code body], Returned None)))"

definition OapiValidatorMiddlewareWithOptions :: "(go_error \<Rightarrow> string) \<Rightarrow> (int \<Rightarrow> string \<Rightarrow> err) \<Rightarrow> api \<Rightarrow> AuthFunc \<Rightarrow> 'e middleware" where
  "OapiValidatorMiddlewareWithOptions etext send oas auth nxt r =
     (case ValidateRequestFromContext etext oas auth r of
        (Some he, _) \<Rightarrow> errorHandler send he
      | (None, r') \<Rightarrow> nxt r')"

definition OapiValidatorMiddleware :: "(go_error \<Rightarrow> string) \<Rightarrow> (int \<Rightarrow> string \<Rightarrow> err) \<Rightarrow> api \<Rightarrow> 'e middleware" where
  "OapiValidatorMiddleware etext send oas = OapiValidatorMiddlewareWithOptions etext send oas None"

definition CreateDefaultAPIMiddleware ::
  "(go_error \<Rightarrow> string) \<Rightarrow> (int \<Rightarrow> string \<Rightarrow> err) \<Rightarrow> (string \<Rightarrow> 'e server_event list) \<Rightarrow> api \<Rightarrow> AuthFunc \<Rightarrow> 'e middleware list" where
  "CreateDefaultAPIMiddleware etext send on_error oas auth =
     [OapiValidatorMiddlewareWithOptions etext send oas auth, Recover on_error]"

definition header_Get :: "server_request \<Rightarrow> string \<Rightarrow> string" where
  "header_Get r k = (case map_of (sr_header r) k of None \<Rightarrow> '''' | Some v \<Rightarrow> v)"

definition extractBearerToken :: "server_request \<Rightarrow> string" where
  "extractBearerToken r =
     (let authHeader = header_Get r ''Authorization'' in
      if authHeader = '''' then ''''
      else if \<not> HasPrefix authHeader ''Bearer '' then ''''
      else drop (length ''Bearer '') authHeader)"

definition BearerAuth :: "(string \<Rightarrow> err) \<Rightarrow> server_request \<Rightarrow> err" where
  "BearerAuth validate r =
     (let token = extractBearerToken r in
      if token = '''' then Some (HTTPError 401 ''missing token'')
      else (case validate token of
         Some e \<Rightarrow> Some (HTTPError 401 ''invalid token'')
       | None \<Rightarrow> None))"

section \<open>The server\<close>

record echo_Config =
  ec_ListenAddress :: string
  ec_OASPath :: string
  ec_SwaggerUIPath :: string

abbreviation "ErrListenAddressRequired \<equiv> ErrNew ''commonecho.ErrListenAddressRequired''"
abbreviation "http_ErrServerClosed \<equiv> ErrNew ''http.ErrServerClosed''"

definition echo_validate :: "echo_Config \<Rightarrow> err" where
  "echo_validate c = (if ec_ListenAddress c = '''' then Some (wrapped ErrListenAddressRequired ''listen address is required'') else None)"

text \<open>\<open>parse\<close> is the environment parser, which gets the default of the listen address.\<close>

definition echo_parseConfig :: "((string \<times> string) list \<Rightarrow> echo_Config res) \<Rightarrow> echo_Config res" where
  "echo_parseConfig parse = (case parse [(''HTTP_ECHO_LISTENADDRESS'', ''0.0.0.0:8080'')] of
     Inl e \<Rightarrow> Inl (wrapped e ''could not parse config'')
   | Inr cfg \<Rightarrow> Inr cfg)"

text \<open>The standard function \<open>path.Join\<close>: elements are joined by slashes and the result is cleaned.\<close>

fun split_slash :: "string \<Rightarrow> string list" where
  "split_slash [] = [[]]"
| "split_slash (c # s) = (if c = CHR ''/'' then [] # split_slash s
     else (case split_slash s of x # xs \<Rightarrow> (c # x) # xs | [] \<Rightarrow> [[c]]))"

fun clean_elems :: "bool \<Rightarrow> string list \<Rightarrow> string list \<Rightarrow> string list" where
  "clean_elems rooted out [] = rev out"
| "clean_elems rooted out (x # xs) =
     (if x = '''' \<or> x = ''.'' then clean_elems rooted out xs
      else if x = ''..'' then
        (case out of
           y # ys \<Rightarrow> if y = ''..'' then clean_elems rooted (x # out) xs else clean_elems rooted ys xs
         | [] \<Rightarrow> if rooted then clean_elems rooted [] xs else clean_elems rooted [x] xs)
      else clean_elems rooted (x # out) xs)"

definition path_Clean :: "string \<Rightarrow> string" where
  "path_Clean p =
     (let rooted = HasPrefix p ''/''; s = (if rooted then ''/'' else '''') @ join_strings ''/'' (clean_elems rooted [] (split_slash p))
      in if s = '''' then ''.'' else s)"

definition path_Join :: "string list \<Rightarrow> string" where
  "path_Join es = (case filter (\<lambda>e. e \<noteq> '''') es of [] \<Rightarrow> '''' | xs \<Rightarrow> path_Clean (join_strings ''/'' xs))"

datatype route_handler = ServeSpec string | SwaggerUI string | NotFoundHandler

text \<open>
  The routes of the group (group.go and router.go of the vendored echo). A route has a method and a path, and keeps the
  middlewares the group had when it was added; adding it again replaces it. Use also adds routes that match what no other
  route does, so that the middlewares see such requests too.
\<close>

record 'e Echo =
  eo_config :: echo_Config
  eo_root :: string
  eo_routes :: "(string \<times> string, route_handler \<times> 'e middleware list) gomap"
  eo_middleware :: "'e middleware list"

definition RouteNotFound :: string where
  "RouteNotFound = ''echo_route_not_found''"

definition normalizePathSlash :: "string \<Rightarrow> string" where
  "normalizePathSlash p = (if p = '''' then ''/'' else if hd p \<noteq> CHR ''/'' then CHR ''/'' # p else p)"

definition group_Add :: "string \<Rightarrow> string \<Rightarrow> route_handler \<Rightarrow> 'e Echo \<Rightarrow> 'e Echo" where
  "group_Add meth path h e = e\<lparr>eo_routes := map_put (meth, normalizePathSlash (eo_root e @ path)) (h, eo_middleware e) (eo_routes e)\<rparr>"

definition group_Use :: "'e middleware list \<Rightarrow> 'e Echo \<Rightarrow> 'e Echo" where
  "group_Use ms e =
     (let e' = e\<lparr>eo_middleware := eo_middleware e @ ms\<rparr> in
      if eo_middleware e' = [] then e'
      else group_Add RouteNotFound ''/*'' NotFoundHandler (group_Add RouteNotFound '''' NotFoundHandler e'))"

definition echo_Group :: "echo_Config \<Rightarrow> string \<Rightarrow> 'e Echo" where
  "echo_Group cfg prefix = group_Use [] \<lparr>eo_config = cfg, eo_root = prefix, eo_routes = [], eo_middleware = []\<rparr>"

definition echo_NewWithConfig :: "echo_Config \<Rightarrow> string \<Rightarrow> string \<Rightarrow> 'e middleware list \<Rightarrow> 'e Echo res" where
  "echo_NewWithConfig cfg rootPath swaggerYAML middlewares =
     (case echo_validate cfg of
        Some e \<Rightarrow> Inl (wrapped e ''could not validate config'')
      | None \<Rightarrow>
          let e0 = echo_Group cfg rootPath;
              e1 = (if ec_OASPath cfg \<noteq> '''' \<and> swaggerYAML \<noteq> '''' then group_Add ''GET'' (ec_OASPath cfg) (ServeSpec swaggerYAML) e0 else e0);
              e2 = (if ec_SwaggerUIPath cfg \<noteq> '''' \<and> ec_OASPath cfg \<noteq> ''''
                    then group_Add ''GET'' (ec_SwaggerUIPath cfg) (SwaggerUI (path_Join [rootPath, ec_OASPath cfg])) e1 else e1)
          in Inr (foldl (\<lambda>e m. group_Use [m] e) e2 middlewares))"

definition echo_New ::
  "((string \<times> string) list \<Rightarrow> echo_Config res) \<Rightarrow> string \<Rightarrow> string \<Rightarrow> 'e middleware list \<Rightarrow> 'e Echo res" where
  "echo_New parse rootPath swaggerYAML middlewares =
     (case echo_parseConfig parse of
        Inl e \<Rightarrow> Inl (wrapped e ''could not parse config'')
      | Inr cfg \<Rightarrow> echo_NewWithConfig cfg rootPath swaggerYAML middlewares)"

text \<open>
  Start waits for the first of two events: the context ends, and then the framework's shutdown gives an
  error or nil; or the listener goroutine reports an error.
\<close>

datatype start_event = ContextEnded err | ListenerFailed go_error

definition echo_Start :: "start_event \<Rightarrow> err" where
  "echo_Start ev =
     (case ev of
        ContextEnded shutdownErr \<Rightarrow> Wrap shutdownErr ''echo server shutdown error''
      | ListenerFailed e \<Rightarrow> if errors_Is e http_ErrServerClosed then None else Some (wrapped e ''echo server error''))"

section \<open>The routes\<close>

text \<open>
  The middlewares guard every path of the group except those of the API document and its page: these two routes are added
  first and keep an empty list. A request that matches no route passes all the middlewares before it is refused.
\<close>

lemma group_Use_middleware [simp]: "eo_middleware (group_Use ms e) = eo_middleware e @ ms"
  by (simp add: group_Use_def Let_def group_Add_def)

lemma group_Use_root [simp]: "eo_root (group_Use ms e) = eo_root e"
  by (simp add: group_Use_def Let_def group_Add_def)

lemma group_Use_GET: "map_of (eo_routes (group_Use ms e)) (''GET'', p) = map_of (eo_routes e) (''GET'', p)"
  by (simp add: group_Use_def Let_def group_Add_def map_of_map_put RouteNotFound_def)

lemma group_Use_not_found:
  "ms \<noteq> [] \<Longrightarrow> map_of (eo_routes (group_Use ms e)) (RouteNotFound, normalizePathSlash (eo_root e @ ''/*'')) = Some (NotFoundHandler, eo_middleware e @ ms)"
  by (simp add: group_Use_def Let_def group_Add_def map_of_map_put)

lemma use_all:
  "eo_middleware (foldl (\<lambda>e m. group_Use [m] e) e ms) = eo_middleware e @ ms
   \<and> map_of (eo_routes (foldl (\<lambda>e m. group_Use [m] e) e ms)) (''GET'', p) = map_of (eo_routes e) (''GET'', p)
   \<and> (ms \<noteq> [] \<longrightarrow> map_of (eo_routes (foldl (\<lambda>e m. group_Use [m] e) e ms)) (RouteNotFound, normalizePathSlash (eo_root e @ ''/*'')) = Some (NotFoundHandler, eo_middleware e @ ms))"
proof (induction ms arbitrary: e)
  case (Cons m ms)
  show ?case using Cons.IH [of "group_Use [m] e"] group_Use_not_found [of "[m]" e] by (cases ms) (simp_all add: group_Use_GET)
qed simp

lemma documentation_unguarded:
  assumes "echo_NewWithConfig cfg root yaml ms = Inr e"
  shows "map_of (eo_routes e) (''GET'', p) = Some (h, guards) \<Longrightarrow> guards = []"
    and "ms \<noteq> [] \<Longrightarrow> map_of (eo_routes e) (RouteNotFound, normalizePathSlash (root @ ''/*'')) = Some (NotFoundHandler, ms)"
proof -
  let ?e0 = "echo_Group cfg root"
  let ?e1 = "if ec_OASPath cfg \<noteq> '''' \<and> yaml \<noteq> '''' then group_Add ''GET'' (ec_OASPath cfg) (ServeSpec yaml) ?e0 else ?e0"
  let ?e2 = "if ec_SwaggerUIPath cfg \<noteq> '''' \<and> ec_OASPath cfg \<noteq> ''''
    then group_Add ''GET'' (ec_SwaggerUIPath cfg) (SwaggerUI (path_Join [root, ec_OASPath cfg])) ?e1 else ?e1"
  have e: "e = foldl (\<lambda>e m. group_Use [m] e) ?e2 ms"
    using assms unfolding echo_NewWithConfig_def Let_def
    by (cases "echo_validate cfg") (auto simp only: option.case sum.inject sum.distinct)
  have "eo_middleware ?e2 = []" "eo_root ?e2 = root"
    and "\<And>g. map_of (eo_routes ?e2) (''GET'', p) = Some (h, g) \<Longrightarrow> g = []"
    by (auto simp: echo_Group_def group_Add_def group_Use_def Let_def map_of_map_put split: if_splits)
  with e obtain e2 where e2: "e = foldl (\<lambda>e m. group_Use [m] e) e2 ms" "eo_middleware e2 = []" "eo_root e2 = root"
    and routes: "\<And>g. map_of (eo_routes e2) (''GET'', p) = Some (h, g) \<Longrightarrow> g = []" by blast
  show "guards = []" if "map_of (eo_routes e) (''GET'', p) = Some (h, guards)"
    using that use_all [of e2 ms p] routes e2(1) by simp
  show "map_of (eo_routes e) (RouteNotFound, normalizePathSlash (root @ ''/*'')) = Some (NotFoundHandler, ms)" if "ms \<noteq> []"
    using that use_all [of e2 ms] e2 by simp
qed

section \<open>Who reaches a handler\<close>

definition served ::
  "(go_error \<Rightarrow> string) \<Rightarrow> (int \<Rightarrow> string \<Rightarrow> err) \<Rightarrow> (string \<Rightarrow> 'e server_event list) \<Rightarrow> api \<Rightarrow> AuthFunc \<Rightarrow> 'e handler \<Rightarrow> 'e handler" where
  "served etext send on_error oas auth h = applyMiddleware h (CreateDefaultAPIMiddleware etext send on_error oas auth)"

lemma served_eq:
  "served etext send on_error oas auth h r =
     (case ValidateRequestFromContext etext oas auth r of
        (Some he, _) \<Rightarrow> errorHandler send he
      | (None, r') \<Rightarrow> Recover on_error h r')"
  by (simp add: served_def applyMiddleware_def CreateDefaultAPIMiddleware_def OapiValidatorMiddlewareWithOptions_def)

text \<open>The request carries a token the validator accepts.\<close>

definition has_valid_token :: "(string \<Rightarrow> err) \<Rightarrow> server_request \<Rightarrow> bool" where
  "has_valid_token validate r \<longleftrightarrow> (\<exists>t. t \<noteq> '''' \<and> map_of (sr_header r) ''Authorization'' = Some (''Bearer '' @ t) \<and> validate t = None)"

lemma HasPrefix_self_append [simp]: "HasPrefix (p @ t) p"
  by (auto simp: HasPrefix_iff)

lemma BearerAuth_iff: "BearerAuth validate r = None \<longleftrightarrow> has_valid_token validate r"
proof (cases "map_of (sr_header r) ''Authorization''")
  case None
  then show ?thesis by (simp add: BearerAuth_def extractBearerToken_def header_Get_def has_valid_token_def)
next
  case (Some v)
  show ?thesis
  proof (cases "HasPrefix v ''Bearer ''")
    case True
    then obtain t where "v = ''Bearer '' @ t" by (auto simp only: HasPrefix_iff)
    then show ?thesis using Some
      by (auto simp: BearerAuth_def extractBearerToken_def header_Get_def has_valid_token_def split: option.split)
  next
    case False
    then have "\<forall>t. v \<noteq> ''Bearer '' @ t" by (auto simp only: HasPrefix_iff)
    then show ?thesis using Some False
      by (simp add: BearerAuth_def extractBearerToken_def header_Get_def has_valid_token_def)
  qed
qed

lemma BearerAuth_401: "BearerAuth validate r = Some e \<Longrightarrow> \<exists>msg. e = HTTPError 401 msg"
  by (auto simp: BearerAuth_def Let_def split: if_splits option.splits)

text \<open>Every requirement asks for a scheme, and only for declared ones.\<close>

definition secured :: "route \<Rightarrow> bool" where
  "secured rt \<longleftrightarrow> security_of rt \<noteq> [] \<and> (\<forall>sr\<in>set (security_of rt). sr \<noteq> [] \<and> set sr \<subseteq> set (rt_schemes rt))"

text \<open>
  A request as it comes from the connection, whether its body could not be read to its end, and what it becomes once its
  body has been read into memory.
\<close>

definition arrives :: "server_request \<Rightarrow> bool" where
  "arrives r \<longleftrightarrow> sr_GetBody r = None \<and> (case sr_body r of NoBody \<Rightarrow> True | Incoming _ _ \<Rightarrow> True | _ \<Rightarrow> False)"

definition unreadable :: "server_request \<Rightarrow> bool" where
  "unreadable r \<longleftrightarrow> (case sr_body r of Incoming _ (Some _) \<Rightarrow> True | _ \<Rightarrow> False)"

definition in_memory :: "server_request \<Rightarrow> server_request" where
  "in_memory r = (case sr_body r of
     Incoming data None \<Rightarrow> r\<lparr>sr_body := Restored data, sr_GetBody := Some data, sr_ContentLength := int (length data)\<rparr>
   | _ \<Rightarrow> r)"

lemma put_back_header [simp]: "sr_header (put_back data r) = sr_header r"
  by (simp add: put_back_def split: option.split)

lemma put_back_twice [simp]: "put_back data (put_back data r) = put_back data r"
  by (simp add: put_back_def split: option.split)

lemma in_memory_header [simp]: "sr_header (in_memory r) = sr_header r"
  by (simp add: in_memory_def split: server_body.split option.split)

lemma BearerAuth_header: "sr_header r = sr_header r' \<Longrightarrow> BearerAuth validate r = BearerAuth validate r'"
  by (simp add: BearerAuth_def extractBearerToken_def header_Get_def)

text \<open>An authentication function that looks at the header only.\<close>

definition by_header :: "(server_request \<Rightarrow> err) \<Rightarrow> server_request \<Rightarrow> err \<times> server_request" where
  "by_header f r = (f r, r)"

lemma check_schemes_declared:
  assumes "names \<noteq> []" "set names \<subseteq> set declared"
  shows "check_schemes (by_header (BearerAuth validate)) declared data r names = (BearerAuth validate r, put_back data r)"
  using assms
proof (induction names arbitrary: r)
  case (Cons n names)
  have f: "BearerAuth validate (put_back data r) = BearerAuth validate r" by (rule BearerAuth_header) simp
  then show ?case using Cons by (cases "names = []"; cases "BearerAuth validate r") (auto simp: by_header_def)
qed simp

lemma requirement_readable:
  assumes "names \<noteq> []" "set names \<subseteq> set declared" "arrives r" "\<not> unreadable r" "r' = r \<or> r' = in_memory r"
  shows "validateSecurityRequirement (Some (by_header (BearerAuth validate))) declared r' names = (BearerAuth validate r, in_memory r)"
proof (cases "sr_body r = NoBody")
  case True
  then have "r' = r" "in_memory r = r" using assms(5) by (auto simp: in_memory_def)
  then show ?thesis
    using True check_schemes_declared [OF assms(1,2), of validate None r] by (simp add: validateSecurityRequirement_def put_back_def)
next
  case False
  then obtain d where d: "sr_body r = Incoming d None" "sr_GetBody r = None"
    using assms(3,4) by (auto simp: arrives_def unreadable_def split: server_body.splits option.splits)
  let ?r = "r'\<lparr>sr_body := read_and_closed (sr_body r')\<rparr>"
  have "sr_body r' \<noteq> NoBody" "body_ReadAll (sr_body r') = Inr d" "put_back (Some d) ?r = in_memory r" "sr_header ?r = sr_header r"
    using assms(5) d by (auto simp: in_memory_def put_back_def)
  then show ?thesis
    using check_schemes_declared [OF assms(1,2), of validate "Some d" ?r] BearerAuth_header [of ?r r validate]
    by (simp add: validateSecurityRequirement_def Let_def)
qed

lemma requirements_readable:
  assumes "\<forall>sr\<in>set srs. sr \<noteq> [] \<and> set sr \<subseteq> set declared" "srs \<noteq> []" "arrives r" "\<not> unreadable r" "r' = r \<or> r' = in_memory r"
  shows "requirement_errors (Some (by_header (BearerAuth validate))) declared r' srs errs =
    (case BearerAuth validate r of None \<Rightarrow> None | Some e \<Rightarrow> Some (errs @ replicate (length srs) e), in_memory r)"
  using assms
proof (induction srs arbitrary: errs r')
  case (Cons sr srs)
  then show ?case
    using requirement_readable [of sr declared r r' validate]
    by (cases "srs = []"; cases "BearerAuth validate r") simp_all
qed simp

text \<open>A body that cannot be read fails every requirement, and no error of these carries a status.\<close>

lemma requirements_unreadable:
  assumes "unreadable r \<or> sr_body r = ClosedBody" "first_http_error errs = None"
  shows "\<exists>es r'. requirement_errors (Some f) declared r srs errs = (Some es, r') \<and> first_http_error es = None"
  using assms
proof (induction srs arbitrary: r errs)
  case (Cons sr srs)
  obtain e where "validateSecurityRequirement (Some f) declared r sr = (Some (WrapError ''reading failed: '' e), r\<lparr>sr_body := ClosedBody\<rparr>)"
    using Cons.prems(1) by (auto simp: validateSecurityRequirement_def unreadable_def Let_def split: server_body.splits option.splits)
  moreover have "first_http_error (errs @ [WrapError ''reading failed: '' e]) = None"
    using Cons.prems(2) by (induction errs rule: first_http_error.induct) simp_all
  ultimately show ?case using Cons.IH [of "r\<lparr>sr_body := ClosedBody\<rparr>"] by simp
qed simp

text \<open>The response the middleware answers a refused request with.\<close>

definition refusal :: "(int \<Rightarrow> string \<Rightarrow> err) \<Rightarrow> int \<Rightarrow> string \<Rightarrow> 'e outcome" where
  "refusal send code name =
     (let body = Marshal (JObj [(''error'', JStr name)]) in
      case send code body of
        Some e \<Rightarrow> ([], Returned (Some (wrapped e ''failed to send error response'')))
      | None \<Rightarrow> ([Responded code body], Returned None))"

lemma errorHandler_refusal: "errorHandler send (401, msg) = refusal send 401 ''UNAUTHORIZED''" "errorHandler send (403, msg) = refusal send 403 ''FORBIDDEN''"
proof -
  have "ErrCodeFromHTTPStatus 401 = ''UNAUTHORIZED''" "ErrCodeFromHTTPStatus 403 = ''FORBIDDEN''"
    by (simp_all add: ErrCodeFromHTTPStatus_def status_codes_def)
  then show "errorHandler send (401, msg) = refusal send 401 ''UNAUTHORIZED''" "errorHandler send (403, msg) = refusal send 403 ''FORBIDDEN''"
    by (simp_all only: errorHandler_def refusal_def ErrorResponse_json_def prod.case)
qed


text \<open>An interface with one operation, which asks for the scheme named bearer.\<close>

definition demo_route :: route where
  "demo_route = \<lparr>rt_security = None, rt_global_security = [[''bearer'']], rt_schemes = [''bearer'']\<rparr>"

definition demo_api :: api where
  "demo_api = \<lparr>FindRoute = (\<lambda>r. Inr demo_route), validate_rest = (\<lambda>rt r. (None, r))\<rparr>"

definition demo_request :: "string \<Rightarrow> server_body \<Rightarrow> server_request" where
  "demo_request auth body = \<lparr>sr_method = ''POST'', sr_url = ''/'', sr_header = [(''Authorization'', auth)], sr_body = body,
     sr_GetBody = None, sr_ContentLength = 2\<rparr>"

definition demo_validate :: "string \<Rightarrow> err" where
  "demo_validate t = (if t = ''secret'' then None else Some (Foreign ''unknown token''))"

text \<open>A handler that tells the body it sees.\<close>

definition demo_endpoint :: "server_body handler" where
  "demo_endpoint r = ([Did (sr_body r)], Returned None)"

abbreviation "demo_served \<equiv> served (\<lambda>_. '''') (\<lambda>_ _. None) (\<lambda>_. []) demo_api (Some (by_header (BearerAuth demo_validate))) demo_endpoint"

lemma demo_tokens: "has_valid_token demo_validate (demo_request ''Bearer secret'' b)" "\<not> has_valid_token demo_validate (demo_request ''Basic secret'' b)"
  by (auto simp: has_valid_token_def demo_validate_def demo_request_def)

lemma demo_secured: "FindRoute demo_api r = Inr demo_route" "secured demo_route"
  by (simp_all add: demo_api_def demo_route_def secured_def security_of_def)

lemma demo_arrives: "arrives (demo_request auth (Incoming d e))"
  by (simp add: arrives_def demo_request_def)


text \<open>
  Without an authentication function the operations with security requirements are not open
  but closed: every request to one is answered with status 403.
\<close>

theorem no_auth_forbids:
  assumes "FindRoute oas r = Inr rt" "security_of rt \<noteq> []"
  shows "served etext send on_error oas None h r = refusal send 403 ''FORBIDDEN''"
proof -
  have "requirement_errors None d r srs errs = (Some (errs @ replicate (length srs) ErrAuthenticationServiceMissing), r)" for d srs errs
    by (induction srs arbitrary: errs) (simp_all add: validateSecurityRequirement_def)
  moreover have "first_http_error (replicate n ErrAuthenticationServiceMissing) = None" for n by (induction n) simp_all
  ultimately show ?thesis
    using assms by (simp add: served_eq ValidateRequestFromContext_def ValidateSecurityRequirements_def errorHandler_refusal)
qed

theorem no_auth_forbids_witness:
  "served (\<lambda>_. '''') (\<lambda>_ _. None) (\<lambda>_. []) demo_api None demo_endpoint (demo_request ''Bearer secret'' NoBody)
     = refusal (\<lambda>_ _. None) 403 ''FORBIDDEN''"
  using no_auth_forbids [of demo_api "demo_request ''Bearer secret'' NoBody" demo_route] demo_secured by (simp add: secured_def)

end
