(* ===== verification/SmallServices.thy ===== *)
theory SmallServices
  imports EchoHttp
begin

text \<open>
  Small packages around the services: the heartbeat file (src/heartbeat), the translation of SQLite errors for gorm
  (src/db/sqlite/gorm) and the base model (src/db/models). The filesystem and the generator of identifiers are
  parameters.
\<close>

section \<open>Heartbeat\<close>

definition heartbeat_path :: "string \<Rightarrow> string" where
  "heartbeat_path name = path_Join [''/tmp/heartbeat'', name]"

text \<open>Files with their modification times; \<open>create\<close> is the fate of creating a path at a time.\<close>

type_synonym mtimes = "string \<Rightarrow> int option"

definition touch :: "(int \<Rightarrow> string \<Rightarrow> err) \<Rightarrow> int \<Rightarrow> string \<Rightarrow> mtimes \<Rightarrow> mtimes" where
  "touch create now path fs = (case create now path of Some e \<Rightarrow> fs | None \<Rightarrow> fs(path := Some now))"

text \<open>The loop up to the end of the context: the times of the ticks it receives.\<close>

fun heartbeat_loop :: "(int \<Rightarrow> string \<Rightarrow> err) \<Rightarrow> string \<Rightarrow> int list \<Rightarrow> mtimes \<Rightarrow> mtimes" where
  "heartbeat_loop create path [] fs = fs"
| "heartbeat_loop create path (t # ticks) fs = heartbeat_loop create path ticks (touch create t path fs)"

definition heartbeat_Start :: "err \<Rightarrow> (int \<Rightarrow> string \<Rightarrow> err) \<Rightarrow> string \<Rightarrow> int \<Rightarrow> int list \<Rightarrow> mtimes \<Rightarrow> mtimes" where
  "heartbeat_Start mkdir create name now ticks fs =
     (case mkdir of
        Some e \<Rightarrow> fs
      | None \<Rightarrow> let path = heartbeat_path name in heartbeat_loop create path ticks (touch create now path fs))"

definition SeenWithin :: "int \<Rightarrow> mtimes \<Rightarrow> string \<Rightarrow> int \<Rightarrow> bool" where
  "SeenWithin now fs name d = (case fs (heartbeat_path name) of None \<Rightarrow> False | Some t \<Rightarrow> now - t \<le> d)"

lemma heartbeat_loop_last:
  "(\<And>t. create t path = None) \<Longrightarrow> heartbeat_loop create path ticks fs = (if ticks = [] then fs else fs(path := Some (last ticks)))"
  by (induction ticks arbitrary: fs) (auto simp: touch_def)

text \<open>A service whose files can be written is seen for the given duration after its last tick, and not later.\<close>

lemma heartbeat_seen:
  "(\<And>t p. create t p = None) \<Longrightarrow>
     SeenWithin now (heartbeat_Start None create name t0 ticks fs) name d \<longleftrightarrow> now - last (t0 # ticks) \<le> d"
  by (simp add: heartbeat_Start_def Let_def heartbeat_loop_last SeenWithin_def touch_def)

section \<open>SQLite errors for gorm\<close>

abbreviation "gorm_ErrDuplicatedKey \<equiv> ErrNew ''gorm.ErrDuplicatedKey''"
abbreviation "gorm_ErrForeignKeyViolated \<equiv> ErrNew ''gorm.ErrForeignKeyViolated''"

text \<open>The code of the first native error in the chain.\<close>

fun native_code :: "go_error \<Rightarrow> int option" where
  "native_code (TypedError t n) = (if t = ''sqlite.Error'' then Some n else None)"
| "native_code (CTXError (Some e) m) = native_code e"
| "native_code (WrapError m e) = native_code e"
| "native_code (JoinError es) = (case somes (map native_code es) of [] \<Rightarrow> None | n # _ \<Rightarrow> Some n)"
| "native_code _ = None"

definition Translate :: "go_error \<Rightarrow> go_error" where
  "Translate e = (case native_code e of
     None \<Rightarrow> e
   | Some n \<Rightarrow> if n = 1555 \<or> n = 2067 then gorm_ErrDuplicatedKey
       else if n = 787 then gorm_ErrForeignKeyViolated
       else e)"

record gorm_Dialector =
  gd_DriverName :: string
  gd_DSN :: string

definition gorm_Open :: "string \<Rightarrow> gorm_Dialector" where
  "gorm_Open dsn = \<lparr>gd_DriverName = ''sqlite'', gd_DSN = dsn\<rparr>"

section \<open>The base model\<close>

text \<open>An identifier is 16 bytes; the nil identifier has only zeros.\<close>

record Base =
  base_ID :: "nat list"

definition uuid_Nil :: "nat list" where
  "uuid_Nil = replicate 16 0"

definition BeforeCreate :: "nat list \<Rightarrow> Base \<Rightarrow> err \<times> Base" where
  "BeforeCreate fresh b = (None, if base_ID b = uuid_Nil then b\<lparr>base_ID := fresh\<rparr> else b)"

end
