(* ===== verification/RWMutex.thy ===== *)
theory RWMutex
  imports Prelude
begin

text \<open>
  Objects behind a read-write lock of the standard package sync, used by any number of goroutines: a method takes
  the lock for reading or for writing, runs its body in small steps on the shared state, and releases the
  lock when it returns. An object is the contract locked_object; under it every interleaving of
  the steps is as good as a sequence of whole calls, no two bodies meet when one of them
  writes, and calls that have begun all return.
\<close>

section \<open>Objects and their use\<close>

text \<open>
  The methods of an object: whether a call takes the lock for writing, the local state its body starts
  in, a step of the body on the shared and the local state, and the result of a body that has ended.
  Calls are made with admissible arguments.
\<close>

record ('op, 's, 'l, 'r) object =
  admissible :: "'op \<Rightarrow> bool"
  writes :: "'op \<Rightarrow> bool"
  start_of :: "'op \<Rightarrow> 'l"
  micro :: "'op \<Rightarrow> 's \<Rightarrow> 'l \<Rightarrow> 's \<times> 'l"
  final :: "'op \<Rightarrow> 'l \<Rightarrow> 'r option"

text \<open>
  \<open>RWMutex.Lock\<close> first keeps out other writers and announces itself, which keeps out new readers, and then
  waits for the readers to leave.
\<close>

datatype ('op, 'l) phase = Idle | Want 'op | Announced 'op | Running 'op 'l

record ('op, 's, 'l, 'r) rw_state =
  shared :: 's
  holder :: "nat option"
  active :: bool
  readers :: "nat set"
  phase :: "nat \<Rightarrow> ('op, 'l) phase"
  history :: "('op \<times> 'r) list"

definition rw_init :: "'s \<Rightarrow> ('op, 's, 'l, 'r) rw_state" where
  "rw_init s = \<lparr>shared = s, holder = None, active = False, readers = {}, phase = (\<lambda>_. Idle), history = []\<rparr>"

datatype rw_event = Begins nat | Works nat

inductive rw_step ::
  "('op, 's, 'l, 'r) object \<Rightarrow> ('op, 's, 'l, 'r) rw_state \<Rightarrow> rw_event \<Rightarrow> ('op, 's, 'l, 'r) rw_state \<Rightarrow> bool"
  for obj where
  Call: "phase c t = Idle \<Longrightarrow> admissible obj op \<Longrightarrow> rw_step obj c (Begins t) (c\<lparr>phase := (phase c)(t := Want op)\<rparr>)"
| RLock: "phase c t = Want op \<Longrightarrow> \<not> writes obj op \<Longrightarrow> holder c = None \<Longrightarrow>
    rw_step obj c (Works t) (c\<lparr>readers := insert t (readers c), phase := (phase c)(t := Running op (start_of obj op))\<rparr>)"
| Announce: "phase c t = Want op \<Longrightarrow> writes obj op \<Longrightarrow> holder c = None \<Longrightarrow>
    rw_step obj c (Works t) (c\<lparr>holder := Some t, phase := (phase c)(t := Announced op)\<rparr>)"
| Lock: "phase c t = Announced op \<Longrightarrow> readers c = {} \<Longrightarrow>
    rw_step obj c (Works t) (c\<lparr>active := True, phase := (phase c)(t := Running op (start_of obj op))\<rparr>)"
| Body: "phase c t = Running op l \<Longrightarrow> final obj op l = None \<Longrightarrow> micro obj op (shared c) l = (s, l') \<Longrightarrow>
    rw_step obj c (Works t) (c\<lparr>shared := s, phase := (phase c)(t := Running op l')\<rparr>)"
| RUnlock: "phase c t = Running op l \<Longrightarrow> \<not> writes obj op \<Longrightarrow> final obj op l = Some r \<Longrightarrow>
    rw_step obj c (Works t) (c\<lparr>readers := readers c - {t}, phase := (phase c)(t := Idle), history := history c @ [(op, r)]\<rparr>)"
| Unlock: "phase c t = Running op l \<Longrightarrow> writes obj op \<Longrightarrow> final obj op l = Some r \<Longrightarrow>
    rw_step obj c (Works t) (c\<lparr>holder := None, active := False, phase := (phase c)(t := Idle), history := history c @ [(op, r)]\<rparr>)"

definition rw_reachable :: "('op, 's, 'l, 'r) object \<Rightarrow> 's \<Rightarrow> ('op, 's, 'l, 'r) rw_state \<Rightarrow> bool" where
  "rw_reachable obj s c \<longleftrightarrow> (\<lambda>c c'. \<exists>ev. rw_step obj c ev c')\<^sup>*\<^sup>* (rw_init s) c"

lemma reachable_init [intro]: "rw_reachable obj s (rw_init s)"
  by (simp add: rw_reachable_def)

lemma reachable_step: "rw_reachable obj s c \<Longrightarrow> rw_step obj c ev c' \<Longrightarrow> rw_reachable obj s c'"
  unfolding rw_reachable_def by (rule rtranclp.rtrancl_into_rtrancl) blast+

text \<open>The step a goroutine can take, computed; and a schedule of calls and steps.\<close>

definition rw_work :: "('op, 's, 'l, 'r) object \<Rightarrow> nat \<Rightarrow> ('op, 's, 'l, 'r) rw_state \<Rightarrow> ('op, 's, 'l, 'r) rw_state option" where
  "rw_work obj t c = (case phase c t of
     Idle \<Rightarrow> None
   | Want op \<Rightarrow>
       if holder c \<noteq> None then None
       else if writes obj op then Some (c\<lparr>holder := Some t, phase := (phase c)(t := Announced op)\<rparr>)
       else Some (c\<lparr>readers := insert t (readers c), phase := (phase c)(t := Running op (start_of obj op))\<rparr>)
   | Announced op \<Rightarrow>
       if readers c = {} then Some (c\<lparr>active := True, phase := (phase c)(t := Running op (start_of obj op))\<rparr>) else None
   | Running op l \<Rightarrow>
       (case final obj op l of
          None \<Rightarrow> (case micro obj op (shared c) l of (s, l') \<Rightarrow> Some (c\<lparr>shared := s, phase := (phase c)(t := Running op l')\<rparr>))
        | Some r \<Rightarrow>
            if writes obj op then
              Some (c\<lparr>holder := None, active := False, phase := (phase c)(t := Idle), history := history c @ [(op, r)]\<rparr>)
            else Some (c\<lparr>readers := readers c - {t}, phase := (phase c)(t := Idle), history := history c @ [(op, r)]\<rparr>)))"

lemma rw_work_iff: "rw_work obj t c = Some c' \<longleftrightarrow> rw_step obj c (Works t) c'"
proof
  assume "rw_work obj t c = Some c'"
  then show "rw_step obj c (Works t) c'"
    by (cases "phase c t") (auto simp: rw_work_def intro: rw_step.intros split: if_splits option.splits prod.splits)
next
  assume "rw_step obj c (Works t) c'"
  then show "rw_work obj t c = Some c'" by cases (simp_all add: rw_work_def)
qed

fun rw_schedule ::
  "('op, 's, 'l, 'r) object \<Rightarrow> (nat \<times> 'op + nat) list \<Rightarrow> ('op, 's, 'l, 'r) rw_state \<Rightarrow> ('op, 's, 'l, 'r) rw_state option" where
  "rw_schedule obj [] c = Some c"
| "rw_schedule obj (Inl (t, op) # es) c =
     (if phase c t = Idle \<and> admissible obj op then rw_schedule obj es (c\<lparr>phase := (phase c)(t := Want op)\<rparr>) else None)"
| "rw_schedule obj (Inr t # es) c = (case rw_work obj t c of None \<Rightarrow> None | Some c' \<Rightarrow> rw_schedule obj es c')"

lemma rw_schedule_reachable: "rw_schedule obj es c = Some c' \<Longrightarrow> rw_reachable obj s c \<Longrightarrow> rw_reachable obj s c'"
proof (induction obj es c rule: rw_schedule.induct)
  case (2 obj t op es c)
  then show ?case using Call [of c t obj op] reachable_step [of obj s c] by (auto split: if_splits)
next
  case (3 obj t es c)
  then show ?case using reachable_step [of obj s c] by (auto simp: rw_work_iff split: option.splits)
qed simp

text \<open>What a body has reached when it runs alone.\<close>

inductive in_body :: "('op, 's, 'l, 'r) object \<Rightarrow> 'op \<Rightarrow> 's \<Rightarrow> 's \<Rightarrow> 'l \<Rightarrow> bool"
  for obj op s where
  body_entry: "in_body obj op s s (start_of obj op)"
| body_step: "in_body obj op s s' l \<Longrightarrow> final obj op l = None \<Longrightarrow> micro obj op s' l = (s'', l') \<Longrightarrow> in_body obj op s s'' l'"

text \<open>A history of whole calls, replayed: the final state, if every call gives the result it gave.\<close>

fun replay :: "('op \<Rightarrow> 's \<Rightarrow> 's \<times> 'r) \<Rightarrow> 's \<Rightarrow> ('op \<times> 'r) list \<Rightarrow> 's option" where
  "replay spec s [] = Some s"
| "replay spec s ((op, r) # h) = (case spec op s of (s', r') \<Rightarrow> if r' = r then replay spec s' h else None)"

lemma replay_append: "replay spec s (h @ h') = (case replay spec s h of None \<Rightarrow> None | Some s' \<Rightarrow> replay spec s' h')"
  by (induction spec s h rule: replay.induct) (auto split: prod.split)

section \<open>The contract of an object\<close>

text \<open>
  What an object promises: calls that take the lock for reading do not change the state, a body run alone does
  what its specification says, and every step brings a body nearer to its end.
\<close>

locale locked_object =
  fixes obj :: "('op, 's, 'l, 'r) object"
    and spec :: "'op \<Rightarrow> 's \<Rightarrow> 's \<times> 'r"
    and ok :: "'s \<Rightarrow> bool"
    and left :: "'op \<Rightarrow> 's \<Rightarrow> 'l \<Rightarrow> nat"
  assumes reads_only: "\<not> writes obj op \<Longrightarrow> in_body obj op s s' l \<Longrightarrow> s' = s"
    and body_spec: "ok s \<Longrightarrow> admissible obj op \<Longrightarrow> in_body obj op s s' l \<Longrightarrow> final obj op l = Some r \<Longrightarrow> spec op s = (s', r)"
    and spec_ok: "ok s \<Longrightarrow> admissible obj op \<Longrightarrow> ok (fst (spec op s))"
    and body_ends: "final obj op l = None \<Longrightarrow> micro obj op s l = (s', l') \<Longrightarrow> left op s' l' < left op s l"
begin

fun reading :: "('op, 'l) phase \<Rightarrow> bool" where
  "reading (Running op l) = (\<not> writes obj op)"
| "reading _ = False"

fun writing :: "('op, 'l) phase \<Rightarrow> bool" where
  "writing (Running op l) = writes obj op"
| "writing _ = False"

fun announced :: "('op, 'l) phase \<Rightarrow> bool" where
  "announced (Announced op) = True"
| "announced _ = False"

fun sound :: "('op, 'l) phase \<Rightarrow> bool" where
  "sound Idle = True"
| "sound (Want op) = admissible obj op"
| "sound (Announced op) = (admissible obj op \<and> writes obj op)"
| "sound (Running op l) = admissible obj op"

text \<open>The lock knows who reads and who writes, and lets nobody in beside a writer.\<close>

definition lock_inv :: "('op, 's, 'l, 'r) rw_state \<Rightarrow> bool" where
  "lock_inv c \<longleftrightarrow>
     (\<forall>t. t \<in> readers c \<longleftrightarrow> reading (phase c t))
   \<and> (\<forall>t. holder c = Some t \<and> \<not> active c \<longleftrightarrow> announced (phase c t))
   \<and> (\<forall>t. holder c = Some t \<and> active c \<longleftrightarrow> writing (phase c t))
   \<and> (active c \<longrightarrow> readers c = {} \<and> holder c \<noteq> None)
   \<and> (\<forall>t. sound (phase c t))
   \<and> finite {t. phase c t \<noteq> Idle}"

lemmas lock_invD =
  lock_inv_def [THEN iffD1, THEN conjunct1, rule_format]
  lock_inv_def [THEN iffD1, THEN conjunct2, THEN conjunct1, rule_format]
  lock_inv_def [THEN iffD1, THEN conjunct2, THEN conjunct2, THEN conjunct1, rule_format]
  lock_inv_def [THEN iffD1, THEN conjunct2, THEN conjunct2, THEN conjunct2, THEN conjunct1, rule_format]
  lock_inv_def [THEN iffD1, THEN conjunct2, THEN conjunct2, THEN conjunct2, THEN conjunct2, THEN conjunct1, rule_format]
  lock_inv_def [THEN iffD1, THEN conjunct2, THEN conjunct2, THEN conjunct2, THEN conjunct2, THEN conjunct2]

lemma finite_busy: "finite {t. p t \<noteq> Idle} \<Longrightarrow> finite {t. (p(u := x)) t \<noteq> Idle}"
  by (rule finite_subset [of _ "insert u {t. p t \<noteq> Idle}"]) auto

lemma lock_inv_step:
  assumes "rw_step obj c ev c'" "lock_inv c"
  shows "lock_inv c'"
  using assms(1)
proof cases
  case (Call t op)
  then show ?thesis using assms(2) finite_busy [of "phase c" t] lock_invD(5) [OF assms(2), of t] unfolding lock_inv_def by auto
next
  case (RLock t op)
  then show ?thesis using assms(2) finite_busy [of "phase c" t] lock_invD(5) [OF assms(2), of t] unfolding lock_inv_def by auto
next
  case (Announce t op)
  then show ?thesis using assms(2) finite_busy [of "phase c" t] lock_invD(5) [OF assms(2), of t] unfolding lock_inv_def by auto
next
  case (Lock t op)
  then have "holder c = Some t" "\<not> active c" using lock_invD(2) [OF assms(2), of t] by simp_all
  moreover have "announced (phase c u) \<Longrightarrow> u = t" for u using lock_invD(2) [OF assms(2), of u] calculation by simp
  ultimately show ?thesis using Lock assms(2) finite_busy [of "phase c" t] lock_invD(5) [OF assms(2), of t] unfolding lock_inv_def by auto
next
  case (Body t op l s l')
  then show ?thesis using assms(2) finite_busy [of "phase c" t] lock_invD(5) [OF assms(2), of t] unfolding lock_inv_def by auto
next
  case (RUnlock t op l r)
  then show ?thesis using assms(2) finite_busy [of "phase c" t] lock_invD(5) [OF assms(2), of t] unfolding lock_inv_def by auto
next
  case (Unlock t op l r)
  then have "holder c = Some t" "active c" using lock_invD(3) [OF assms(2), of t] by simp_all
  moreover have "writing (phase c u) \<Longrightarrow> u = t" for u using lock_invD(3) [OF assms(2), of u] calculation by simp
  ultimately show ?thesis using Unlock assms(2) finite_busy [of "phase c" t] lock_invD(5) [OF assms(2), of t] unfolding lock_inv_def by auto
qed

lemma lone_writer:
  assumes "lock_inv c" "phase c t = Running op l" "writes obj op" "phase c u = Running op' l'"
  shows "u = t"
proof -
  have h: "holder c = Some t" "active c" using lock_invD(3) [OF assms(1), of t] assms(2,3) by simp_all
  then have "\<not> reading (phase c u)" using lock_invD(1) [OF assms(1), of u] lock_invD(4) [OF assms(1)] by simp
  then show ?thesis using lock_invD(3) [OF assms(1), of u] h assms(4) by simp
qed

lemma reader_inactive: "lock_inv c \<Longrightarrow> reading (phase c t) \<Longrightarrow> \<not> active c"
  using lock_invD(1) [of c t] lock_invD(4) [of c] by auto

text \<open>
  The state is the one the finished calls leave when they are replayed, but for what a writer has done so far;
  every body is where it would be if it ran alone.
\<close>

definition data_inv :: "'s \<Rightarrow> ('op, 's, 'l, 'r) rw_state \<Rightarrow> bool" where
  "data_inv s0 c \<longleftrightarrow> (\<exists>b. replay spec s0 (history c) = Some b \<and> ok b
     \<and> (\<not> active c \<longrightarrow> shared c = b)
     \<and> (\<forall>t op l. phase c t = Running op l \<longrightarrow> in_body obj op b (shared c) l))"

lemma data_invI:
  "replay spec s0 (history c) = Some b \<Longrightarrow> ok b \<Longrightarrow> (\<not> active c \<Longrightarrow> shared c = b) \<Longrightarrow>
     (\<And>t op l. phase c t = Running op l \<Longrightarrow> in_body obj op b (shared c) l) \<Longrightarrow> data_inv s0 c"
  unfolding data_inv_def by blast

lemma data_inv_step:
  assumes "rw_step obj c ev c'" "lock_inv c" "data_inv s0 c"
  shows "data_inv s0 c'"
proof -
  obtain b where b: "replay spec s0 (history c) = Some b" "ok b" "\<not> active c \<Longrightarrow> shared c = b"
    and run: "\<And>t op l. phase c t = Running op l \<Longrightarrow> in_body obj op b (shared c) l"
    using assms(3) unfolding data_inv_def by blast
  note inv = lock_invD [OF assms(2)]
  from assms(1) show ?thesis
  proof cases
    case (Call t op)
    then show ?thesis using b run by (intro data_invI [of _ _ b]) (auto split: if_splits)
  next
    case (RLock t op)
    then have "shared c = b" using b(3) inv(4) by auto
    then show ?thesis using RLock b run body_entry [of obj op b] by (intro data_invI [of _ _ b]) (auto split: if_splits)
  next
    case (Announce t op)
    then show ?thesis using b run by (intro data_invI [of _ _ b]) (auto split: if_splits)
  next
    case (Lock t op)
    then have "shared c = b" using b(3) inv(2) [of t] by auto
    then show ?thesis using Lock b run body_entry [of obj op b] by (intro data_invI [of _ _ b]) (auto split: if_splits)
  next
    case (Body t op l s l')
    have here: "in_body obj op b s l'" using body_step [OF run [OF Body(3)] Body(4,5)] .
    show ?thesis
    proof (cases "writes obj op")
      case True
      then have "active c" using inv(3) [of t] Body(3) by simp
      moreover have "in_body obj op' b (shared c') l''" if "phase c' u = Running op' l''" for u op' l''
      proof -
        have "u = t" using that Body lone_writer [OF assms(2) Body(3) True, of u op' l''] by (cases "u = t") simp_all
        then show ?thesis using that Body here by simp
      qed
      ultimately show ?thesis using Body b by (intro data_invI [of _ _ b]) simp_all
    next
      case False
      then have "s = shared c" using reads_only [OF False here] reads_only [OF False run [OF Body(3)]] by simp
      then show ?thesis using Body b run here by (intro data_invI [of _ _ b]) (auto split: if_splits)
    qed
  next
    case (RUnlock t op l r)
    have "shared c = b" using b(3) reader_inactive [OF assms(2), of t] RUnlock(3,4) by simp
    then have "spec op b = (b, r)"
      using body_spec [OF b(2) _ run [OF RUnlock(3)] RUnlock(5)] inv(5) [of t] RUnlock(3) by simp
    then show ?thesis using RUnlock b run by (intro data_invI [of _ _ b]) (auto simp: replay_append split: if_splits)
  next
    case (Unlock t op l r)
    have adm: "admissible obj op" using inv(5) [of t] Unlock(3) by simp
    have sp: "spec op b = (shared c, r)" using body_spec [OF b(2) adm run [OF Unlock(3)] Unlock(5)] .
    have "ok (shared c)" using spec_ok [OF b(2) adm] sp by simp
    moreover have False if "phase c' u = Running op' l'" for u op' l'
      using that Unlock lone_writer [OF assms(2) Unlock(3,4), of u op' l'] by (cases "u = t") simp_all
    ultimately show ?thesis using Unlock b sp by (intro data_invI [of _ _ "shared c"]) (auto simp: replay_append)
  qed
qed

lemma reachable_inv:
  assumes "ok s0" "rw_reachable obj s0 c"
  shows "lock_inv c \<and> data_inv s0 c"
  using assms(2) unfolding rw_reachable_def
proof (induction rule: rtranclp_induct)
  case base
  show ?case using assms(1) by (auto simp: lock_inv_def data_inv_def rw_init_def)
next
  case (step c c')
  then show ?case using lock_inv_step data_inv_step by blast
qed

lemma linearizable:
  assumes "ok s0" "rw_reachable obj s0 c"
  shows "\<exists>b. replay spec s0 (history c) = Some b \<and> (\<not> active c \<longrightarrow> shared c = b)"
  using reachable_inv [OF assms] unfolding data_inv_def by blast

lemma exclusive:
  assumes "ok s0" "rw_reachable obj s0 c" "phase c t = Running op l" "writes obj op" "phase c u = Running op' l'"
  shows "u = t"
  using lone_writer assms(3-5) reachable_inv [OF assms(1,2)] by blast

text \<open>Somebody can always go on, unless all calls have returned.\<close>

lemma running_can_step: "phase c t = Running op l \<Longrightarrow> \<exists>c'. rw_step obj c (Works t) c'"
  using Body [of c t op l obj] RUnlock [of c t op l obj] Unlock [of c t op l obj]
  by (cases "final obj op l"; cases "writes obj op"; cases "micro obj op (shared c) l") blast+

lemma progress:
  assumes "ok s0" "rw_reachable obj s0 c" "phase c t \<noteq> Idle"
  shows "\<exists>u c'. rw_step obj c (Works u) c'"
proof -
  have L: "lock_inv c" using reachable_inv [OF assms(1,2)] ..
  show ?thesis
  proof (cases "holder c")
    case None
    show ?thesis
    proof (cases "phase c t")
      case (Want op)
      then show ?thesis using RLock [OF Want _ None] Announce [OF Want _ None] by blast
    next
      case (Announced op)
      then show ?thesis using lock_invD(2) [OF L, of t] None by simp
    qed (use assms(3) running_can_step in blast)+
  next
    case (Some h)
    show ?thesis
    proof (cases "active c")
      case True
      then have "writing (phase c h)" using lock_invD(3) [OF L, of h] Some by simp
      then show ?thesis using running_can_step [of c h] by (cases "phase c h") auto
    next
      case False
      then have a: "announced (phase c h)" using lock_invD(2) [OF L, of h] Some by simp
      then show ?thesis
      proof (cases "readers c = {}")
        case True
        moreover obtain op where "phase c h = Announced op" using a by (cases "phase c h") auto
        ultimately show ?thesis using Lock [of c h op obj] by blast
      next
        case False
        then obtain r where "reading (phase c r)" using lock_invD(1) [OF L] by blast
        then show ?thesis using running_can_step [of c r] by (cases "phase c r") auto
      qed
    qed
  qed
qed

text \<open>Every step of a call that has begun brings all of them nearer to their ends.\<close>

fun waits :: "('op, 'l) phase \<Rightarrow> nat" where
  "waits (Want op) = 2"
| "waits (Announced op) = 1"
| "waits _ = 0"

fun steps_left :: "'s \<Rightarrow> ('op, 'l) phase \<Rightarrow> nat" where
  "steps_left s (Running op l) = left op s l + 1"
| "steps_left s _ = 0"

abbreviation busy :: "('op, 's, 'l, 'r) rw_state \<Rightarrow> nat set" where
  "busy c \<equiv> {t. phase c t \<noteq> Idle}"

definition work :: "('op, 's, 'l, 'r) rw_state \<Rightarrow> nat \<times> nat" where
  "work c = (\<Sum>t\<in>busy c. waits (phase c t), \<Sum>t\<in>busy c. steps_left (shared c) (phase c t))"

lemma sum_busy_update:
  assumes "finite {t. p t \<noteq> Idle}" "p t \<noteq> Idle" "g Idle = (0 :: nat)"
  shows "(\<Sum>u\<in>{u. (p(t := x)) u \<noteq> Idle}. g ((p(t := x)) u)) = g x + (\<Sum>u\<in>{u. p u \<noteq> Idle} - {t}. g (p u))"
proof -
  let ?B = "{u. p u \<noteq> Idle}"
  have "(\<Sum>u\<in>{u. (p(t := x)) u \<noteq> Idle}. g ((p(t := x)) u)) = (\<Sum>u\<in>?B. g ((p(t := x)) u))"
    using assms by (intro sum.mono_neutral_left) auto
  also have "\<dots> = g ((p(t := x)) t) + (\<Sum>u\<in>?B - {t}. g ((p(t := x)) u))"
    using assms by (intro sum.remove) auto
  also have "(\<Sum>u\<in>?B - {t}. g ((p(t := x)) u)) = (\<Sum>u\<in>?B - {t}. g (p u))" by (intro sum.cong) auto
  finally show ?thesis by simp
qed

lemma sum_busy:
  assumes "finite {t. p t \<noteq> Idle}" "p t \<noteq> Idle"
  shows "(\<Sum>u\<in>{u. p u \<noteq> Idle}. g (p u)) = (g (p t) :: nat) + (\<Sum>u\<in>{u. p u \<noteq> Idle} - {t}. g (p u))"
  using assms by (intro sum.remove) auto

lemma work_update:
  assumes "finite (busy c)" "phase c t \<noteq> Idle" "phase c' = (phase c)(t := x)"
  shows "work c' = (waits x + (\<Sum>u\<in>busy c - {t}. waits (phase c u)),
      steps_left (shared c') x + (\<Sum>u\<in>busy c - {t}. steps_left (shared c') (phase c u)))"
    and "work c = (waits (phase c t) + (\<Sum>u\<in>busy c - {t}. waits (phase c u)),
      steps_left (shared c) (phase c t) + (\<Sum>u\<in>busy c - {t}. steps_left (shared c) (phase c u)))"
  unfolding work_def assms(3) using sum_busy_update [OF assms(1,2), of _ x] sum_busy [OF assms(1,2)] by simp_all

lemma work_decreases:
  assumes "rw_step obj c (Works t) c'" "lock_inv c" "data_inv s0 c"
  shows "(work c', work c) \<in> less_than <*lex*> less_than"
proof -
  have fin: "finite (busy c)" by (rule lock_invD(6) [OF assms(2)])
  have t: "phase c t \<noteq> Idle" using assms(1) by cases auto
  note upd = work_update [OF fin t, of c']
  from assms(1) show ?thesis
  proof cases
    case (RLock op)
    show ?thesis using upd [of "Running op (start_of obj op)"] RLock by simp
  next
    case (Announce op)
    show ?thesis using upd [of "Announced op"] Announce by simp
  next
    case (Lock op)
    show ?thesis using upd [of "Running op (start_of obj op)"] Lock by simp
  next
    case (Body op l s l')
    have "(\<Sum>u\<in>busy c - {t}. steps_left s (phase c u)) = (\<Sum>u\<in>busy c - {t}. steps_left (shared c) (phase c u))"
    proof (cases "writes obj op")
      case True
      have "steps_left s (phase c u) = steps_left (shared c) (phase c u)" if "u \<noteq> t" for u
        using that lone_writer [OF assms(2) Body(2) True, of u] by (cases "phase c u") auto
      then show ?thesis by (intro sum.cong) auto
    next
      case False
      obtain b where here: "in_body obj op b (shared c) l" using assms(3) Body(2) unfolding data_inv_def by blast
      have "s = shared c" using reads_only [OF False here] reads_only [OF False body_step [OF here Body(3,4)]] by simp
      then show ?thesis by simp
    qed
    then show ?thesis using upd [of "Running op l'"] body_ends [OF Body(3,4)] Body by simp
  next
    case (RUnlock op l r)
    show ?thesis using upd [of Idle] RUnlock by simp
  next
    case (Unlock op l r)
    show ?thesis using upd [of Idle] Unlock by simp
  qed
qed

lemma calls_return:
  assumes "ok s0" "rw_reachable obj s0 (f 0)"
  shows "\<not> (\<forall>i. \<exists>t. rw_step obj (f i) (Works t) (f (Suc i)))"
proof
  assume run: "\<forall>i. \<exists>t. rw_step obj (f i) (Works t) (f (Suc i))"
  have "rw_reachable obj s0 (f i)" for i
  proof (induction i)
    case (Suc i)
    moreover obtain t where "rw_step obj (f i) (Works t) (f (Suc i))" using run by blast
    ultimately show ?case by (rule reachable_step)
  qed (rule assms(2))
  then have "lock_inv (f i)" "data_inv s0 (f i)" for i using reachable_inv [OF assms(1)] by blast+
  then have "(work (f (Suc i)), work (f i)) \<in> less_than <*lex*> less_than" for i
    using run work_decreases by blast
  moreover have "wf (less_than <*lex*> less_than)" by auto
  ultimately show False using wf_no_infinite_down_chainE [of "less_than <*lex*> less_than" "\<lambda>i. work (f i)"] by metis
qed

end

end
