(* ===== verification/MapLocks.thy ===== *)
theory MapLocks
  imports TypesMap RWMutex
begin

text \<open>
  The locked map of src/types/map.go in use by many goroutines. Each method is a body of small steps on the field
  data: a lookup, an assignment, or one turn of a loop. The map keeps the contract of an object behind a
  read-write lock, so every interleaving of calls is a sequence of the whole methods of theory TypesMap.
  A callback given to Range or DeleteFunc is a function of its arguments: one that
  calls the map itself would wait for the lock its caller holds.
\<close>

section \<open>Calls\<close>

text \<open>A loop over the map carries the order in which the runtime iterates, as a function of the map it meets.\<close>

type_synonym ('k, 'v) iteration = "('k, 'v) gomap \<Rightarrow> 'k list"

datatype ('k, 'v, 'u) map_call =
    CSet 'k 'v
  | CGet 'k
  | CDelete 'k
  | CClear
  | CLen
  | CHas 'k
  | CKeys "('k, 'v) iteration"
  | CValues "('k, 'v) iteration"
  | CRange "'k \<Rightarrow> 'v \<Rightarrow> 'u \<Rightarrow> bool \<times> 'u" 'u "('k, 'v) iteration"
  | CDeleteFunc "'k \<Rightarrow> 'v \<Rightarrow> bool" "('k, 'v) iteration"

datatype ('k, 'v, 'u) map_result =
    RUnit
  | RVal "'v \<times> bool"
  | RMap "('k, 'v) gomap"
  | RNat nat
  | RBool bool
  | RKeys "'k list"
  | RVals "'v list"
  | RState 'u

text \<open>The method a call stands for.\<close>

fun map_spec :: "'v \<Rightarrow> ('k, 'v, 'u) map_call \<Rightarrow> ('k, 'v) Map \<Rightarrow> ('k, 'v) Map \<times> ('k, 'v, 'u) map_result" where
  "map_spec zero (CSet k v) m = (Map_Set m k v, RUnit)"
| "map_spec zero (CGet k) m = (m, RVal (Map_Get zero m k))"
| "map_spec zero (CDelete k) m = (case Map_Delete zero m k of (r, m') \<Rightarrow> (m', RVal r))"
| "map_spec zero CClear m = (case Map_Clear m of (old, m') \<Rightarrow> (m', RMap old))"
| "map_spec zero CLen m = (m, RNat (Map_Len m))"
| "map_spec zero (CHas k) m = (m, RBool (Map_Has m k))"
| "map_spec zero (CKeys order) m = (m, RKeys (Map_Keys (order (data m)) m))"
| "map_spec zero (CValues order) m = (m, RVals (Map_Values (order (data m)) m))"
| "map_spec zero (CRange fn u order) m = (m, RState (Map_Range fn (order (data m)) m u))"
| "map_spec zero (CDeleteFunc fn order) m = (case Map_DeleteFunc fn (order (data m)) m of (n, m') \<Rightarrow> (m', RNat n))"

section \<open>Bodies\<close>

datatype ('k, 'v, 'u) map_local =
    Start
  | Looked 'k "'v option"
  | OldData "('k, 'v) gomap"
  | KeysLoop "'k list" "'k list"
  | ValuesLoop "'k list" "'v list"
  | RangeLoop "'k \<Rightarrow> 'v \<Rightarrow> 'u \<Rightarrow> bool \<times> 'u" "'k list" 'u
  | DeleteLoop "'k \<Rightarrow> 'v \<Rightarrow> bool" "'k list" nat
  | Done "('k, 'v, 'u) map_result"

text \<open>The first step of a method, after it has the lock.\<close>

fun map_start :: "'v \<Rightarrow> ('k, 'v, 'u) map_call \<Rightarrow> ('k, 'v) Map \<Rightarrow> ('k, 'v) Map \<times> ('k, 'v, 'u) map_local" where
  "map_start zero (CSet k v) m = (Map_Set m k v, Done RUnit)"
| "map_start zero (CGet k) m = (m, Done (RVal (Map_Get zero m k)))"
| "map_start zero (CDelete k) m = (m, Looked k (map_of (data m) k))"
| "map_start zero CClear m = (m, OldData (data m))"
| "map_start zero CLen m = (m, Done (RNat (Map_Len m)))"
| "map_start zero (CHas k) m = (m, Done (RBool (Map_Has m k)))"
| "map_start zero (CKeys order) m = (m, KeysLoop (order (data m)) [])"
| "map_start zero (CValues order) m = (m, ValuesLoop (order (data m)) [])"
| "map_start zero (CRange fn u order) m = (m, RangeLoop fn (order (data m)) u)"
| "map_start zero (CDeleteFunc fn order) m = (m, DeleteLoop fn (order (data m)) 0)"

fun map_micro ::
  "'v \<Rightarrow> ('k, 'v, 'u) map_call \<Rightarrow> ('k, 'v) Map \<Rightarrow> ('k, 'v, 'u) map_local \<Rightarrow> ('k, 'v) Map \<times> ('k, 'v, 'u) map_local" where
  "map_micro zero call m Start = map_start zero call m"
| "map_micro zero call m (Looked k found) = (case found of
     None \<Rightarrow> (m, Done (RVal (zero, False)))
   | Some v \<Rightarrow> (m\<lparr>data := map_del k (data m)\<rparr>, Done (RVal (v, True))))"
| "map_micro zero call m (OldData old) = (m\<lparr>data := []\<rparr>, Done (RMap old))"
| "map_micro zero call m (KeysLoop ks acc) = (case ks of
     [] \<Rightarrow> (m, Done (RKeys acc))
   | k # ks' \<Rightarrow> (m, KeysLoop ks' (acc @ [k])))"
| "map_micro zero call m (ValuesLoop ks acc) = (case ks of
     [] \<Rightarrow> (m, Done (RVals acc))
   | k # ks' \<Rightarrow> (m, ValuesLoop ks' (case map_of (data m) k of None \<Rightarrow> acc | Some v \<Rightarrow> acc @ [v])))"
| "map_micro zero call m (RangeLoop fn ks u) = (case ks of
     [] \<Rightarrow> (m, Done (RState u))
   | k # ks' \<Rightarrow> (case map_of (data m) k of
       None \<Rightarrow> (m, RangeLoop fn ks' u)
     | Some v \<Rightarrow> (case fn k v u of (go_on, u') \<Rightarrow> (m, if \<not> go_on then Done (RState u') else RangeLoop fn ks' u'))))"
| "map_micro zero call m (DeleteLoop fn ks deleted) = (case ks of
     [] \<Rightarrow> (m, Done (RNat deleted))
   | k # ks' \<Rightarrow> (case map_of (data m) k of
       None \<Rightarrow> (m, DeleteLoop fn ks' deleted)
     | Some v \<Rightarrow> if fn k v then (m\<lparr>data := map_del k (data m)\<rparr>, DeleteLoop fn ks' (deleted + 1))
         else (m, DeleteLoop fn ks' deleted)))"
| "map_micro zero call m (Done r) = (m, Done r)"

text \<open>Which lock a method takes.\<close>

fun map_writes :: "('k, 'v, 'u) map_call \<Rightarrow> bool" where
  "map_writes (CSet k v) = True"
| "map_writes (CDelete k) = True"
| "map_writes CClear = True"
| "map_writes (CDeleteFunc fn order) = True"
| "map_writes _ = False"

fun map_order_of :: "('k, 'v, 'u) map_call \<Rightarrow> ('k, 'v) iteration option" where
  "map_order_of (CKeys order) = Some order"
| "map_order_of (CValues order) = Some order"
| "map_order_of (CRange fn u order) = Some order"
| "map_order_of (CDeleteFunc fn order) = Some order"
| "map_order_of _ = None"

definition iterates :: "('k, 'v, 'u) map_call \<Rightarrow> bool" where
  "iterates call \<longleftrightarrow> (case map_order_of call of
     None \<Rightarrow> True | Some order \<Rightarrow> (\<forall>d. map_ok d \<longrightarrow> map_order d (order d)))"

definition map_object :: "'v \<Rightarrow> (('k, 'v, 'u) map_call, ('k, 'v) Map, ('k, 'v, 'u) map_local, ('k, 'v, 'u) map_result) object" where
  "map_object zero = \<lparr>admissible = iterates, writes = map_writes, start_of = (\<lambda>_. Start), micro = map_micro zero,
     final = (\<lambda>_ l. case l of Done r \<Rightarrow> Some r | _ \<Rightarrow> None)\<rparr>"

lemma map_object_simps [simp]:
  "admissible (map_object zero) = iterates" "writes (map_object zero) = map_writes" "start_of (map_object zero) call = Start"
  "micro (map_object zero) = map_micro zero" "final (map_object zero) call (Done r) = Some r"
  "final (map_object zero) call l = None \<longleftrightarrow> (\<forall>r. l \<noteq> Done r)" "final (map_object zero) call l = Some r \<longleftrightarrow> l = Done r"
  by (auto simp: map_object_def split: map_local.splits)

section \<open>The contract is kept\<close>

text \<open>What is left to do from a point of a body on, as whole loops.\<close>

fun map_finish ::
  "'v \<Rightarrow> ('k, 'v, 'u) map_call \<Rightarrow> ('k, 'v) Map \<Rightarrow> ('k, 'v, 'u) map_local \<Rightarrow> ('k, 'v) Map \<times> ('k, 'v, 'u) map_result" where
  "map_finish zero call m Start = map_spec zero call m"
| "map_finish zero call m (Looked k found) = (case found of
     None \<Rightarrow> (m, RVal (zero, False)) | Some v \<Rightarrow> (m\<lparr>data := map_del k (data m)\<rparr>, RVal (v, True)))"
| "map_finish zero call m (OldData old) = (m\<lparr>data := []\<rparr>, RMap old)"
| "map_finish zero call m (KeysLoop ks acc) = (m, RKeys (keys_loop ks acc))"
| "map_finish zero call m (ValuesLoop ks acc) = (m, RVals (values_loop (data m) ks acc))"
| "map_finish zero call m (RangeLoop fn ks u) = (m, RState (range_loop fn (data m) ks u))"
| "map_finish zero call m (DeleteLoop fn ks n) =
     (case delete_loop fn ks (data m) n of (n', d) \<Rightarrow> (m\<lparr>data := d\<rparr>, RNat n'))"
| "map_finish zero call m (Done r) = (m, r)"

lemmas map_methods = Map_Delete_def Map_Clear_def Map_Keys_def Map_Values_def Map_Range_def Map_DeleteFunc_def

lemma map_finish_start: "map_start zero call m = (m', l) \<Longrightarrow> map_finish zero call m' l = map_spec zero call m"
  by (cases call) (auto simp: map_methods split: option.splits prod.split)

lemma map_finish_micro: "map_micro zero call m l = (m', l') \<Longrightarrow> map_finish zero call m' l' = map_finish zero call m l"
  by (cases l) (auto simp: map_finish_start split: option.splits list.splits prod.splits if_splits)

fun reading_local :: "('k, 'v, 'u) map_local \<Rightarrow> bool" where
  "reading_local (Looked k v) = False"
| "reading_local (OldData d) = False"
| "reading_local (DeleteLoop fn ks n) = False"
| "reading_local _ = True"

lemma map_reads:
  "\<not> map_writes call \<Longrightarrow> reading_local l \<Longrightarrow> map_micro zero call m l = (m', l') \<Longrightarrow> m' = m \<and> reading_local l'"
  by (cases l; cases call) (auto split: option.splits list.splits prod.splits if_splits)

lemma map_in_body:
  "in_body (map_object zero) call m m' l \<Longrightarrow>
     map_finish zero call m' l = map_spec zero call m \<and> (\<not> map_writes call \<longrightarrow> m' = m \<and> reading_local l)"
proof (induction rule: in_body.induct)
  case body_entry
  then show ?case by simp
next
  case (body_step m' l m'' l')
  then show ?case using map_finish_micro [of zero call m' l m'' l'] map_reads [of call l zero m' m'' l']
    by (cases "map_writes call") auto
qed

fun map_left :: "('k, 'v, 'u) map_call \<Rightarrow> ('k, 'v) Map \<Rightarrow> ('k, 'v, 'u) map_local \<Rightarrow> nat" where
  "map_left call m Start = (case map_order_of call of None \<Rightarrow> 2 | Some order \<Rightarrow> length (order (data m)) + 2)"
| "map_left call m (Looked k v) = 1"
| "map_left call m (OldData d) = 1"
| "map_left call m (KeysLoop ks acc) = length ks + 1"
| "map_left call m (ValuesLoop ks acc) = length ks + 1"
| "map_left call m (RangeLoop fn ks u) = length ks + 1"
| "map_left call m (DeleteLoop fn ks n) = length ks + 1"
| "map_left call m (Done r) = 0"

lemma map_left_micro:
  "(\<And>r. l \<noteq> Done r) \<Longrightarrow> map_micro zero call m l = (m', l') \<Longrightarrow> map_left call m' l' < map_left call m l"
  by (cases l; cases call) (auto split: option.splits list.splits prod.splits if_splits)

lemma map_spec_inv: "Map_inv m \<Longrightarrow> Map_inv (fst (map_spec zero call m))"
  by (cases call)
    (auto simp: Map_inv_def Map_Set_def map_methods split: option.splits prod.splits, metis delete_loop_ok snd_conv)

interpretation lm: locked_object "map_object zero" "map_spec zero" Map_inv map_left for zero
proof unfold_locales
  show "\<not> writes (map_object zero) call \<Longrightarrow> in_body (map_object zero) call m m' l \<Longrightarrow> m' = m" for call m m' l
    using map_in_body by fastforce
  show "in_body (map_object zero) call m m' l \<Longrightarrow> final (map_object zero) call l = Some r \<Longrightarrow> map_spec zero call m = (m', r)"
    for call m m' l r using map_in_body by fastforce
  show "Map_inv m \<Longrightarrow> Map_inv (fst (map_spec zero call m))" for m call by (rule map_spec_inv)
  show "final (map_object zero) call l = None \<Longrightarrow> micro (map_object zero) call m l = (m', l') \<Longrightarrow>
    map_left call m' l' < map_left call m l" for call l m m' l' by (rule map_left_micro) simp_all
qed

section \<open>Properties\<close>

lemma NewMap_inv: "Map_inv NewMap"
  by (simp add: Map_inv_def NewMap_def map_ok_def)

text \<open>
  C8 (refinement). However the goroutines that use a new map are interleaved, the calls that have returned, in the
  order in which they returned, gave the results the methods of the map give when they are called one after
  the other, and unless a writer is at work the map is as these calls leave it. While a
  method that writes is running no other method is.
\<close>

theorem map_linearizable:
  assumes "rw_reachable (map_object zero) NewMap c"
  shows "(\<exists>m. replay (map_spec zero) NewMap (history c) = Some m \<and> (\<not> active c \<longrightarrow> shared c = m))
    \<and> (\<forall>t u call l call' l'. phase c t = Running call l \<and> map_writes call \<and> phase c u = Running call' l' \<longrightarrow> u = t)"
  using lm.linearizable [OF NewMap_inv assms] lm.exclusive [OF NewMap_inv assms] by (metis map_object_simps(2))

text \<open>
  C9 (termination). Calls on a new map all return: goroutines that make no new calls cannot go on forever, and where
  none of them can go on every call has returned.
\<close>

theorem map_calls_return:
  assumes "rw_reachable (map_object zero) NewMap c"
  shows "(\<nexists>f. f 0 = c \<and> (\<forall>i. \<exists>t. rw_step (map_object zero) (f i) (Works t) (f (Suc i))))
    \<and> ((\<nexists>t c'. rw_step (map_object zero) c (Works t) c') \<longrightarrow> (\<forall>t. phase c t = Idle))"
proof
  show "\<nexists>f. f 0 = c \<and> (\<forall>i. \<exists>t. rw_step (map_object zero) (f i) (Works t) (f (Suc i)))"
    using lm.calls_return [where zero = zero, OF NewMap_inv] assms by blast
  show "(\<nexists>t c'. rw_step (map_object zero) c (Works t) c') \<longrightarrow> (\<forall>t. phase c t = Idle)"
    using lm.progress [OF NewMap_inv assms] by blast
qed

text \<open>
  A schedule: a goroutine looks a key up while another waits to set it, and after that a third counts the entries.
\<close>

definition sample_schedule :: "(nat \<times> (nat, int, unit) map_call + nat) list" where
  "sample_schedule = [Inl (0, CGet 7), Inr 0, Inl (1, CSet 7 5), Inr 1, Inr 0, Inl (2, CLen), Inr 0, Inr 1, Inr 1, Inr 1,
     Inr 2, Inr 2, Inr 2]"

lemma sample_schedule_runs:
  "\<exists>c. rw_schedule (map_object 0) sample_schedule (rw_init NewMap) = Some c
     \<and> history c = [(CGet 7, RVal (0, False)), (CSet 7 5, RUnit), (CLen, RNat 1)] \<and> shared c = \<lparr>data = [(7, 5)]\<rparr> \<and> \<not> active c"
  by (simp add: sample_schedule_def rw_init_def NewMap_def rw_work_def iterates_def Map_Get_def Map_Set_def Map_Len_def
      map_object_def)

theorem map_linearizable_witness:
  "\<exists>c. rw_schedule (map_object 0) sample_schedule (rw_init NewMap) = Some c \<and> rw_reachable (map_object 0) NewMap c
     \<and> history c = [(CGet 7, RVal (0, False)), (CSet 7 5, RUnit), (CLen, RNat 1)]
     \<and> replay (map_spec 0) NewMap (history c) = Some (shared c)"
proof -
  obtain c where c: "rw_schedule (map_object 0) sample_schedule (rw_init NewMap) = Some c"
    "history c = [(CGet 7, RVal (0, False)), (CSet 7 5, RUnit), (CLen, RNat 1)]" "\<not> active c"
    using sample_schedule_runs by blast
  have r: "rw_reachable (map_object 0) NewMap c" using rw_schedule_reachable [OF c(1)] by blast
  show ?thesis using map_linearizable [OF r] c r by auto
qed

theorem map_calls_return_witness:
  "\<exists>c. rw_schedule (map_object 0) (take 6 sample_schedule) (rw_init NewMap) = Some c
     \<and> (\<nexists>f. f 0 = c \<and> (\<forall>i. \<exists>t. rw_step (map_object 0) (f i) (Works t) (f (Suc i))))"
proof -
  have "\<exists>c. rw_schedule (map_object 0) (take 6 sample_schedule) (rw_init NewMap) = Some c"
    by (simp add: sample_schedule_def rw_init_def NewMap_def rw_work_def iterates_def Map_Get_def map_object_def)
  then obtain c where c: "rw_schedule (map_object 0) (take 6 sample_schedule) (rw_init NewMap) = Some c" by blast
  have r: "rw_reachable (map_object 0) NewMap c" using rw_schedule_reachable [OF c] by blast
  show ?thesis using map_calls_return [OF r] c by blast
qed

end
