(* ===== verification/CacheRace.thy ===== *)
theory CacheRace
  imports CacheMemory RWMutex
begin

text \<open>
  Get of the memory cache (src/cache/memory.go) at the level of the links of its list. The doubly linked list of the
  standard package container/list is a ring through a sentinel; MoveToFront changes six links, one after
  the other. A Get that runs alone does to the links what theory CacheMemory says of the list.
  But Get takes the cache's lock for reading only: two of them can run at once, and
  for every key but the most recently used one there is an interleaving that drops all
  other entries from the list.
\<close>

section \<open>The ring of a list\<close>

text \<open>A node is an element or the sentinel (None).\<close>

type_synonym node = "elem option"

record links =
  nx :: "node \<Rightarrow> node"
  pv :: "node \<Rightarrow> node"

fun segment :: "links \<Rightarrow> node \<Rightarrow> elem list \<Rightarrow> node \<Rightarrow> bool" where
  "segment p a [] b = (nx p a = b \<and> pv p b = a)"
| "segment p a (x # xs) b = (nx p a = Some x \<and> pv p (Some x) = a \<and> segment p (Some x) xs b)"

definition ring :: "links \<Rightarrow> elem list \<Rightarrow> bool" where
  "ring p xs \<longleftrightarrow> distinct xs \<and> segment p None xs None"

text \<open>The assignments of \<open>move(e, &l.root)\<close>, in their order.\<close>

definition move_step :: "nat \<Rightarrow> elem \<Rightarrow> links \<Rightarrow> links" where
  "move_step i e p =
     (if i = 0 then p\<lparr>nx := (nx p)(pv p (Some e) := nx p (Some e))\<rparr>
      else if i = 1 then p\<lparr>pv := (pv p)(nx p (Some e) := pv p (Some e))\<rparr>
      else if i = 2 then p\<lparr>pv := (pv p)(Some e := None)\<rparr>
      else if i = 3 then p\<lparr>nx := (nx p)(Some e := nx p None)\<rparr>
      else if i = 4 then p\<lparr>nx := (nx p)(pv p (Some e) := Some e)\<rparr>
      else p\<lparr>pv := (pv p)(nx p (Some e) := Some e)\<rparr>)"

section \<open>Get in small steps\<close>

record linked_cache =
  cached :: Memory
  ptrs :: links

text \<open>A call of Get: the time it reads and its key.\<close>

type_synonym get_call = "int \<times> string"

datatype get_local = GStart | GFront elem bytes | GMove nat elem bytes | GDone "bytes res"

text \<open>\<open>MoveToFront\<close> does nothing when the element is the first one.\<close>

fun get_micro :: "get_call \<Rightarrow> linked_cache \<Rightarrow> get_local \<Rightarrow> linked_cache \<times> get_local" where
  "get_micro (now, k) c GStart = (c, case map_of (items (cached c)) k of
     None \<Rightarrow> GDone (Inl ErrCacheMiss)
   | Some e \<Rightarrow> (case toMemoryEntry (cached c) e of
       Inl err \<Rightarrow> GDone (Inl err)
     | Inr entry \<Rightarrow> if now > expiresAt entry then GDone (Inl ErrCacheMiss) else GFront e (val entry)))"
| "get_micro call c (GFront e v) = (c, if nx (ptrs c) None = Some e then GDone (Inr v) else GMove 0 e v)"
| "get_micro call c (GMove i e v) =
     (c\<lparr>ptrs := move_step i e (ptrs c)\<rparr>, if i < 5 then GMove (i + 1) e v else GDone (Inr v))"
| "get_micro call c (GDone r) = (c, GDone r)"

text \<open>The lock is taken for reading.\<close>

definition get_object :: "(get_call, linked_cache, get_local, bytes res) object" where
  "get_object = \<lparr>admissible = (\<lambda>_. True), writes = (\<lambda>_. False), start_of = (\<lambda>_. GStart), micro = get_micro,
     final = (\<lambda>_ l. case l of GDone r \<Rightarrow> Some r | _ \<Rightarrow> None)\<rparr>"

lemma get_object_simps [simp]:
  "admissible get_object call" "\<not> writes get_object call" "start_of get_object call = GStart" "micro get_object = get_micro"
  "final get_object call (GDone r) = Some r" "final get_object call GStart = None"
  "final get_object call (GFront e v) = None" "final get_object call (GMove i e v) = None"
  by (simp_all add: get_object_def)

section \<open>A Get that runs alone\<close>

lemma segment_append: "segment p a (xs @ y # ys) b \<longleftrightarrow> segment p a xs (Some y) \<and> segment p (Some y) ys b"
  by (induction xs arbitrary: a) auto

lemma segment_cong:
  assumes "\<And>n. n = a \<or> n \<in> Some ` set xs \<Longrightarrow> nx q n = nx p n" "\<And>n. n = b \<or> n \<in> Some ` set xs \<Longrightarrow> pv q n = pv p n"
  shows "segment q a xs b = segment p a xs b"
  using assms by (induction xs arbitrary: a) auto

abbreviation unlink :: "elem \<Rightarrow> links \<Rightarrow> links" where
  "unlink e p \<equiv> move_step 1 e (move_step 0 e p)"

lemma unlink_simps:
  assumes "nx p (Some e) \<noteq> Some e" "pv p (Some e) \<noteq> Some e"
  shows "nx (unlink e p) = (nx p)(pv p (Some e) := nx p (Some e))" "pv (unlink e p) = (pv p)(nx p (Some e) := pv p (Some e))"
  using assms by (simp_all add: move_step_def)

text \<open>The end of the segment before an element and the start of the one after it.\<close>

lemma segment_last: "segment p a xs b \<Longrightarrow> pv p b = (if xs = [] then a else Some (last xs))"
  by (induction xs arbitrary: a) auto

lemma segment_first: "segment p a xs b \<Longrightarrow> nx p a = (if xs = [] then b else Some (hd xs))"
  by (cases xs) auto

lemma segment_restart:
  assumes "segment p (Some e) ys b" "distinct ys" "b \<notin> Some ` set ys" "a \<notin> Some ` set ys" "a \<noteq> Some e"
    "nx q = (nx p)(a := nx p (Some e))" "pv q = (pv p)(nx p (Some e) := a)"
  shows "segment q a ys b"
proof (cases ys)
  case (Cons y ys')
  then have "segment q (Some y) ys' b = segment p (Some y) ys' b"
    using assms by (intro segment_cong) auto
  then show ?thesis using assms Cons by auto
qed (use assms in auto)

lemma unlink_segment:
  assumes "segment p a xs (Some e)" "segment p (Some e) ys b" "distinct (xs @ e # ys)"
    "a \<notin> Some ` set (xs @ e # ys)" "b \<notin> Some ` set (xs @ e # ys)"
    "nx q = (nx p)(pv p (Some e) := nx p (Some e))" "pv q = (pv p)(nx p (Some e) := pv p (Some e))"
  shows "segment q a (xs @ ys) b"
proof (cases xs rule: rev_cases)
  case Nil
  then have "pv p (Some e) = a" using assms(1) by simp
  then show ?thesis using Nil assms segment_restart [of p e ys b a q] by auto
next
  case (snoc zs l)
  then have l: "pv p (Some e) = Some l" using segment_last [OF assms(1)] by simp
  have s: "segment p a zs (Some l)" using assms(1) snoc segment_append [of p a zs l "[]"] by simp
  have n: "nx p (Some e) = (if ys = [] then b else Some (hd ys))" by (rule segment_first [OF assms(2)])
  have "segment q a zs (Some l) = segment p a zs (Some l)"
    by (rule segment_cong; use assms(3-7) snoc l n in \<open>cases ys; auto\<close>)
  moreover have "segment q (Some l) ys b"
    using assms snoc l by (intro segment_restart [OF assms(2)]) auto
  ultimately show ?thesis using s snoc by (simp add: segment_append)
qed

abbreviation link_front :: "elem \<Rightarrow> links \<Rightarrow> links" where
  "link_front e p \<equiv> move_step 5 e (move_step 4 e (move_step 3 e (move_step 2 e p)))"

lemma link_front_ring:
  assumes "segment p None zs None" "e \<notin> set zs" "distinct zs"
  shows "segment (link_front e p) None (e # zs) None"
proof -
  have f: "nx p None = (if zs = [] then None else Some (hd zs))" using segment_first [OF assms(1)] .
  then have ne: "nx p None \<noteq> Some e" using assms(2) by (cases zs) auto
  have q: "nx (link_front e p) = (nx p)(Some e := nx p None, None := Some e)"
    "pv (link_front e p) = (pv p)(Some e := None, nx p None := Some e)"
    using ne by (simp_all add: move_step_def)
  show ?thesis
  proof (cases zs)
    case Nil
    then show ?thesis using f q by simp
  next
    case (Cons z zs')
    have "segment (link_front e p) (Some z) zs' None = segment p (Some z) zs' None"
      by (rule segment_cong) (use Cons assms f in \<open>auto simp: q\<close>)
    then show ?thesis using Cons assms f q by auto
  qed
qed

lemma move_ring:
  assumes "ring p xs" "e \<in> set xs" "nx p None \<noteq> Some e"
  shows "ring (link_front e (unlink e p)) (list_MoveToFront e xs)"
proof -
  obtain as bs where xs: "xs = as @ e # bs" "e \<notin> set as" using split_list_first [OF assms(2)] by blast
  then have d: "distinct (as @ e # bs)" and s: "segment p None as (Some e)" "segment p (Some e) bs None"
    using assms(1) by (simp_all add: ring_def segment_append)
  have n1: "nx p (Some e) \<noteq> Some e" using segment_first [OF s(2)] d by (cases bs) auto
  have n2: "pv p (Some e) \<noteq> Some e" using segment_last [OF s(1)] d by (cases as rule: rev_cases) auto
  have "segment (unlink e p) None (as @ bs) None"
    by (rule unlink_segment [OF s d _ _ unlink_simps [OF n1 n2]]) auto
  then have "segment (link_front e (unlink e p)) None (e # as @ bs) None"
    by (rule link_front_ring) (use d in auto)
  then show ?thesis using xs d by (simp add: ring_def list_MoveToFront_def remove1_append)
qed

lemma front_ring: "ring p xs \<Longrightarrow> nx p None = Some e \<Longrightarrow> list_MoveToFront e xs = xs"
  by (cases xs) (auto simp: ring_def list_MoveToFront_def)

text \<open>The steps of a body, one after the other.\<close>

lemma get_moves:
  assumes "in_body get_object call s \<lparr>cached = m, ptrs = p\<rparr> (GMove 0 e v)"
  shows "in_body get_object call s \<lparr>cached = m, ptrs = link_front e (unlink e p)\<rparr> (GDone (Inr v))"
proof -
  have one: "in_body get_object call s \<lparr>cached = m, ptrs = q\<rparr> (GMove i e v) \<Longrightarrow>
      in_body get_object call s \<lparr>cached = m, ptrs = move_step i e q\<rparr> (if i < 5 then GMove (i + 1) e v else GDone (Inr v))" for q i
    by (erule body_step) simp_all
  let ?at = "\<lambda>q i. in_body get_object call s \<lparr>cached = m, ptrs = q\<rparr> (GMove i e v)"
  have "?at (move_step 0 e p) 1" using one [OF assms] by simp
  then have "?at (unlink e p) 2" using one [of _ 1] by (simp add: numeral_2_eq_2)
  then have "?at (move_step 2 e (unlink e p)) 3" using one [of _ 2] by simp
  then have "?at (move_step 3 e (move_step 2 e (unlink e p))) 4" using one [of _ 3] by simp
  then have "?at (move_step 4 e (move_step 3 e (move_step 2 e (unlink e p)))) 5" using one [of _ 4] by simp
  then show ?thesis using one [of _ 5] by simp
qed

text \<open>
  C6 (refinement). A Get that runs alone comes to its end with the result of the operation on the list, and turns the
  ring of the list before it into the ring of the list after it.
\<close>

theorem get_alone:
  assumes "mem_inv m" "ring p (evictList m)"
  shows "\<exists>p'. in_body get_object (now, k) \<lparr>cached = m, ptrs = p\<rparr> \<lparr>cached = m, ptrs = p'\<rparr> (GDone (fst (Memory_Get now m k)))
    \<and> ring p' (evictList (snd (Memory_Get now m k)))"
proof -
  let ?c = "\<lparr>cached = m, ptrs = p\<rparr>"
  have start: "in_body get_object (now, k) ?c ?c (snd (get_micro (now, k) ?c GStart))"
    by (rule body_step [OF body_entry]) simp_all
  show ?thesis
  proof (cases "\<exists>e en. map_of (items m) k = Some e \<and> elem_value m e = Some en \<and> now \<le> expiresAt en")
    case False
    then have "in_body get_object (now, k) ?c ?c (GDone (fst (Memory_Get now m k)))" "snd (Memory_Get now m k) = m"
      using start by (auto simp: Memory_Get_def toMemoryEntry_def split: option.splits if_splits)
    then show ?thesis using assms(2) by (intro exI [of _ p]) simp
  next
    case True
    then obtain e en where e: "map_of (items m) k = Some e" "elem_value m e = Some en" "now \<le> expiresAt en" by blast
    then have g: "Memory_Get now m k = (Inr (val en), m\<lparr>evictList := list_MoveToFront e (evictList m)\<rparr>)"
      by (simp add: Memory_Get_def toMemoryEntry_def)
    have "in_body get_object (now, k) ?c ?c (GFront e (val en))"
      using start e by (simp add: toMemoryEntry_def)
    then have front: "in_body get_object (now, k) ?c ?c (if nx p None = Some e then GDone (Inr (val en)) else GMove 0 e (val en))"
      by (rule body_step) simp_all
    show ?thesis
    proof (cases "nx p None = Some e")
      case True
      then show ?thesis using front g assms(2) front_ring [OF assms(2) True] by (intro exI [of _ p]) simp
    next
      case False
      have "e \<in> set (evictList m)" using mem_invD(6) [OF assms(1) e(1)] .
      then show ?thesis using get_moves [of "(now, k)" ?c m p e "val en"] front False g move_ring [OF assms(2) _ False]
        by (intro exI [of _ "link_front e (unlink e p)"]) simp
    qed
  qed
qed

section \<open>Two Gets at once\<close>

text \<open>Two bodies of the same call, interleaved: True is a step of the first, False one of the second.\<close>

fun interleave :: "get_call \<Rightarrow> bool list \<Rightarrow> linked_cache \<times> get_local \<times> get_local \<Rightarrow> linked_cache \<times> get_local \<times> get_local" where
  "interleave call [] s = s"
| "interleave call (True # bs) (c, l, l') = (case get_micro call c l of (c', k) \<Rightarrow> interleave call bs (c', k, l'))"
| "interleave call (False # bs) (c, l, l') = (case get_micro call c l' of (c', k) \<Rightarrow> interleave call bs (c', l, k))"

lemma body_or_done:
  assumes "rw_reachable get_object s0 c" "phase c t = Running call l" "get_micro call (shared c) l = (s, l')"
  shows "rw_reachable get_object s0 (c\<lparr>shared := s, phase := (phase c)(t := Running call l')\<rparr>)"
proof (cases "final get_object call l")
  case None
  then show ?thesis using reachable_step [OF assms(1) Body [OF assms(2) None]] assms(3) by simp
next
  case (Some r)
  then have "s = shared c" "l' = l" using assms(3) by (cases l; simp)+
  then have "c\<lparr>shared := s, phase := (phase c)(t := Running call l')\<rparr> = c" using assms(2) by (simp add: fun_upd_idem)
  then show ?thesis using assms(1) by simp
qed

lemma interleave_reachable:
  "rw_reachable get_object s0 c \<Longrightarrow> phase c 0 = Running call l \<Longrightarrow> phase c 1 = Running call l' \<Longrightarrow>
     interleave call bs (shared c, l, l') = (s, k, k') \<Longrightarrow>
     \<exists>c'. rw_reachable get_object s0 c' \<and> shared c' = s \<and> history c' = history c
       \<and> phase c' 0 = Running call k \<and> phase c' 1 = Running call k' \<and> (\<forall>t. t \<noteq> 0 \<and> t \<noteq> 1 \<longrightarrow> phase c' t = phase c t)"
proof (induction bs arbitrary: c l l')
  case Nil
  then show ?case by (intro exI [of _ c]) auto
next
  case (Cons b bs)
  show ?case
  proof (cases b)
    case True
    obtain s1 l1 where m: "get_micro call (shared c) l = (s1, l1)" by fastforce
    from Cons(1) [OF body_or_done [OF Cons(2,3) m], of l1 l'] show ?thesis
      using Cons(3-5) m True by auto
  next
    case False
    obtain s1 l1 where m: "get_micro call (shared c) l' = (s1, l1)" by fastforce
    from Cons(1) [OF body_or_done [OF Cons(2,4) m], of l l1] show ?thesis
      using Cons(3-5) m False by auto
  qed
qed

text \<open>Both calls have begun and hold the lock, which lets several readers in.\<close>

lemma both_running:
  "\<exists>c. rw_reachable get_object s0 c \<and> shared c = s0 \<and> history c = [] \<and> readers c = {0, 1}
     \<and> phase c = (\<lambda>_. Idle)(0 := Running call GStart, 1 := Running call GStart)"
proof -
  have "\<exists>c. rw_schedule get_object [Inl (0, call), Inr 0, Inl (1, call), Inr 1] (rw_init s0) = Some c
     \<and> shared c = s0 \<and> history c = [] \<and> readers c = {0, 1}
     \<and> phase c = (\<lambda>_. Idle)(0 := Running call GStart, 1 := Running call GStart)"
    by (auto simp: rw_init_def rw_work_def)
  then show ?thesis using rw_schedule_reachable [where c = "rw_init s0"] by blast
qed

lemma both_return:
  assumes "rw_reachable get_object s0 c" "phase c 0 = Running call (GDone r)" "phase c 1 = Running call (GDone r')"
    "\<forall>t. t \<noteq> 0 \<and> t \<noteq> 1 \<longrightarrow> phase c t = Idle"
  shows "\<exists>c'. rw_reachable get_object s0 c' \<and> shared c' = shared c \<and> history c' = history c @ [(call, r), (call, r')] \<and> phase c' = (\<lambda>_. Idle)"
proof -
  define c1 where "c1 = c\<lparr>readers := readers c - {0}, phase := (phase c)(0 := Idle), history := history c @ [(call, r)]\<rparr>"
  define c2 where "c2 = c1\<lparr>readers := readers c1 - {1}, phase := (phase c1)(1 := Idle), history := history c1 @ [(call, r')]\<rparr>"
  have w0: "rw_work get_object 0 c = Some c1" using assms(2) by (simp add: rw_work_def c1_def)
  have w1: "rw_work get_object 1 c1 = Some c2" using assms(3) by (simp add: rw_work_def c1_def c2_def)
  have "rw_reachable get_object s0 c2"
    by (rule reachable_step [OF reachable_step [OF assms(1) w0 [unfolded rw_work_iff]] w1 [unfolded rw_work_iff]])
  moreover have "phase c2 = (\<lambda>_. Idle)" using assms(4) by (auto simp: c1_def c2_def)
  moreover have "shared c2 = shared c" "history c2 = history c @ [(call, r), (call, r')]" by (simp_all add: c1_def c2_def)
  ultimately show ?thesis by blast
qed

text \<open>
  The first Get has unlinked the element and linked it back to the sentinel when the second one, which still thinks the
  element has its old place, unlinks it: the sentinel's next element is now the successor of the element.
\<close>

definition losing_order :: "bool list" where
  "losing_order = [True, False, True, True, True, True, False, False, True, False, False, False, True, True, False, False]"

lemma losing_order_result:
  assumes "map_of (items m) k = Some e" "elem_value m e = Some en" "now \<le> expiresAt en"
    and "nx p None \<noteq> Some e" "pv p (Some e) = Some l" "l \<noteq> e" "nx p (Some e) \<noteq> Some e"
  shows "\<exists>q. interleave (now, k) losing_order (\<lparr>cached = m, ptrs = p\<rparr>, GStart, GStart)
      = (\<lparr>cached = m, ptrs = q\<rparr>, GDone (Inr (val en)), GDone (Inr (val en)))
    \<and> nx q = (nx p)(Some l := nx p (Some e), None := Some e)
    \<and> pv q = (pv p)(nx p (Some e) := Some e, Some e := None)"
  using assms by (auto simp: losing_order_def toMemoryEntry_def move_step_def fun_eq_iff)

text \<open>
  C7 (error). Two Gets of one key, which is in the cache and has not expired, can be interleaved so that both return its
  value and leave the map untouched, while every entry that was used more recently than the key is gone
  from the list, where eviction would look for it.
\<close>

theorem concurrent_gets_lose_entries:
  assumes "mem_inv m" "ring p (evictList m)" "evictList m = before @ e # after" "before \<noteq> []"
    and "map_of (items m) k = Some e" "elem_value m e = Some en" "now \<le> expiresAt en"
  shows "\<exists>c. rw_reachable get_object \<lparr>cached = m, ptrs = p\<rparr> c \<and> phase c = (\<lambda>_. Idle)
    \<and> history c = [((now, k), Inr (val en)), ((now, k), Inr (val en))]
    \<and> cached (shared c) = m \<and> ring (ptrs (shared c)) (e # after)"
proof -
  let ?call = "(now, k)" and ?s = "\<lparr>cached = m, ptrs = p\<rparr>"
  have d: "distinct (before @ e # after)" and s: "segment p None before (Some e)" "segment p (Some e) after None"
    using assms(2,3) by (simp_all add: ring_def segment_append)
  have "nx p None \<noteq> Some e" using segment_first [OF s(1)] assms(4) d by (cases before) auto
  moreover have l: "pv p (Some e) = Some (last before)" using segment_last [OF s(1)] assms(4) by simp
  moreover have ne: "last before \<noteq> e" "last before \<notin> set after"
    using d last_in_set [OF assms(4)] by (auto simp del: last_in_set)
  moreover have "nx p (Some e) \<noteq> Some e" using segment_first [OF s(2)] d by (cases after) auto
  ultimately obtain q where q: "interleave ?call losing_order (?s, GStart, GStart)
      = (\<lparr>cached = m, ptrs = q\<rparr>, GDone (Inr (val en)), GDone (Inr (val en)))"
    "nx q = (nx p)(Some (last before) := nx p (Some e), None := Some e)"
    "pv q = (pv p)(nx p (Some e) := Some e, Some e := None)"
    using losing_order_result [OF assms(5-7)] by blast
  have "pv p (nx p (Some e)) = Some e" using s(2) by (cases after) auto
  then have "segment q (Some e) after None = segment p (Some e) after None"
    using d ne by (intro segment_cong) (auto simp: q(2,3))
  moreover have "nx p (Some e) \<noteq> Some e" by fact
  ultimately have ring: "ring q (e # after)" using d s(2) by (simp add: ring_def q(2,3))
  obtain c where c: "rw_reachable get_object ?s c" "shared c = ?s" "history c = []"
    "phase c = (\<lambda>_. Idle)(0 := Running ?call GStart, 1 := Running ?call GStart)"
    using both_running [of ?s ?call] by blast
  obtain c' where c': "rw_reachable get_object ?s c'" "shared c' = \<lparr>cached = m, ptrs = q\<rparr>" "history c' = []"
    "phase c' 0 = Running ?call (GDone (Inr (val en)))" "phase c' 1 = Running ?call (GDone (Inr (val en)))"
    "\<forall>t. t \<noteq> 0 \<and> t \<noteq> 1 \<longrightarrow> phase c' t = Idle"
    using interleave_reachable [OF c(1), of ?call GStart GStart losing_order] c(2-4) q(1) by auto
  show ?thesis using both_return [OF c'(1,4,5,6)] c'(2,3) ring by auto
qed

text \<open>A cache with three entries, the last one stored being the most recently used.\<close>

definition sample_memory :: Memory where
  "sample_memory = \<lparr>items = [(''a'', 0), (''b'', 1), (''c'', 2)], evictList = [2, 1, 0], maxSize = 3, stop_closed = False,
     elem_value = (\<lambda>_. None)(0 := Some \<lparr>key = ''a'', val = ''x'', expiresAt = 9\<rparr>,
       1 := Some \<lparr>key = ''b'', val = ''y'', expiresAt = 9\<rparr>, 2 := Some \<lparr>key = ''c'', val = ''z'', expiresAt = 9\<rparr>),
     next_elem = 3\<rparr>"

definition sample_links :: links where
  "sample_links = \<lparr>nx = (\<lambda>_. None)(None := Some 2, Some 2 := Some 1, Some 1 := Some 0),
     pv = (\<lambda>_. None)(None := Some 0, Some 0 := Some 1, Some 1 := Some 2)\<rparr>"

lemma sample_memory_ok: "mem_inv sample_memory" "ring sample_links (evictList sample_memory)"
  by (auto simp: mem_inv_def sample_memory_def sample_links_def ring_def map_ok_def split: if_splits)

theorem get_alone_witness:
  "\<exists>p'. in_body get_object (5, ''a'') \<lparr>cached = sample_memory, ptrs = sample_links\<rparr> \<lparr>cached = sample_memory, ptrs = p'\<rparr> (GDone (Inr ''x''))
     \<and> ring p' [0, 2, 1]"
  using get_alone [OF sample_memory_ok, of 5 "''a''"]
  by (simp add: Memory_Get_def toMemoryEntry_def list_MoveToFront_def sample_memory_def)

theorem concurrent_gets_lose_entries_witness:
  "\<exists>c. rw_reachable get_object \<lparr>cached = sample_memory, ptrs = sample_links\<rparr> c
     \<and> history c = [((5, ''a''), Inr ''x''), ((5, ''a''), Inr ''x'')] \<and> cached (shared c) = sample_memory
     \<and> ring (ptrs (shared c)) [0] \<and> evictList sample_memory = [2, 1, 0]"
proof -
  have e: "evictList sample_memory = [2, 1] @ 0 # []" "map_of (items sample_memory) ''a'' = Some 0"
    "elem_value sample_memory 0 = Some \<lparr>key = ''a'', val = ''x'', expiresAt = 9\<rparr>"
    by (simp_all add: sample_memory_def)
  show ?thesis using concurrent_gets_lose_entries [OF sample_memory_ok e(1) _ e(2,3), of 5] e(1) by auto
qed

end
