(* ===== verification/UrlQuery.thy ===== *)
theory UrlQuery
  imports Utils "HOL-Library.Char_ord" "HOL-Library.List_Lexorder"
begin

text \<open>
  Function GetURLWithParams of package urlutil (src/utils/urlutil/urlutil.go) with the query values of the
  standard package net/url: escaping, parsing and encoding of queries. Splitting a URL into its parts
  and putting them together again is a parameter, as is the printed form of a parameter's value.
  The query of the new URL holds each parameter with its value and every other value of the old query.
\<close>

section \<open>Query components\<close>

definition query_char :: "char \<Rightarrow> bool" where
  "query_char c \<longleftrightarrow> (let n = byte c in
     (48 \<le> n \<and> n \<le> 57) \<or> (65 \<le> n \<and> n \<le> 90) \<or> (97 \<le> n \<and> n \<le> 122)) \<or> c \<in> set ''-_.~''"

definition escape_query_char :: "char \<Rightarrow> string" where
  "escape_query_char c =
     (if query_char c then [c]
      else if c = CHR '' '' then ''+''
      else [CHR ''%'', upper_hex (byte c div 16), upper_hex (byte c mod 16)])"

definition QueryEscape :: "string \<Rightarrow> string" where
  "QueryEscape s = concat (map escape_query_char s)"

text \<open>A percent sign without two hexadecimal digits makes the component malformed (None).\<close>

fun QueryUnescape :: "string \<Rightarrow> string option" where
  "QueryUnescape [] = Some []"
| "QueryUnescape (c # s) =
     (if c = CHR ''%'' then
        (case s of
           a # b # t \<Rightarrow>
             (case (hex_value a, hex_value b) of
                (Some x, Some y) \<Rightarrow> map_option (\<lambda>r. char_of (x * 16 + y) # r) (QueryUnescape t)
              | _ \<Rightarrow> None)
         | _ \<Rightarrow> None)
      else map_option (\<lambda>r. (if c = CHR ''+'' then CHR '' '' else c) # r) (QueryUnescape s))"

section \<open>Query values\<close>

type_synonym url_values = "(string, string list) gomap"

definition Values_Set :: "string \<Rightarrow> string \<Rightarrow> url_values \<Rightarrow> url_values" where
  "Values_Set k v m = map_put k [v] m"

definition Values_Add :: "string \<Rightarrow> string \<Rightarrow> url_values \<Rightarrow> url_values" where
  "Values_Add k v m = map_put k ((case map_of m k of None \<Rightarrow> [] | Some vs \<Rightarrow> vs) @ [v]) m"

text \<open>\<open>strings.Cut\<close> at a byte: what is before it and what is after it.\<close>

fun Cut :: "char \<Rightarrow> string \<Rightarrow> string \<times> string" where
  "Cut sep [] = ([], [])"
| "Cut sep (c # s) = (if c = sep then ([], s) else (case Cut sep s of (a, b) \<Rightarrow> (c # a, b)))"

definition parse_pair :: "string \<Rightarrow> (string \<times> string) option" where
  "parse_pair part =
     (if CHR '';'' \<in> set part \<or> part = [] then None
      else (case Cut CHR ''='' part of (k, v) \<Rightarrow>
        (case (QueryUnescape k, QueryUnescape v) of (Some k, Some v) \<Rightarrow> Some (k, v) | _ \<Rightarrow> None)))"

lemma Cut_length: "length (snd (Cut sep s)) \<le> length s"
  by (induction s) (auto split: prod.split)

lemma Cut_shorter: "s \<noteq> [] \<Longrightarrow> length (snd (Cut sep s)) < length s"
  using Cut_length [of sep "tl s"] by (cases s) (auto split: prod.split)

lemma Cut_rest: "(part, rest) = Cut sep s \<Longrightarrow> s \<noteq> [] \<Longrightarrow> length rest < length s"
  using Cut_shorter [of s sep] by (metis snd_conv)

text \<open>\<open>parseQuery\<close>: malformed parts are skipped; \<open>URL.Query\<close> ignores the error they leave.\<close>

function parseQuery :: "string \<Rightarrow> url_values \<Rightarrow> url_values" where
  "parseQuery query m =
     (if query = [] then m
      else (case Cut CHR ''&'' query of (part, rest) \<Rightarrow>
        parseQuery rest (case parse_pair part of None \<Rightarrow> m | Some (k, v) \<Rightarrow> Values_Add k v m)))"
  by pat_completeness auto
termination
  by (relation "measure (length \<circ> fst)") (auto dest: Cut_rest)

declare parseQuery.simps [simp del]

text \<open>A query of more than ten thousand parts is refused, which leaves no values.\<close>

definition URL_Query :: "string \<Rightarrow> url_values" where
  "URL_Query raw = (if count_list raw CHR ''&'' + 1 \<le> 10000 then parseQuery raw [] else [])"

text \<open>\<open>Values.Encode\<close>: the keys in order, each with all its values.\<close>

definition encode_pair :: "string \<times> string \<Rightarrow> string" where
  "encode_pair kv = QueryEscape (fst kv) @ CHR ''='' # QueryEscape (snd kv)"

definition value_pairs :: "url_values \<Rightarrow> (string \<times> string) list" where
  "value_pairs m = concat (map (\<lambda>(k, vs). map (Pair k) vs) (sort_key fst m))"

fun join_amp :: "string list \<Rightarrow> string" where
  "join_amp [] = []"
| "join_amp [p] = p"
| "join_amp (p # q # ps) = p @ CHR ''&'' # join_amp (q # ps)"

definition Values_Encode :: "url_values \<Rightarrow> string" where
  "Values_Encode m = join_amp (map encode_pair (value_pairs m))"

section \<open>GetURLWithParams\<close>

text \<open>A parsed URL: its query and its other parts. The library splits a URL and prints one.\<close>

record 'u URL =
  RawQuery :: string
  url_parts :: 'u

record 'u url_lib =
  url_Parse :: "string \<Rightarrow> 'u URL res"
  URL_String :: "'u URL \<Rightarrow> string"

text \<open>\<open>order\<close> is the order in which the loop meets the keys, \<open>Sprint\<close> the format \<open>%v\<close>.\<close>

definition set_params :: "('v \<Rightarrow> string) \<Rightarrow> (string, 'v) gomap \<Rightarrow> string list \<Rightarrow> url_values \<Rightarrow> url_values" where
  "set_params Sprint params order query =
     foldl (\<lambda>q k. case map_of params k of None \<Rightarrow> q | Some v \<Rightarrow> Values_Set k (Sprint v) q) query order"

definition GetURLWithParams ::
  "'u url_lib \<Rightarrow> ('v \<Rightarrow> string) \<Rightarrow> string list \<Rightarrow> string \<Rightarrow> (string, 'v) gomap \<Rightarrow> string res" where
  "GetURLWithParams lib Sprint order baseURL params =
     (if params = [] then Inr baseURL
      else (case url_Parse lib baseURL of
        Inl e \<Rightarrow> Inl (wrapped e ''failed to parse base URL'')
      | Inr parsedURL \<Rightarrow>
          (let query = set_params Sprint params order (URL_Query (RawQuery parsedURL))
           in Inr (URL_String lib (parsedURL\<lparr>RawQuery := Values_Encode query\<rparr>)))))"

section \<open>What was escaped comes back\<close>

lemma hex_value_upper: "d < 16 \<Longrightarrow> hex_value (upper_hex d) = Some d"
  by (auto simp: hex_value_def upper_hex_def Let_def)

lemma query_char_plain: "query_char c \<Longrightarrow> c \<notin> {CHR ''%'', CHR ''+'', CHR ''&'', CHR '';'', CHR ''=''}"
  by (auto simp: query_char_def Let_def)

lemma upper_hex_query_char: "d < 16 \<Longrightarrow> query_char (upper_hex d)"
  by (auto simp: query_char_def upper_hex_def Let_def)

lemma byte_halves: "byte c div 16 < 16" "char_of (byte c div 16 * 16 + byte c mod 16) = c"
  using less_mult_imp_div_less [of "byte c" 16 16] by (simp_all only: div_mult_mod_eq) simp_all

lemma Unescape_char: "QueryUnescape (escape_query_char c @ s) = map_option (Cons c) (QueryUnescape s)"
proof (cases "query_char c")
  case True
  then show ?thesis using query_char_plain [OF True] by (auto simp: escape_query_char_def)
next
  case False
  then show ?thesis using byte_halves [of c] by (simp add: escape_query_char_def hex_value_upper)
qed

lemma Unescape_Escape [simp]: "QueryUnescape (QueryEscape s) = Some s"
  by (induction s) (simp_all add: QueryEscape_def Unescape_char)

lemma Escape_plain: "c \<in> set (QueryEscape s) \<Longrightarrow> c \<notin> {CHR ''&'', CHR '';'', CHR ''=''}"
proof -
  have "c \<in> set (escape_query_char d) \<Longrightarrow> c \<notin> {CHR ''&'', CHR '';'', CHR ''=''}" for d
    using query_char_plain [of c] upper_hex_query_char [of "byte d div 16"] upper_hex_query_char [of "byte d mod 16"]
      byte_halves(1) [of d]
    by (auto simp: escape_query_char_def split: if_splits)
  then show "c \<in> set (QueryEscape s) \<Longrightarrow> c \<notin> {CHR ''&'', CHR '';'', CHR ''=''}"
    by (auto simp: QueryEscape_def)
qed

lemma Cut_found: "sep \<notin> set a \<Longrightarrow> Cut sep (a @ sep # b) = (a, b)"
  by (induction a) auto

lemma Cut_none: "sep \<notin> set a \<Longrightarrow> Cut sep a = (a, [])"
  by (induction a) auto

lemma encode_pair_plain: "CHR ''&'' \<notin> set (encode_pair kv)" "CHR '';'' \<notin> set (encode_pair kv)" "encode_pair kv \<noteq> []"
  using Escape_plain by (fastforce simp: encode_pair_def)+

lemma parse_encode_pair: "parse_pair (encode_pair kv) = Some kv"
proof -
  have "CHR ''='' \<notin> set (QueryEscape (fst kv))" using Escape_plain by blast
  then show ?thesis using encode_pair_plain [of kv] by (simp add: parse_pair_def encode_pair_def Cut_found)
qed

lemma parseQuery_join:
  "parseQuery (join_amp (map encode_pair kvs)) m = foldl (\<lambda>m (k, v). Values_Add k v m) m kvs"
proof (induction "map encode_pair kvs" arbitrary: kvs m rule: join_amp.induct)
  case 1
  then show ?case by (simp add: parseQuery.simps)
next
  case (2 p)
  then obtain kv where "kvs = [kv]" by (cases kvs) auto
  then show ?case using encode_pair_plain [of kv]
    by (cases kv) (simp add: parseQuery.simps [of "encode_pair _"] parseQuery.simps [of "[]"] Cut_none parse_encode_pair)
next
  case (3 p q ps)
  then obtain kv kw rest where kvs: "kvs = kv # kw # rest" by (cases kvs; cases "tl kvs") auto
  then have "Cut CHR ''&'' (join_amp (map encode_pair kvs)) = (encode_pair kv, join_amp (map encode_pair (kw # rest)))"
    using encode_pair_plain [of kv] by (simp add: Cut_found)
  moreover have "join_amp (map encode_pair kvs) \<noteq> []" using kvs by simp
  ultimately have "parseQuery (join_amp (map encode_pair kvs)) m
      = parseQuery (join_amp (map encode_pair (kw # rest))) (case kv of (k, v) \<Rightarrow> Values_Add k v m)"
    by (subst parseQuery.simps) (simp add: parse_encode_pair split: prod.split)
  also have "\<dots> = foldl (\<lambda>m (k, v). Values_Add k v m) (case kv of (k, v) \<Rightarrow> Values_Add k v m) (kw # rest)"
    by (rule 3(1)) (use 3(2) kvs in auto)
  finally show ?case using kvs by simp
qed

section \<open>Values of a query\<close>

definition values_ok :: "url_values \<Rightarrow> bool" where
  "values_ok m \<longleftrightarrow> map_ok m \<and> (\<forall>(k, vs)\<in>set m. vs \<noteq> [])"

lemma values_ok_lookup: "values_ok m \<Longrightarrow> map_of m k \<noteq> Some []"
  using map_of_SomeD [of m k "[]"] by (auto simp: values_ok_def)

lemma set_map_put: "set (map_put k v m) \<subseteq> insert (k, v) (set m)"
  by (induction k v m rule: map_put.induct) auto

lemma values_ok_put: "values_ok m \<Longrightarrow> vs \<noteq> [] \<Longrightarrow> values_ok (map_put k vs m)"
  using set_map_put [of k vs m] by (auto simp: values_ok_def)

lemma values_ok_parse: "values_ok m \<Longrightarrow> values_ok (parseQuery q m)"
proof (induction q m rule: parseQuery.induct)
  case (1 q m)
  show ?case
  proof (cases "q = []")
    case False
    obtain part rest where c: "Cut CHR ''&'' q = (part, rest)" by fastforce
    have "values_ok (case parse_pair part of None \<Rightarrow> m | Some (k, v) \<Rightarrow> Values_Add k v m)"
      using 1(2) by (auto simp: Values_Add_def values_ok_put split: option.split)
    from 1(1) [OF False c [symmetric] this] show ?thesis using False c by (subst parseQuery.simps) simp
  qed (use 1 in \<open>simp add: parseQuery.simps [of "[]"]\<close>)
qed

lemma values_ok_Query: "values_ok (URL_Query raw)"
  using values_ok_parse [of "[]" raw] by (simp add: URL_Query_def values_ok_def)

definition values_of :: "(string \<times> string) list \<Rightarrow> string \<Rightarrow> string list" where
  "values_of kvs k = map snd (filter (\<lambda>kv. fst kv = k) kvs)"

lemma map_of_adds:
  "map_of (foldl (\<lambda>m (k, v). Values_Add k v m) m kvs) k =
     (if values_of kvs k = [] then map_of m k
      else Some ((case map_of m k of None \<Rightarrow> [] | Some vs \<Rightarrow> vs) @ values_of kvs k))"
  by (induction kvs arbitrary: m) (auto simp: values_of_def Values_Add_def split: option.split)

lemma values_of_pairs:
  assumes "distinct (map fst m)"
  shows "values_of (concat (map (\<lambda>(k, vs). map (Pair k) vs) m)) k = (case map_of m k of None \<Rightarrow> [] | Some vs \<Rightarrow> vs)"
  using assms
proof (induction m)
  case (Cons p m)
  obtain k' vs where p: "p = (k', vs)" by fastforce
  have own: "values_of (map (Pair k') vs @ r) k = (if k' = k then vs else []) @ values_of r k" for r
    by (auto simp: values_of_def filter_map comp_def)
  have "k' \<notin> fst ` set m" using Cons.prems p by simp
  then have "map_of m k' = None" by (simp add: map_of_eq_None_iff)
  then show ?case using Cons own p by (auto split: option.split)
qed (simp add: values_of_def)

lemma map_ok_sorted: "map_ok m \<Longrightarrow> distinct (map fst (sort_key fst m))"
  by (simp add: map_ok_def distinct_map)

lemma map_of_sorted: "map_ok m \<Longrightarrow> map_of (sort_key fst m) = map_of m"
  using map_ok_sorted [of m] by (auto simp: map_ok_def intro!: map_of_inject_set [THEN iffD2])

lemma Query_Encode:
  assumes "values_ok m" "count_list (Values_Encode m) CHR ''&'' < 10000"
  shows "map_of (URL_Query (Values_Encode m)) = map_of m"
proof
  fix k
  have ok: "map_ok m" using assms(1) by (simp add: values_ok_def)
  have "values_of (value_pairs m) k = (case map_of m k of None \<Rightarrow> [] | Some vs \<Rightarrow> vs)"
    unfolding value_pairs_def using values_of_pairs [OF map_ok_sorted [OF ok]] by (simp add: map_of_sorted [OF ok])
  then show "map_of (URL_Query (Values_Encode m)) k = map_of m k"
    using assms values_ok_lookup [OF assms(1), of k]
    by (auto simp: URL_Query_def Values_Encode_def parseQuery_join map_of_adds split: option.splits)
qed

text \<open>Encoding depends on the values only, not on how the map is laid out.\<close>

lemma Encode_cong:
  assumes "map_ok m" "map_ok m'" "map_of m = map_of m'"
  shows "Values_Encode m = Values_Encode m'"
proof -
  have "set m = set m'" using assms map_of_inject_set [of m m'] by (simp add: map_ok_def)
  then have "sort_key fst m = sort_key fst m'"
    using map_ok_sorted [OF assms(1)] map_ok_sorted [OF assms(2)]
    by (intro map_sorted_distinct_set_unique [where f = fst]) (auto simp: inj_on_def distinct_map)
  then show ?thesis by (simp add: Values_Encode_def value_pairs_def)
qed

lemma values_ok_params: "values_ok q \<Longrightarrow> values_ok (set_params Sprint params order q)"
  unfolding set_params_def
  by (induction order arbitrary: q) (auto simp: Values_Set_def values_ok_put split: option.split)

lemma map_of_params:
  "map_of (set_params Sprint params order q) k =
     (if k \<in> set order \<and> map_of params k \<noteq> None then Some [Sprint (the (map_of params k))] else map_of q k)"
  unfolding set_params_def
  by (induction order arbitrary: q) (auto simp: Values_Set_def split: option.split)

lemma map_of_all_params:
  assumes "map_order params order"
  shows "map_of (set_params Sprint params order q) = map_of q ++ map_of (map (\<lambda>(k, v). (k, [Sprint v])) params)"
proof
  fix k
  have p: "map_of (map (\<lambda>(k, v). (k, [Sprint v])) params) k = map_option (\<lambda>v. [Sprint v]) (map_of params k)"
    by (simp add: map_of_map)
  have "map_of params k \<noteq> None \<Longrightarrow> k \<in> set order"
    using assms by (auto simp: map_order_def map_of_eq_None_iff)
  then show "map_of (set_params Sprint params order q) k = (map_of q ++ map_of (map (\<lambda>(k, v). (k, [Sprint v])) params)) k"
    by (auto simp: map_of_params map_add_def p split: option.split)
qed

text \<open>
  C38 (roundtrip). With parameters given, the new URL is the old one with a new query, which does not depend
  on the order in which the loop meets the parameters. Read back, this query, unless it is too long to
  be read, has each parameter with its printed value alone, and the old values of every other key.
\<close>

theorem params_roundtrip:
  assumes "params \<noteq> []" "map_order params order" "url_Parse lib baseURL = Inr u"
  shows "\<exists>q. (\<forall>order'. map_order params order' \<longrightarrow>
             GetURLWithParams lib Sprint order' baseURL params = Inr (URL_String lib (u\<lparr>RawQuery := q\<rparr>)))
    \<and> (count_list q CHR ''&'' < 10000 \<longrightarrow>
         map_of (URL_Query q) = map_of (URL_Query (RawQuery u)) ++ map_of (map (\<lambda>(k, v). (k, [Sprint v])) params))"
proof -
  let ?new = "\<lambda>order. set_params Sprint params order (URL_Query (RawQuery u))"
  let ?q = "Values_Encode (?new order)"
  have ok: "values_ok (?new order')" for order' by (rule values_ok_params [OF values_ok_Query])
  then have "Values_Encode (?new order') = ?q" if "map_order params order'" for order'
    using map_of_all_params [OF that, of Sprint] map_of_all_params [OF assms(2), of Sprint]
    by (intro Encode_cong) (auto simp: values_ok_def)
  then have "\<forall>order'. map_order params order' \<longrightarrow>
      GetURLWithParams lib Sprint order' baseURL params = Inr (URL_String lib (u\<lparr>RawQuery := ?q\<rparr>))"
    using assms(1,3) by (simp add: GetURLWithParams_def)
  moreover have "count_list ?q CHR ''&'' < 10000 \<longrightarrow>
      map_of (URL_Query ?q) = map_of (URL_Query (RawQuery u)) ++ map_of (map (\<lambda>(k, v). (k, [Sprint v])) params)"
    using Query_Encode [OF ok] map_of_all_params [OF assms(2)] by simp
  ultimately show ?thesis by blast
qed

text \<open>A library for URLs without a fragment: the query starts at the first question mark.\<close>

definition sample_url_lib :: "string url_lib" where
  "sample_url_lib = \<lparr>url_Parse = (\<lambda>s. case Cut CHR ''?'' s of (a, b) \<Rightarrow> Inr \<lparr>RawQuery = b, url_parts = a\<rparr>),
     URL_String = (\<lambda>u. url_parts u @ ''?'' @ RawQuery u)\<rparr>"

theorem params_roundtrip_witness:
  "\<exists>q. GetURLWithParams sample_url_lib id [''n'', ''a''] ''http://h/p?a=1&b=2'' [(''a'', ''x y''), (''n'', ''&'')] = Inr (''http://h/p?'' @ q)
    \<and> q = ''a=x+y&b=2&n=%26'' \<and> map_of (URL_Query q) ''b'' = Some [''2''] \<and> map_of (URL_Query q) ''a'' = Some [''x y'']"
proof -
  let ?params = "[(''a'', ''x y''), (''n'', ''&'')]"
  have o: "map_order ?params [''n'', ''a'']" by code_simp
  have p: "url_Parse sample_url_lib ''http://h/p?a=1&b=2'' = Inr \<lparr>RawQuery = ''a=1&b=2'', url_parts = ''http://h/p''\<rparr>"
    by code_simp
  have g: "GetURLWithParams sample_url_lib id [''n'', ''a''] ''http://h/p?a=1&b=2'' ?params = Inr ''http://h/p?a=x+y&b=2&n=%26''"
    by code_simp
  have old: "map_of (URL_Query ''a=1&b=2'') ''b'' = Some [''2'']" by code_simp
  obtain q where q: "GetURLWithParams sample_url_lib id [''n'', ''a''] ''http://h/p?a=1&b=2'' ?params = Inr (''http://h/p?'' @ q)"
    and r: "count_list q CHR ''&'' < 10000 \<longrightarrow>
       map_of (URL_Query q) = map_of (URL_Query ''a=1&b=2'') ++ map_of (map (\<lambda>(k, v). (k, [id v])) ?params)"
    using params_roundtrip [OF _ o p, of id] o by (auto simp: sample_url_lib_def)
  have "q = ''a=x+y&b=2&n=%26''" using q g by simp
  then show ?thesis using q r old by (auto simp: map_add_def)
qed

end
