(* ===== verification/Base64.thy ===== *)
theory Base64
  imports Utf8 CtxErrors
begin

text \<open>
  The standard encoding of the Go package encoding/base64, as packages fileutil and cryptoutil use it:
  EncodeToString and DecodeString, the latter with the positions its errors report. The decoder
  skips line feeds and carriage returns anywhere. Decoding gives back what was encoded,
  also after line breaks have been put into the text.
\<close>

section \<open>Encoding\<close>

definition b64_char :: "nat \<Rightarrow> char" where
  "b64_char v = char_of (if v < 26 then 65 + v else if v < 52 then 71 + v else if v < 62 then v - 4
     else if v = 62 then 43 else 47)"

fun EncodeToString :: "string \<Rightarrow> string" where
  "EncodeToString [] = []"
| "EncodeToString [a] = [b64_char (byte a div 4), b64_char (byte a mod 4 * 16), CHR ''='', CHR ''='']"
| "EncodeToString [a, b] =
     [b64_char (byte a div 4), b64_char (byte a mod 4 * 16 + byte b div 16), b64_char (byte b mod 16 * 4), CHR ''='']"
| "EncodeToString (a # b # c # s) =
     [b64_char (byte a div 4), b64_char (byte a mod 4 * 16 + byte b div 16),
      b64_char (byte b mod 16 * 4 + byte c div 64), b64_char (byte c mod 64)] @ EncodeToString s"

section \<open>Decoding\<close>

definition b64_value :: "char \<Rightarrow> nat option" where
  "b64_value c = (let n = byte c in
     if 65 \<le> n \<and> n \<le> 90 then Some (n - 65)
     else if 97 \<le> n \<and> n \<le> 122 then Some (n - 71)
     else if 48 \<le> n \<and> n \<le> 57 then Some (n + 4)
     else if n = 43 then Some 62 else if n = 47 then Some 63 else None)"

definition line_break :: "char \<Rightarrow> bool" where
  "line_break c \<longleftrightarrow> byte c = 10 \<or> byte c = 13"

abbreviation CorruptInputError :: "nat \<Rightarrow> go_error" where
  "CorruptInputError i \<equiv> TypedError ''base64.CorruptInputError'' (int i)"

text \<open>
  \<open>decodeQuantum\<close> on the rest of an input of n bytes: up to four digits and what follows them. A text that
  ends within the four digits is corrupt. Padding ends the input.
\<close>

definition trailing :: "nat \<Rightarrow> nat list \<Rightarrow> string \<Rightarrow> (nat list \<times> string) res" where
  "trailing n js s = (let r = dropWhile line_break s in
     if r \<noteq> [] then Inl (CorruptInputError (n - length r)) else Inr (js, []))"

definition padding :: "nat \<Rightarrow> nat list \<Rightarrow> string \<Rightarrow> (nat list \<times> string) res" where
  "padding n js s =
     (if length js < 2 then Inl (CorruptInputError (n - length s - 1))
      else if length js = 2 then
        (case dropWhile line_break s of
           [] \<Rightarrow> Inl (CorruptInputError n)
         | d # r \<Rightarrow> if d \<noteq> CHR ''='' then Inl (CorruptInputError (n - length r - 2)) else trailing n js r)
      else trailing n js s)"

fun decodeQuantum :: "nat \<Rightarrow> nat list \<Rightarrow> string \<Rightarrow> (nat list \<times> string) res" where
  "decodeQuantum n js [] =
     (if length js = 4 then Inr (js, [])
      else if js = [] then Inr ([], []) else Inl (CorruptInputError (n - length js)))"
| "decodeQuantum n js (c # s) =
     (if length js = 4 then Inr (js, c # s)
      else (case b64_value c of
        Some v \<Rightarrow> decodeQuantum n (js @ [v]) s
      | None \<Rightarrow>
          if line_break c then decodeQuantum n js s
          else if c \<noteq> CHR ''='' then Inl (CorruptInputError (n - length s - 1))
          else padding n js s))"

definition quantum_bytes :: "nat list \<Rightarrow> string" where
  "quantum_bytes js =
     (let d = (\<lambda>i. if i < length js then js ! i else 0);
          val = d 0 * 262144 + d 1 * 4096 + d 2 * 64 + d 3
      in take (length js - 1) [char_of (val div 65536), char_of (val div 256 mod 256), char_of (val mod 256)])"

lemma padding_rest: "padding n js s = Inr (ks, r) \<Longrightarrow> r = []"
  by (auto simp: padding_def trailing_def Let_def split: if_splits list.splits)

lemma decodeQuantum_shorter:
  "decodeQuantum n js s = Inr (ks, r) \<Longrightarrow> length r \<le> length s \<and> (length js < 4 \<and> s \<noteq> [] \<longrightarrow> length r < length s)"
proof (induction n js s rule: decodeQuantum.induct)
  case (2 n js c s)
  show ?case
  proof (cases "length js = 4")
    case False
    then show ?thesis
    proof (cases "b64_value c")
      case None
      then show ?thesis using 2 False padding_rest by (fastforce split: if_splits)
    next
      case (Some v)
      then show ?thesis using 2(2) [OF False Some] 2(3) False by auto
    qed
  qed (use 2 in auto)
qed (auto split: if_splits)

function decode_loop :: "nat \<Rightarrow> string \<Rightarrow> string res" where
  "decode_loop n s =
     (if s = [] then Inr []
      else (case decodeQuantum n [] s of
        Inl e \<Rightarrow> Inl e
      | Inr (js, r) \<Rightarrow> (case decode_loop n r of
          Inl e \<Rightarrow> Inl e
        | Inr out \<Rightarrow> Inr (quantum_bytes js @ out))))"
  by pat_completeness auto
termination
  by (relation "measure (\<lambda>(n, s). length s)") (auto dest: decodeQuantum_shorter)

declare decode_loop.simps [simp del]

definition DecodeString :: "string \<Rightarrow> string res" where
  "DecodeString s = decode_loop (length s) s"

section \<open>Decoding an encoded text\<close>

lemma b64_value_char [simp]: "v < 64 \<Longrightarrow> b64_value (b64_char v) = Some v"
  by (auto simp: b64_value_def b64_char_def Let_def)

lemma b64_value_pad [simp]: "b64_value CHR ''='' = None" "\<not> line_break CHR ''=''"
  by (simp_all add: b64_value_def line_break_def)

lemma line_break_value [simp]: "line_break c \<Longrightarrow> b64_value c = None"
  by (auto simp: b64_value_def line_break_def Let_def)

text \<open>Line breaks do not change what is decoded.\<close>

abbreviation unbroken :: "string \<Rightarrow> string" where
  "unbroken s \<equiv> filter (\<lambda>c. \<not> line_break c) s"

lemma dropWhile_all_breaks: "dropWhile line_break s = [] \<longleftrightarrow> unbroken s = []"
  by (induction s) auto

lemma dropWhile_next: "unbroken s = d # t \<Longrightarrow> \<exists>r. dropWhile line_break s = d # r \<and> unbroken r = t"
  by (induction s) (auto split: if_splits)

lemma trailing_unbroken: "trailing n js (unbroken s) = Inr q \<Longrightarrow> trailing m js s = Inr q"
  by (simp add: trailing_def Let_def dropWhile_all_breaks split: if_splits)

lemma padding_unbroken: 
  assumes "padding n js (unbroken s) = Inr q"
  shows "padding m js s = Inr q"
proof (cases "length js = 2")
  case True
  have d: "dropWhile line_break (unbroken s) = unbroken s" by (induction s) auto
  then obtain t where t: "unbroken s = CHR ''='' # t" "trailing n js t = Inr q"
    using assms True by (auto simp: padding_def split: list.splits if_splits)
  then obtain r where "dropWhile line_break s = CHR ''='' # r" "unbroken r = t"
    using dropWhile_next [OF t(1)] by auto
  then show ?thesis using t(2) True trailing_unbroken [of n js r q m] by (simp add: padding_def)
next
  case False
  then show ?thesis using assms trailing_unbroken [of n js s q m] by (simp add: padding_def split: if_splits)
qed

lemma decodeQuantum_unbroken:
  "decodeQuantum n js (unbroken s) = Inr (ks, t) \<Longrightarrow> length js \<le> 4 \<Longrightarrow>
     \<exists>r. decodeQuantum m js s = Inr (ks, r) \<and> unbroken r = t"
proof (induction s arbitrary: js)
  case (Cons c s)
  show ?case
  proof (cases "length js = 4")
    case True
    then show ?thesis using Cons(2) by (cases "unbroken (c # s)") auto
  next
    case False
    then have less: "length js < 4" using Cons(3) by simp
    show ?thesis
    proof (cases "b64_value c")
      case None
      show ?thesis
      proof (cases "line_break c")
        case True
        then show ?thesis using Cons None less by simp
      next
        case False
        then have p: "padding n js (unbroken s) = Inr (ks, t)" "c = CHR ''=''"
          using Cons(2) None less by (simp_all split: if_splits)
        then show ?thesis using padding_unbroken [OF p(1), of m] padding_rest [OF p(1)] less by simp
      qed
    next
      case (Some v)
      then have "\<not> line_break c" by auto
      then show ?thesis using Cons(1) [of "js @ [v]"] Cons(2) Some less by simp
    qed
  qed
qed (auto split: if_splits)

lemma decode_loop_Nil [simp]: "decode_loop n [] = Inr []"
  by (simp add: decode_loop.simps [of n "[]"])

lemma quantum_bytes_Nil [simp]: "quantum_bytes [] = []"
  by (simp add: quantum_bytes_def)

text \<open>One turn of the loop; it also describes an empty rest, which decodes to no digits.\<close>

lemma decode_loop_Inr_iff:
  "decode_loop n s = Inr out \<longleftrightarrow>
     (\<exists>js r rest. decodeQuantum n [] s = Inr (js, r) \<and> decode_loop n r = Inr rest \<and> out = quantum_bytes js @ rest)"
proof (cases "s = []")
  case False
  then show ?thesis by (subst decode_loop.simps) (auto split: sum.splits)
qed auto

lemma decode_loop_unbroken: "decode_loop n (unbroken s) = Inr out \<Longrightarrow> decode_loop m s = Inr out"
proof (induction "length s" arbitrary: s out rule: less_induct)
  case less
  show ?case
  proof (cases "s = []")
    case True
    then show ?thesis using less(2) by simp
  next
    case False
    obtain js t rest where q: "decodeQuantum n [] (unbroken s) = Inr (js, t)" "decode_loop n t = Inr rest"
      and out: "out = quantum_bytes js @ rest" using less(2) by (auto simp: decode_loop_Inr_iff [of n "unbroken s"])
    obtain r where r: "decodeQuantum m [] s = Inr (js, r)" "unbroken r = t"
      using decodeQuantum_unbroken [OF q(1), of m] by auto
    have "length r < length s" using decodeQuantum_shorter [OF r(1)] False by simp
    then have "decode_loop m r = Inr rest" using less(1) [of r rest] q(2) r(2) by simp
    then show ?thesis using r(1) out decode_loop_Inr_iff [of m s out] by simp
  qed
qed

text \<open>The digits of up to three bytes, and the bytes of these digits.\<close>

lemma byte_digits: 
  fixes a b c :: nat
  assumes "a < 256" "b < 256" "c < 256"
  shows "a div 4 < 64" "a mod 4 * 16 + b div 16 < 64" "b mod 16 * 4 + c div 64 < 64" "c mod 64 < 64"
  using assms div_mult_mod_eq [of a 4] div_mult_mod_eq [of b 16] div_mult_mod_eq [of c 64]
    mod_less_divisor [of 4 a] mod_less_divisor [of 16 b] mod_less_divisor [of 64 c]
  by linarith+

lemma digits_value:
  fixes a b c :: nat
  shows "a div 4 * 262144 + (a mod 4 * 16 + b div 16) * 4096 + (b mod 16 * 4 + c div 64) * 64 + c mod 64
    = a * 65536 + b * 256 + c"
proof -
  have "a * 65536 + b * 256 + c
      = (a div 4 * 4 + a mod 4) * 65536 + (b div 16 * 16 + b mod 16) * 256 + (c div 64 * 64 + c mod 64)"
    by (simp only: div_mult_mod_eq)
  also have "\<dots> = a div 4 * 262144 + (a mod 4 * 16 + b div 16) * 4096 + (b mod 16 * 4 + c div 64) * 64 + c mod 64"
    by (simp only: distrib_right mult.assoc)
  finally show ?thesis by (rule sym)
qed

lemma digits_bytes:
  fixes a b c :: nat
  assumes "b < 256" "c < 256"
  shows "(a * 65536 + b * 256 + c) div 65536 = a" "(a * 65536 + b * 256 + c) div 256 mod 256 = b"
    "(a * 65536 + b * 256 + c) mod 256 = c"
proof -
  have n: "a * 65536 + b * 256 + c = c + (b + a * 256) * 256" by simp
  have d: "(a * 65536 + b * 256 + c) div 256 = b + a * 256"
    unfolding n using assms div_mult_self1 [of 256 c "b + a * 256"] by simp
  show "(a * 65536 + b * 256 + c) mod 256 = c"
    unfolding n mod_mult_self1 using assms by simp
  show "(a * 65536 + b * 256 + c) div 256 mod 256 = b" unfolding d mod_mult_self1 using assms by simp
  have "(a * 65536 + b * 256 + c) div (256 * 256) = (b + a * 256) div 256" by (simp only: div_mult2_eq d)
  also have "\<dots> = a" using assms div_mult_self1 [of 256 b a] by simp
  finally show "(a * 65536 + b * 256 + c) div 65536 = a" by simp
qed

lemma quantum_bytes_simps:
  "w * 262144 + x * 4096 + y * 64 + z = v \<Longrightarrow>
     quantum_bytes [w, x, y, z] = [char_of (v div 65536), char_of (v div 256 mod 256), char_of (v mod 256)]"
  "w * 262144 + x * 4096 + y * 64 = v \<Longrightarrow> quantum_bytes [w, x, y] = [char_of (v div 65536), char_of (v div 256 mod 256)]"
  "w * 262144 + x * 4096 = v \<Longrightarrow> quantum_bytes [w, x] = [char_of (v div 65536)]"
  by (auto simp: quantum_bytes_def Let_def numeral_2_eq_2 numeral_3_eq_3)

lemma quantum_bytes_digits:
  assumes "b < 256" "c < 256"
  shows "quantum_bytes [a div 4, a mod 4 * 16 + b div 16, b mod 16 * 4 + c div 64, c mod 64] = [char_of a, char_of b, char_of c]"
    "quantum_bytes [a div 4, a mod 4 * 16 + b div 16, b mod 16 * 4] = [char_of a, char_of b]"
    "quantum_bytes [a div 4, a mod 4 * 16] = [char_of a]"
proof -
  have 0: "(0 :: nat) < 256" by simp
  show "quantum_bytes [a div 4, a mod 4 * 16 + b div 16, b mod 16 * 4 + c div 64, c mod 64] = [char_of a, char_of b, char_of c]"
    by (simp only: quantum_bytes_simps(1) [OF digits_value] digits_bytes [OF assms])
  have "a div 4 * 262144 + (a mod 4 * 16 + b div 16) * 4096 + b mod 16 * 4 * 64 = a * 65536 + b * 256 + 0"
    using digits_value [of a b 0] by (simp only: div_0 mod_0 add_0_right)
  then show "quantum_bytes [a div 4, a mod 4 * 16 + b div 16, b mod 16 * 4] = [char_of a, char_of b]"
    by (simp only: quantum_bytes_simps(2) digits_bytes [OF assms(1) 0])
  have "a div 4 * 262144 + a mod 4 * 16 * 4096 = a * 65536 + 0 * 256 + 0"
    using digits_value [of a 0 0] by (simp only: div_0 mod_0 add_0_right mult_0)
  then show "quantum_bytes [a div 4, a mod 4 * 16] = [char_of a]"
    by (simp only: quantum_bytes_simps(3) digits_bytes [OF 0 0])
qed

lemma decode_loop_Encode: "decode_loop n (EncodeToString s) = Inr s"
proof (induction s rule: EncodeToString.induct)
  case (2 a)
  show ?case using byte_digits(1,2) [of "byte a" 0 0] quantum_bytes_digits(3) [of 0 0 "byte a"]
    by (subst decode_loop_Inr_iff) (simp add: padding_def trailing_def)
next
  case (3 a b)
  show ?case using byte_digits(1-3) [of "byte a" "byte b" 0] quantum_bytes_digits(2) [of "byte b" 0 "byte a"]
    by (subst decode_loop_Inr_iff) (simp add: padding_def trailing_def)
next
  case (4 a b c s)
  have "decodeQuantum n [] (EncodeToString (a # b # c # s)) =
      Inr ([byte a div 4, byte a mod 4 * 16 + byte b div 16, byte b mod 16 * 4 + byte c div 64, byte c mod 64], EncodeToString s)"
    using byte_digits [of "byte a" "byte b" "byte c"] by (cases "EncodeToString s") simp_all
  then show ?case using 4 quantum_bytes_digits(1) [of "byte b" "byte c" "byte a"]
    by (subst decode_loop_Inr_iff) simp
qed simp

lemma DecodeString_Encode: "unbroken t = EncodeToString s \<Longrightarrow> DecodeString t = Inr s"
  unfolding DecodeString_def by (rule decode_loop_unbroken) (simp add: decode_loop_Encode)

lemma Encode_unbroken: "unbroken (EncodeToString s) = EncodeToString s"
proof -
  have d: "\<not> line_break (b64_char v)" for v
    by (cases "v < 26"; cases "v < 52"; cases "v < 62") (simp_all add: line_break_def b64_char_def, presburger?)
  show ?thesis by (induction s rule: EncodeToString.induct) (simp_all add: d)
qed

end
