(* ===== verification/Certs.thy ===== *)
theory Certs
  imports Base64
begin

text \<open>
  FileToBase64 of package fileutil and package cryptoutil (src/utils/cryptoutil): client certificates and
  certificate pools, from files or from base64 texts. The filesystem and the X.509 parsers are
  parameters. Texts that FileToBase64 made of the files, with line breaks or without, give what
  the files give.
\<close>

section \<open>Files\<close>

text \<open>
  A filesystem: the fate of opening a path, and for an open file what reading it to the end gives.
  An error of closing the file is logged only.
\<close>

type_synonym filesystem = "string \<Rightarrow> string res res"

definition os_ReadFile :: "filesystem \<Rightarrow> string \<Rightarrow> string res" where
  "os_ReadFile fs path = (case fs path of Inl e \<Rightarrow> Inl e | Inr content \<Rightarrow> content)"

definition FileToBase64 :: "filesystem \<Rightarrow> string \<Rightarrow> string res" where
  "FileToBase64 fs inputPath =
     (case fs inputPath of
        Inl e \<Rightarrow> Inl (wrapped e ''failed to open file'')
      | Inr content \<Rightarrow>
          (case content of
             Inl e \<Rightarrow> Inl (wrapped e ''failed to read file contents'')
           | Inr fileBytes \<Rightarrow> Inr (EncodeToString fileBytes)))"

section \<open>Certificates\<close>

text \<open>
  The parsers of crypto/tls and crypto/x509: \<open>tls.X509KeyPair\<close> on the contents of a certificate and a key
  file, and the certificates found in a PEM text. A pool is the list of the certificates it holds.
\<close>

record ('cert, 'ca) x509 =
  X509KeyPair :: "string \<Rightarrow> string \<Rightarrow> 'cert res"
  pem_certs :: "string \<Rightarrow> 'ca list"

definition LoadX509KeyPair :: "('cert, 'ca) x509 \<Rightarrow> filesystem \<Rightarrow> string \<Rightarrow> string \<Rightarrow> 'cert res" where
  "LoadX509KeyPair x fs certFile keyFile =
     (case os_ReadFile fs certFile of
        Inl e \<Rightarrow> Inl e
      | Inr cert \<Rightarrow>
          (case os_ReadFile fs keyFile of
             Inl e \<Rightarrow> Inl e
           | Inr key \<Rightarrow> X509KeyPair x cert key))"

definition NewCertPool :: "'ca list" where
  "NewCertPool = []"

text \<open>The pool with the certificates of the text, and whether there were any.\<close>

definition AppendCertsFromPEM :: "('cert, 'ca) x509 \<Rightarrow> 'ca list \<Rightarrow> string \<Rightarrow> bool \<times> 'ca list" where
  "AppendCertsFromPEM x pool s = (pem_certs x s \<noteq> [], pool @ pem_certs x s)"

abbreviation "ErrAppendCACertFailed \<equiv> ErrNew ''cryptoutil.ErrAppendCACertFailed''"

definition CreateClientCertAndCertPoolFromFiles ::
  "('cert, 'ca) x509 \<Rightarrow> filesystem \<Rightarrow> string \<Rightarrow> string \<Rightarrow> string \<Rightarrow> ('cert \<times> 'ca list) res" where
  "CreateClientCertAndCertPoolFromFiles x fs clientCertPath clientKeyPath caCertPath =
     (case LoadX509KeyPair x fs clientCertPath clientKeyPath of
        Inl e \<Rightarrow> Inl (wrapped e ''failed to load client certificate'')
      | Inr clientCert \<Rightarrow>
          (case os_ReadFile fs caCertPath of
             Inl e \<Rightarrow> Inl (wrapped e ''failed to read CA certificate'')
           | Inr caCert \<Rightarrow>
               (case AppendCertsFromPEM x NewCertPool caCert of
                  (appended, caCertPool) \<Rightarrow>
                    if \<not> appended then Inl (wrapped ErrAppendCACertFailed ''failed to append CA certificate to pool'')
                    else Inr (clientCert, caCertPool))))"

definition CreateClientCertAndCertPoolFromBase64 ::
  "('cert, 'ca) x509 \<Rightarrow> string \<Rightarrow> string \<Rightarrow> string \<Rightarrow> ('cert \<times> 'ca list) res" where
  "CreateClientCertAndCertPoolFromBase64 x clientCertBase64 clientKeyBase64 caCertBase64 =
     (case DecodeString clientCertBase64 of
        Inl e \<Rightarrow> Inl (wrapped e ''failed to decode base64 client certificate'')
      | Inr clientCertBytes \<Rightarrow>
          (case DecodeString clientKeyBase64 of
             Inl e \<Rightarrow> Inl (wrapped e ''failed to decode base64 client key'')
           | Inr clientKeyBytes \<Rightarrow>
               (case X509KeyPair x clientCertBytes clientKeyBytes of
                  Inl e \<Rightarrow> Inl (wrapped e ''failed to load client certificate from bytes'')
                | Inr clientCert \<Rightarrow>
                    (case DecodeString caCertBase64 of
                       Inl e \<Rightarrow> Inl (wrapped e ''failed to decode base64 CA certificate'')
                     | Inr caCertBytes \<Rightarrow>
                         (case AppendCertsFromPEM x NewCertPool caCertBytes of
                            (appended, caCertPool) \<Rightarrow>
                              if \<not> appended then Inl (wrapped ErrAppendCACertFailed ''failed to append CA certificate to pool'')
                              else Inr (clientCert, caCertPool))))))"

section \<open>Both ways agree\<close>

lemma FileToBase64_Inr:
  "FileToBase64 fs p = Inr t \<longleftrightarrow> (\<exists>s. os_ReadFile fs p = Inr s \<and> t = EncodeToString s)"
  by (auto simp: FileToBase64_def os_ReadFile_def split: sum.splits)

lemma FileToBase64_decodes:
  "FileToBase64 fs p = Inr t \<Longrightarrow> unbroken u = t \<Longrightarrow> \<exists>s. os_ReadFile fs p = Inr s \<and> DecodeString u = Inr s"
  by (auto simp: FileToBase64_Inr intro: DecodeString_Encode)

text \<open>
  C39 (equivalence). Whenever the three files can be read, the texts FileToBase64 makes of them, with line
  breaks inserted at will, give the same certificate and pool as the files themselves, or both
  ways fail with the same cause.
\<close>

theorem certificates_agree:
  assumes "FileToBase64 fs cert = Inr c" "unbroken c' = c"
    and "FileToBase64 fs key = Inr k" "unbroken k' = k"
    and "FileToBase64 fs ca = Inr a" "unbroken a' = a"
  shows "case CreateClientCertAndCertPoolFromFiles x fs cert key ca of
      Inr r \<Rightarrow> CreateClientCertAndCertPoolFromBase64 x c' k' a' = Inr r
    | Inl e \<Rightarrow> (\<exists>e'. CreateClientCertAndCertPoolFromBase64 x c' k' a' = Inl e' \<and> ctx_Unwrap e' = ctx_Unwrap e)"
proof -
  obtain sc sk sa where files: "os_ReadFile fs cert = Inr sc" "os_ReadFile fs key = Inr sk" "os_ReadFile fs ca = Inr sa"
    and texts: "DecodeString c' = Inr sc" "DecodeString k' = Inr sk" "DecodeString a' = Inr sa"
    using assms FileToBase64_decodes by metis
  show ?thesis
    by (auto simp: CreateClientCertAndCertPoolFromFiles_def CreateClientCertAndCertPoolFromBase64_def
        LoadX509KeyPair_def AppendCertsFromPEM_def files texts split: sum.split)
qed

definition sample_files :: filesystem where
  "sample_files p = (if p = ''c'' then Inr (Inr ''cert'') else if p = ''k'' then Inr (Inr ''key'')
     else if p = ''a'' then Inr (Inr ''roots'') else Inl (Foreign ''not found''))"

definition sample_x509 :: "(string, string) x509" where
  "sample_x509 = \<lparr>X509KeyPair = (\<lambda>c k. Inr (c @ k)), pem_certs = (\<lambda>s. [s])\<rparr>"

theorem certificates_agree_witness:
  "CreateClientCertAndCertPoolFromFiles sample_x509 sample_files ''c'' ''k'' ''a'' = Inr (''certkey'', [''roots''])
   \<and> CreateClientCertAndCertPoolFromBase64 sample_x509 (''Y2Vy'' @ [CHR 0x0A] @ ''dA=='') ''a2V5'' ''cm9vdHM='' = Inr (''certkey'', [''roots''])"
proof -
  have f: "FileToBase64 sample_files ''c'' = Inr ''Y2VydA==''" "FileToBase64 sample_files ''k'' = Inr ''a2V5''"
    "FileToBase64 sample_files ''a'' = Inr ''cm9vdHM=''" by code_simp+
  have u: "unbroken (''Y2Vy'' @ [CHR 0x0A] @ ''dA=='') = ''Y2VydA==''" "unbroken ''a2V5'' = ''a2V5''"
    "unbroken ''cm9vdHM='' = ''cm9vdHM=''" by code_simp+
  have r: "CreateClientCertAndCertPoolFromFiles sample_x509 sample_files ''c'' ''k'' ''a'' = Inr (''certkey'', [''roots''])"
    by code_simp
  show ?thesis using certificates_agree [OF f(1) u(1) f(2) u(2) f(3) u(3), of sample_x509] r by simp
qed

end
