(* ===== verification/JsonIndent.thy ===== *)
theory JsonIndent
  imports Json
begin

text \<open>
  Package jsonutil (src/utils/jsonutil/jsonutil.go): the indented JSON of a value. \<open>json.MarshalIndent\<close> encodes the
  value and then runs over the text, putting line breaks, indentation and blanks where its scanner sees
  punctuation outside strings. The text is what a printer of documents with indentation writes,
  and decoding it gives the document back.
\<close>

section \<open>Indenting a text\<close>

text \<open>\<open>appendNewline\<close>: a line break, the prefix and an indentation for every level.\<close>

definition appendNewline :: "string \<Rightarrow> string \<Rightarrow> nat \<Rightarrow> string" where
  "appendNewline prefix indent depth = CHR 0x0A # prefix @ concat (replicate depth indent)"

text \<open>Where the scanner is: between tokens or in a literal other than a string, in a string, after its backslash.\<close>

datatype scan_state = Outside | InString | InStringEsc

text \<open>
  The scanner gives up when more than \<open>maxNestingDepth\<close> arrays and objects are open at once; how many are open comes
  first. That is the only error it can report on the texts the encoder makes.
\<close>

fun scan_accepts :: "nat \<Rightarrow> scan_state \<Rightarrow> string \<Rightarrow> bool" where
  "scan_accepts n st [] = True"
| "scan_accepts n InStringEsc (c # s) = scan_accepts n InString s"
| "scan_accepts n InString (c # s) =
     scan_accepts n (if c = CHR 0x5C then InStringEsc else if c = CHR 0x22 then Outside else InString) s"
| "scan_accepts n Outside (c # s) =
     (if c = CHR ''{'' \<or> c = CHR ''['' then n < maxNestingDepth \<and> scan_accepts (Suc n) Outside s
      else if c = CHR ''}'' \<or> c = CHR '']'' then scan_accepts (n - 1) Outside s
      else scan_accepts n (if c = CHR 0x22 then InString else Outside) s)"

text \<open>
  \<open>appendIndent\<close> on a text the scanner accepts: the depth, whether an indentation is due after an opening bracket, the
  scanner, the rest of the text.
\<close>

fun appendIndent :: "string \<Rightarrow> string \<Rightarrow> nat \<Rightarrow> bool \<Rightarrow> scan_state \<Rightarrow> string \<Rightarrow> string" where
  "appendIndent prefix indent depth needIndent st [] = []"
| "appendIndent prefix indent depth needIndent InStringEsc (c # s) = c # appendIndent prefix indent depth needIndent InString s"
| "appendIndent prefix indent depth needIndent InString (c # s) =
     c # appendIndent prefix indent depth needIndent
       (if c = CHR 0x5C then InStringEsc else if c = CHR 0x22 then Outside else InString) s"
| "appendIndent prefix indent depth needIndent Outside (c # s) =
     (if c \<in> {CHR '' '', CHR 0x09, CHR 0x0A, CHR 0x0D} then appendIndent prefix indent depth needIndent Outside s
      else if c = CHR ''}'' \<or> c = CHR '']'' then
        (if needIndent then c # appendIndent prefix indent depth False Outside s
         else appendNewline prefix indent (depth - 1) @ c # appendIndent prefix indent (depth - 1) False Outside s)
      else
        (let depth' = (if needIndent then depth + 1 else depth);
             sep = (if needIndent then appendNewline prefix indent depth' else [])
         in sep @ c #
           (if c = CHR ''{'' \<or> c = CHR ''['' then appendIndent prefix indent depth' True Outside s
            else if c = CHR '','' then appendNewline prefix indent depth' @ appendIndent prefix indent depth' False Outside s
            else if c = CHR '':'' then CHR '' '' # appendIndent prefix indent depth' False Outside s
            else appendIndent prefix indent depth' False (if c = CHR 0x22 then InString else Outside) s)))"

definition MarshalIndent :: "json \<Rightarrow> string \<Rightarrow> string \<Rightarrow> string res" where
  "MarshalIndent v prefix indent =
     (let b = Marshal v in
      if scan_accepts 0 Outside b then Inr (appendIndent prefix indent 0 False Outside b)
      else Inl (Foreign ''exceeded max depth''))"

section \<open>Package jsonutil\<close>

text \<open>
  A Go value is the document the encoder makes of it, or the error it gives. A value that cannot be encoded, or whose
  document the scanner refuses, is logged and gives no bytes.
\<close>

definition GetAsJSONBytes :: "json res \<Rightarrow> string" where
  "GetAsJSONBytes v = (case v of
     Inl e \<Rightarrow> []
   | Inr doc \<Rightarrow> (case MarshalIndent doc '''' ''  '' of Inl e \<Rightarrow> [] | Inr jsonBytes \<Rightarrow> jsonBytes))"

definition GetAsJSONString :: "json res \<Rightarrow> string" where
  "GetAsJSONString v = GetAsJSONBytes v"

section \<open>The printer of documents\<close>

text \<open>A printed line begins with two blanks for every array and object it is in.\<close>

definition line_break :: "nat \<Rightarrow> string" where
  "line_break d = CHR 0x0A # replicate (2 * d) (CHR '' '')"

fun pretty :: "nat \<Rightarrow> json \<Rightarrow> string"
  and pretty_items :: "nat \<Rightarrow> json list \<Rightarrow> string"
  and pretty_fields :: "nat \<Rightarrow> (string \<times> json) list \<Rightarrow> string" where
  "pretty d JNull = ''null''"
| "pretty d (JBool b) = (if b then ''true'' else ''false'')"
| "pretty d (JNum n) = n"
| "pretty d (JStr s) = encode_string s"
| "pretty d (JArr vs) = CHR ''['' # (if vs = [] then '']'' else line_break (Suc d) @ pretty_items d vs)"
| "pretty d (JObj fs) = CHR ''{'' # (if fs = [] then ''}'' else line_break (Suc d) @ pretty_fields d fs)"
| "pretty_items d [] = '']''"
| "pretty_items d [v] = pretty (Suc d) v @ line_break d @ '']''"
| "pretty_items d (v # w # vs) = pretty (Suc d) v @ CHR '','' # line_break (Suc d) @ pretty_items d (w # vs)"
| "pretty_fields d [] = ''}''"
| "pretty_fields d [(k, v)] = encode_string k @ '': '' @ pretty (Suc d) v @ line_break d @ ''}''"
| "pretty_fields d ((k, v) # f # fs) =
     encode_string k @ '': '' @ pretty (Suc d) v @ CHR '','' # line_break (Suc d) @ pretty_fields d (f # fs)"

lemma appendNewline_two_blanks [simp]: "appendNewline '''' ''  '' d = line_break d"
  by (induction d) (simp_all add: appendNewline_def line_break_def)

section \<open>Indenting is printing\<close>

definition plain_char :: "char \<Rightarrow> bool" where
  "plain_char c \<longleftrightarrow> c \<notin> {CHR '' '', CHR 0x09, CHR 0x0A, CHR 0x0D, CHR ''{'', CHR ''}'', CHR ''['', CHR '']'', CHR '','', CHR '':'', CHR 0x22}"

lemma appendIndent_plain: "list_all plain_char w \<Longrightarrow> appendIndent '''' ''  '' d False Outside (w @ s) = w @ appendIndent '''' ''  '' d False Outside s"
  by (induction w) (auto simp: plain_char_def)

lemma appendIndent_due:
  "c \<notin> {CHR '' '', CHR 0x09, CHR 0x0A, CHR 0x0D, CHR '']'', CHR ''}''} \<Longrightarrow>
     appendIndent '''' ''  '' d True Outside (c # s) = line_break (Suc d) @ appendIndent '''' ''  '' (Suc d) False Outside (c # s)"
  by (simp add: Let_def)

text \<open>Where the scanner of a string is after a text; nothing if the string ends in it.\<close>

fun string_mode :: "scan_state \<Rightarrow> string \<Rightarrow> scan_state option" where
  "string_mode st [] = Some st"
| "string_mode InStringEsc (c # s) = string_mode InString s"
| "string_mode InString (c # s) =
     (if c = CHR 0x5C then string_mode InStringEsc s else if c = CHR 0x22 then None else string_mode InString s)"
| "string_mode Outside (c # s) = None"

lemma string_mode_append: "string_mode st (v @ w) = (case string_mode st v of None \<Rightarrow> None | Some st' \<Rightarrow> string_mode st' w)"
  by (induction st v rule: string_mode.induct) simp_all

lemma appendIndent_string: "string_mode st w = Some st' \<Longrightarrow> appendIndent p i d n st (w @ s) = w @ appendIndent p i d n st' s"
  by (induction st w rule: string_mode.induct) (auto split: if_splits)

lemma scan_accepts_string: "string_mode st w = Some st' \<Longrightarrow> scan_accepts n st (w @ s) = scan_accepts n st' s"
  by (induction st w rule: string_mode.induct) (auto split: if_splits)

lemma string_mode_chars: "list_all (\<lambda>c. c \<noteq> CHR 0x22 \<and> c \<noteq> CHR 0x5C) w \<Longrightarrow> string_mode InString w = Some InString"
  by (induction w) auto

lemma hex_char_plain: "m < 16 \<Longrightarrow> hex_char m \<noteq> CHR 0x22 \<and> hex_char m \<noteq> CHR 0x5C"
  by (auto simp: hex_char_def dest: arg_cong [where f = byte])

lemma string_mode_u4: "string_mode InString (u4 r) = Some InString"
  by (simp add: u4_def hex_char_plain)

lemma EncodeRune_string_chars:
  assumes "valid_rune r" "r \<noteq> 0x22" "r \<noteq> 0x5C"
  shows "list_all (\<lambda>c. c \<noteq> CHR 0x22 \<and> c \<noteq> CHR 0x5C) (EncodeRune r)"
proof -
  obtain c t where e: "EncodeRune r = c # t" by (cases "EncodeRune r") auto
  note shape = EncodeRune_shape [OF assms(1) e]
  have "byte c = r \<or> 0x80 \<le> byte c" using shape(4,5) by auto
  then have "c \<noteq> CHR 0x22" "c \<noteq> CHR 0x5C" using assms by auto
  moreover have "list_all (\<lambda>c. c \<noteq> CHR 0x22 \<and> c \<noteq> CHR 0x5C) t"
    using shape(1) by (auto simp: list_all_iff cont_def)
  ultimately show ?thesis by (simp add: e)
qed

lemma string_mode_escape_rune:
  assumes "valid_rune r"
  shows "string_mode InString (escape_rune m r) = Some InString"
  using string_mode_chars [OF EncodeRune_string_chars [OF assms]]
  by (simp add: escape_rune_def string_mode_u4)

lemma string_mode_escape_string: "string_mode InString (escape_string s) = Some InString"
  by (induction s rule: escape_string.induct)
    (simp_all add: escape_string.simps(2) string_mode_append string_mode_escape_rune DecodeRune_valid)

lemma appendIndent_encode_string:
  "appendIndent '''' ''  '' d False Outside (encode_string s @ t) = encode_string s @ appendIndent '''' ''  '' d False Outside t"
  using appendIndent_string [OF string_mode_escape_string] by (simp add: encode_string_def)

lemma scan_accepts_encode_string: "scan_accepts n Outside (encode_string s @ t) = scan_accepts n Outside t"
  using scan_accepts_string [OF string_mode_escape_string] by (simp add: encode_string_def)

lemma scan_accepts_plain: "list_all plain_char w \<Longrightarrow> scan_accepts n Outside (w @ s) = scan_accepts n Outside s"
  by (induction w) (auto simp: plain_char_def)

lemma num_char_plain: "list_all num_char n \<Longrightarrow> list_all plain_char n"
  by (auto simp: list_all_iff num_char_def plain_char_def is_digit_def)

lemma literals_plain: "list_all plain_char ''null''" "list_all plain_char ''true''" "list_all plain_char ''false''"
  by (simp_all add: plain_char_def)

lemmas appendIndent_literals = literals_plain [THEN appendIndent_plain]

lemma marshal_items_head:
  assumes "list_all json_ok (v # vs)"
  shows "\<exists>c t. marshal_items (v # vs) = c # t \<and> c \<notin> {CHR '' '', CHR 0x09, CHR 0x0A, CHR 0x0D, CHR '']'', CHR ''}''}"
proof -
  obtain c t where "Marshal v = c # t" "c \<notin> {CHR '' '', CHR 0x09, CHR 0x0A, CHR 0x0D, CHR '']'', CHR ''}''}"
    using assms Marshal_head [of v] by auto
  then show ?thesis by (cases vs) auto
qed

lemma appendIndent_first_item:
  "list_all json_ok (v # vs) \<Longrightarrow> appendIndent '''' ''  '' d True Outside (marshal_items (v # vs) @ t)
     = line_break (Suc d) @ appendIndent '''' ''  '' (Suc d) False Outside (marshal_items (v # vs) @ t)"
  using marshal_items_head [of v vs] appendIndent_due by force

lemma appendIndent_first_field:
  "appendIndent '''' ''  '' d True Outside (marshal_fields (f # fs) @ t)
     = line_break (Suc d) @ appendIndent '''' ''  '' (Suc d) False Outside (marshal_fields (f # fs) @ t)"
  by (cases f; cases fs) (simp_all add: encode_string_def)

lemma appendIndent_marshal:
  shows "json_ok v \<Longrightarrow> appendIndent '''' ''  '' d False Outside (Marshal v @ t) = pretty d v @ appendIndent '''' ''  '' d False Outside t"
    and "vs \<noteq> [] \<Longrightarrow> list_all json_ok vs \<Longrightarrow>
      appendIndent '''' ''  '' (Suc d) False Outside (marshal_items vs @ t) = pretty_items d vs @ appendIndent '''' ''  '' d False Outside t"
    and "fs \<noteq> [] \<Longrightarrow> list_all (\<lambda>(k, v). json_ok v) fs \<Longrightarrow>
      appendIndent '''' ''  '' (Suc d) False Outside (marshal_fields fs @ t) = pretty_fields d fs @ appendIndent '''' ''  '' d False Outside t"
proof (induction v and vs and fs arbitrary: d t and d t and d t rule: Marshal_marshal_items_marshal_fields.induct)
  case (5 vs)
  then show ?case by (cases vs) (simp_all add: appendIndent_first_item del: marshal_items.simps pretty_items.simps, simp)
next
  case (6 fs)
  then show ?case by (cases fs) (simp_all add: appendIndent_first_field del: marshal_fields.simps pretty_fields.simps, simp)
qed (simp_all add: appendIndent_literals appendIndent_encode_string appendIndent_plain num_char_plain)

text \<open>The scanner accepts what the encoder makes of a document unless it is nested too deep.\<close>

lemma scan_accepts_marshal:
  shows "json_ok v \<Longrightarrow> n \<le> maxNestingDepth \<Longrightarrow>
      scan_accepts n Outside (Marshal v @ t) = (nests_within (maxNestingDepth - n) v \<and> scan_accepts n Outside t)"
    and "vs \<noteq> [] \<Longrightarrow> list_all json_ok vs \<Longrightarrow> Suc n \<le> maxNestingDepth \<Longrightarrow>
      scan_accepts (Suc n) Outside (marshal_items vs @ t)
        = (list_all (nests_within (maxNestingDepth - Suc n)) vs \<and> scan_accepts n Outside t)"
    and "fs \<noteq> [] \<Longrightarrow> list_all (\<lambda>(k, v). json_ok v) fs \<Longrightarrow> Suc n \<le> maxNestingDepth \<Longrightarrow>
      scan_accepts (Suc n) Outside (marshal_fields fs @ t)
        = (list_all (\<lambda>(k, v). nests_within (maxNestingDepth - Suc n) v) fs \<and> scan_accepts n Outside t)"
proof (induction v and vs and fs arbitrary: n t and n t and n t rule: Marshal_marshal_items_marshal_fields.induct)
  case (5 vs)
  then show ?case by (cases "vs = []"; cases "n < maxNestingDepth") auto
next
  case (6 fs)
  then show ?case by (cases "fs = []"; cases "n < maxNestingDepth") auto
qed (simp_all add: scan_accepts_plain [OF literals_plain(1), simplified] scan_accepts_plain [OF literals_plain(2), simplified]
    scan_accepts_plain [OF literals_plain(3), simplified] scan_accepts_encode_string scan_accepts_plain num_char_plain)

lemma MarshalIndent_pretty:
  assumes "json_ok v"
  shows "MarshalIndent v '''' ''  '' =
    (if nests_within maxNestingDepth v then Inr (pretty 0 v) else Inl (Foreign ''exceeded max depth''))"
  using appendIndent_marshal(1) [OF assms, of 0 "[]"] scan_accepts_marshal(1) [OF assms, of 0 "[]"]
  by (simp add: MarshalIndent_def Let_def)

section \<open>Printed documents come back\<close>

lemma skip_line_break [simp]: "skip_ws (line_break d @ s) = skip_ws s"
  by (induction d) (simp_all add: line_break_def)

lemma ends_number_line_break [simp]: "ends_number (line_break d @ s)"
  by (simp add: ends_number_def line_break_def num_char_def is_digit_def)

lemma parse_skip: "skip_ws s = skip_ws t \<Longrightarrow> parse_value n m s = parse_value n m t"
  "skip_ws s = skip_ws t \<Longrightarrow> parse_items n m s = parse_items n m t"
  "skip_ws s = skip_ws t \<Longrightarrow> parse_fields n m s = parse_fields n m t"
proof -
  show v: "skip_ws s = skip_ws t \<Longrightarrow> parse_value n m s = parse_value n m t" for n m by (cases n) simp_all
  show "skip_ws s = skip_ws t \<Longrightarrow> parse_items n m s = parse_items n m t" using v by (cases n) simp_all
  show "skip_ws s = skip_ws t \<Longrightarrow> parse_fields n m s = parse_fields n m t" by (cases n) simp_all
qed

lemma parse_after_line_break [simp]:
  "parse_value n m (line_break d @ s) = parse_value n m s" "parse_items n m (line_break d @ s) = parse_items n m s"
  "parse_fields n m (line_break d @ s) = parse_fields n m s" "parse_value n m (CHR '' '' # s) = parse_value n m s"
  by (rule parse_skip; simp)+

lemma pretty_head:
  assumes "json_ok v"
  shows "\<exists>c t. pretty d v = c # t \<and> c \<notin> {CHR '' '', CHR 0x09, CHR 0x0A, CHR 0x0D, CHR '']'', CHR ''}''}"
proof (cases v)
  case (JNum n)
  then show ?thesis using Marshal_head [OF assms] by simp
qed (auto simp: encode_string_def)

lemma pretty_items_head:
  assumes "list_all json_ok (v # vs)"
  shows "\<exists>c t. pretty_items d (v # vs) = c # t \<and> c \<notin> {CHR '' '', CHR 0x09, CHR 0x0A, CHR 0x0D, CHR '']'', CHR ''}''}"
proof -
  obtain c t where "pretty (Suc d) v = c # t" "c \<notin> {CHR '' '', CHR 0x09, CHR 0x0A, CHR 0x0D, CHR '']'', CHR ''}''}"
    using assms pretty_head [of v "Suc d"] by auto
  then show ?thesis by (cases vs) auto
qed

lemma pretty_fields_head: "\<exists>t. pretty_fields d (f # fs) = CHR 0x22 # t"
  by (cases f; cases fs) (auto simp: encode_string_def)

lemma parse_pretty:
  shows "json_ok v \<Longrightarrow> nests_within r v \<Longrightarrow> 2 * length (pretty d v) \<le> n \<Longrightarrow> ends_number u \<Longrightarrow>
      parse_value n r (pretty d v @ u) = Some (norm v, u)"
    and "vs \<noteq> [] \<Longrightarrow> list_all json_ok vs \<Longrightarrow> list_all (nests_within r) vs \<Longrightarrow> 2 * length (pretty_items d vs) \<le> n \<Longrightarrow>
      parse_items n r (pretty_items d vs @ u) = Some (map norm vs, u)"
    and "fs \<noteq> [] \<Longrightarrow> list_all (\<lambda>(k, v). json_ok v) fs \<Longrightarrow> list_all (\<lambda>(k, v). nests_within r v) fs \<Longrightarrow> 2 * length (pretty_fields d fs) \<le> n \<Longrightarrow>
      parse_fields n r (pretty_fields d fs @ u) = Some (map (\<lambda>(k, v). (sanitize k, norm v)) fs, u)"
proof (induction d v and d vs and d fs arbitrary: n r u and n r u and n r u rule: pretty_pretty_items_pretty_fields.induct)
  case (1 d)
  then show ?case by (cases n) (simp_all add: literal_def)
next
  case (2 d b)
  then show ?case by (cases b; cases n) (simp_all add: literal_def)
next
  case (3 d m)
  then obtain c t where "m = c # t" by (auto elim: number_head)
  then show ?case using 3 parse_number_value [of m u n r] by simp
next
  case (4 d s)
  then show ?case by (cases n) (simp_all add: encode_string_def parse_encoded)
next
  case (5 d vs)
  then obtain k where n: "n = Suc k" by (cases n) auto
  show ?case
  proof (cases vs)
    case (Cons w ws)
    then obtain c t where h: "pretty_items d vs = c # t" "c \<notin> {CHR '' '', CHR 0x09, CHR 0x0A, CHR 0x0D, CHR '']'', CHR ''}''}"
      using pretty_items_head [of w ws d] 5 by auto
    have "parse_items k (r - 1) (pretty_items d vs @ u) = Some (map norm vs, u)"
      using 5(1) [of "r - 1" k u] 5(2-4) Cons n by simp
    then show ?thesis using h Cons 5(3) by (simp add: n)
  qed (use 5(3) in \<open>simp add: n\<close>)
next
  case (6 d fs)
  then obtain k where n: "n = Suc k" by (cases n) auto
  show ?case
  proof (cases fs)
    case (Cons f fs')
    then obtain t where h: "pretty_fields d fs = CHR 0x22 # t" using pretty_fields_head [of d f fs'] by auto
    have "parse_fields k (r - 1) (pretty_fields d fs @ u) = Some (map (\<lambda>(k, v). (sanitize k, norm v)) fs, u)"
      using 6(1) [of "r - 1" k u] 6(2-4) Cons n by simp
    then show ?thesis using h Cons 6(3) by (simp add: n)
  qed (use 6(3) in \<open>simp add: n\<close>)
next
  case (8 d v)
  then obtain k where n: "n = Suc k" by (cases n) auto
  show ?case using 8(1) [of r k "line_break d @ CHR '']'' # u"] 8(3-5) by (simp add: n)
next
  case (9 d v w vs)
  then obtain k where n: "n = Suc k" by (cases n) auto
  show ?case
    using 9(1) [of r k "CHR '','' # line_break (Suc d) @ pretty_items d (w # vs) @ u"] 9(2) [of r k u] 9(4-6) by (simp add: n)
next
  case (11 d k v)
  then obtain m where n: "n = Suc m" by (cases n) auto
  show ?case
    using 11(1) [of r m "line_break d @ CHR ''}'' # u"] 11(3-5) by (simp add: n encode_string_def parse_encoded)
next
  case (12 d k v f fs)
  then obtain m where n: "n = Suc m" by (cases n) auto
  show ?case
    using 12(1) [of r m "CHR '','' # line_break (Suc d) @ pretty_fields d (f # fs) @ u"] 12(2) [of r m u] 12(4-6)
    by (simp add: n encode_string_def parse_encoded)
qed simp_all

text \<open>Arrays nested one level too deep, and the deepest that still come through.\<close>

lemma nested_arrays:
  "json_ok (((\<lambda>v. JArr [v]) ^^ n) JNull)" "nests_within d (((\<lambda>v. JArr [v]) ^^ n) JNull) \<longleftrightarrow> n \<le> d"
proof -
  show "json_ok (((\<lambda>v. JArr [v]) ^^ n) JNull)" by (induction n) simp_all
  show "nests_within d (((\<lambda>v. JArr [v]) ^^ n) JNull) \<longleftrightarrow> n \<le> d"
  proof (induction n arbitrary: d)
    case (Suc n)
    then show ?case by (cases d) simp_all
  qed simp
qed

lemma too_deep: "GetAsJSONBytes (Inr (((\<lambda>v. JArr [v]) ^^ n) JNull)) = [] \<longleftrightarrow> 10000 < n"
proof -
  have "pretty 0 (((\<lambda>v. JArr [v]) ^^ n) JNull) \<noteq> []" using pretty_head [OF nested_arrays(1) [of n], of 0] by auto
  then show ?thesis
    using MarshalIndent_pretty [OF nested_arrays(1) [of n]] nested_arrays(2) [of maxNestingDepth n]
    by (auto simp: GetAsJSONBytes_def maxNestingDepth_def)
qed

text \<open>
  C40 (roundtrip). What GetAsJSONBytes and GetAsJSONString give for a value whose strings are valid: the printed document
  with a line for every item and field and two blanks for every level, and decoding it gives the document. A value
  whose arrays and objects are nested more than ten thousand levels deep gives no bytes.
\<close>

theorem json_bytes_roundtrip:
  assumes "json_ok doc" "json_utf8 doc"
  shows "if nests_within 10000 doc
    then GetAsJSONBytes (Inr doc) = pretty 0 doc \<and> Unmarshal (GetAsJSONString (Inr doc)) = Some doc
    else GetAsJSONBytes (Inr doc) = [] \<and> GetAsJSONString (Inr doc) = []"
  using parse_pretty(1) [OF assms(1), of maxNestingDepth 0 "2 * length (pretty 0 doc) + 2" "[]"]
  by (simp add: GetAsJSONString_def GetAsJSONBytes_def MarshalIndent_pretty [OF assms(1)] Unmarshal_def norm_utf8 [OF assms(2)]
      maxNestingDepth_def [symmetric])

definition sample_doc :: json where
  "sample_doc = JObj [(''a'', JArr [JNull, JInt 12]), (''b'', JObj []), (''c'', JStr ''{,:}'')]"

theorem json_bytes_roundtrip_witness:
  "GetAsJSONBytes (Inr sample_doc) =
     ''{'' @ [CHR 0x0A] @ ''  '' @ encode_string ''a'' @ '': ['' @ [CHR 0x0A] @ ''    null,'' @ [CHR 0x0A] @ ''    12'' @ [CHR 0x0A] @ ''  ],''
     @ [CHR 0x0A] @ ''  '' @ encode_string ''b'' @ '': {},'' @ [CHR 0x0A] @ ''  '' @ encode_string ''c'' @ '': '' @ encode_string ''{,:}''
     @ [CHR 0x0A] @ ''}''
   \<and> Unmarshal (GetAsJSONString (Inr sample_doc)) = Some sample_doc"
proof -
  have v: "ValidString ''a''" "ValidString ''b''" "ValidString ''c''" "ValidString ''{,:}''"
    by (rule ValidString_ascii; simp)+
  have "json_ok sample_doc" by (simp add: sample_doc_def)
  moreover have "nests_within 10000 sample_doc" by (simp add: sample_doc_def JInt_def)
  moreover have "json_utf8 sample_doc" using v by (simp add: sample_doc_def JInt_def del: ValidString.simps)
  moreover have "itoa 12 = ''12''" by code_simp
  ultimately show ?thesis using json_bytes_roundtrip [of sample_doc]
    by (simp add: sample_doc_def JInt_def line_break_def numeral_2_eq_2)
qed

end
