(* ===== verification/CacheInterface.thy ===== *)
theory CacheInterface
  imports CacheContract CacheRedis
begin

text \<open>
  The interface Cache of src/cache/cache.go as its callers use it: calls on whatever New returned, in memory or on Redis,
  and what a caller may rely on in both cases. The contract of theory CacheContract, which only the in-memory cache
  meets, gives the weaker one here.
\<close>

section \<open>Calls through the interface\<close>

text \<open>
  The cache with the world of the Redis client beside it. The in-memory cache reads the clock; the server behind Redis
  has its own. A Set that never returns and a Close that panics are None.
\<close>

type_synonym 'w cache = "'w cache_kind \<times> 'w"

fun Cache_Get :: "int \<Rightarrow> 'w cache \<Rightarrow> string \<Rightarrow> bytes res \<times> 'w cache" where
  "Cache_Get now (MemoryCache m, w) k = (case Memory_Get now m k of (r, m') \<Rightarrow> (r, (MemoryCache m', w)))"
| "Cache_Get now (RedisCache c, w) k = (case Redis_Get c k w of (r, w') \<Rightarrow> (r, (RedisCache c, w')))"

fun Cache_Set :: "int \<Rightarrow> 'w cache \<Rightarrow> string \<Rightarrow> bytes \<Rightarrow> int \<Rightarrow> (err \<times> 'w cache) option" where
  "Cache_Set now (MemoryCache m, w) k v ttl = map_option (\<lambda>(e, m'). (e, (MemoryCache m', w))) (Memory_Set now m k v ttl)"
| "Cache_Set now (RedisCache c, w) k v ttl = (case Redis_Set c k v ttl w of (e, w') \<Rightarrow> Some (e, (RedisCache c, w')))"

fun Cache_Delete :: "'w cache \<Rightarrow> string \<Rightarrow> err \<times> 'w cache" where
  "Cache_Delete (MemoryCache m, w) k = (case Memory_Delete m k of (e, m') \<Rightarrow> (e, (MemoryCache m', w)))"
| "Cache_Delete (RedisCache c, w) k = (case Redis_Delete c k w of (e, w') \<Rightarrow> (e, (RedisCache c, w')))"

fun Cache_Close :: "'w cache \<Rightarrow> (err \<times> 'w cache) option" where
  "Cache_Close (MemoryCache m, w) = map_option (\<lambda>(e, m'). (e, (MemoryCache m', w))) (Memory_Close m)"
| "Cache_Close (RedisCache c, w) = Some (Redis_Close, (RedisCache c, w))"

text \<open>
  What happens meanwhile: the clean-up of the in-memory cache, until it is closed, and what others do on the Redis server.
\<close>

fun cache_meanwhile :: "(int \<Rightarrow> 'w \<Rightarrow> 'w) \<Rightarrow> int \<times> string list \<Rightarrow> 'w cache \<Rightarrow> 'w cache" where
  "cache_meanwhile others b (MemoryCache m, w) = (MemoryCache (if stop_closed m then m else mem_background b m), w)"
| "cache_meanwhile others b (RedisCache c, w) = (RedisCache c, others (fst b) w)"

section \<open>What every cache promises\<close>

text \<open>
  \<open>may s k v\<close>: a read of \<open>k\<close> may answer \<open>v\<close>. A write that fails may or may not have been done; nothing else makes a value
  readable.
\<close>

locale cache_store =
  fixes get :: "int \<Rightarrow> 's \<Rightarrow> string \<Rightarrow> bytes res \<times> 's"
    and put :: "int \<Rightarrow> 's \<Rightarrow> string \<Rightarrow> bytes \<Rightarrow> int \<Rightarrow> (err \<times> 's) option"
    and del :: "'s \<Rightarrow> string \<Rightarrow> err \<times> 's"
    and meanwhile :: "'b \<Rightarrow> 's \<Rightarrow> 's"
    and ok :: "'s \<Rightarrow> bool"
    and may :: "'s \<Rightarrow> string \<Rightarrow> bytes \<Rightarrow> bool"
  assumes get_may: "ok s \<Longrightarrow> get t s k = (Inr v, s') \<Longrightarrow> may s k v"
    and get_keep: "ok s \<Longrightarrow> get t s k = (r, s') \<Longrightarrow> ok s' \<and> (may s' k' v' \<longrightarrow> may s k' v')"
    and put_keep: "ok s \<Longrightarrow> put t s k v ttl = Some (e, s') \<Longrightarrow>
      ok s' \<and> (may s' k' v' \<longrightarrow> (k' = k \<and> v' = v) \<or> (may s k' v' \<and> (k' = k \<longrightarrow> e \<noteq> None)))"
    and del_keep: "ok s \<Longrightarrow> del s k = (e, s') \<Longrightarrow> ok s' \<and> (may s' k' v' \<longrightarrow> may s k' v' \<and> (k' = k \<longrightarrow> e \<noteq> None))"
    and meanwhile_keep: "ok s \<Longrightarrow> ok (meanwhile b s) \<and> (may (meanwhile b s) k' v' \<longrightarrow> may s k' v')"
begin

text \<open>The values a caller has to reckon with, by key.\<close>

definition below :: "'s \<Rightarrow> (string \<Rightarrow> bytes set) \<Rightarrow> bool" where
  "below s W \<longleftrightarrow> ok s \<and> (\<forall>k v. may s k v \<longrightarrow> v \<in> W k)"

lemma below_answer: "below s W \<Longrightarrow> get t s k = (Inr v, s') \<Longrightarrow> v \<in> W k"
  using get_may by (auto simp: below_def)

lemma below_get: "below s W \<Longrightarrow> get t s k = (r, s') \<Longrightarrow> below s' W"
  using get_keep by (auto simp: below_def)

lemma below_put:
  assumes "below s W" and put: "put t s k v ttl = Some (e, s')"
  shows "below s' (W(k := (if e = None then {v} else insert v (W k))))"
proof -
  have s: "ok s" "may s k' v' \<Longrightarrow> v' \<in> W k'" for k' v' using assms(1) by (auto simp: below_def)
  have "v' \<in> (W(k := (if e = None then {v} else insert v (W k)))) k'" if "may s' k' v'" for k' v'
    using put_keep [OF s(1) put, of k' v'] that s(2) [of k' v'] by auto
  then show ?thesis using put_keep [OF s(1) put] by (simp add: below_def)
qed

lemma below_del: "below s W \<Longrightarrow> del s k = (e, s') \<Longrightarrow> below s' (if e = None then W(k := {}) else W)"
  using del_keep [of s k e s'] by (auto simp: below_def)

lemma below_meanwhile: "below s W \<Longrightarrow> below (meanwhile b s) W"
  using meanwhile_keep by (auto simp: below_def)

end

text \<open>A cache that keeps the contract of the in-memory one keeps this one.\<close>

sublocale cache_contract \<subseteq> store: cache_store get put del background ok "\<lambda>s k v. \<exists>t. fst (get t s k) = Inr v"
proof unfold_locales
  fix s s' :: 's and t :: int and k k' v v' and ttl :: int and e r and b
  assume ok: "ok s"
  show "\<exists>t. fst (get t s k) = Inr v" if "get t s k = (Inr v, s')"
    using that by (metis fst_conv)
  show "ok s' \<and> ((\<exists>t. fst (get t s' k') = Inr v') \<longrightarrow> (\<exists>t. fst (get t s k') = Inr v'))" if "get t s k = (r, s')"
    using get_ok [OF ok, of t k] get_keeps [OF ok, of _ t k k'] that by auto
  show "ok s' \<and> ((\<exists>t. fst (get t s' k') = Inr v') \<longrightarrow>
      (k' = k \<and> v' = v) \<or> ((\<exists>t. fst (get t s k') = Inr v') \<and> (k' = k \<longrightarrow> e \<noteq> None)))"
    if "put t s k v ttl = Some (e, s')"
  proof -
    have put: "put t s k v ttl = Some (None, s')" "ok s'" using put_returns [OF ok, of t k v ttl] that by auto
    show ?thesis
    proof (cases "k' = k")
      case True
      then show ?thesis using put put_same [OF ok put(1)] by (auto split: if_splits)
    next
      case False
      then have "fst (get u s' k') = Inr v' \<Longrightarrow> fst (get u s k') = Inr v'" for u
        using put_other [OF ok put(1) False, of u] by auto
      then show ?thesis using put(2) False by blast
    qed
  qed
  show "ok s' \<and> ((\<exists>t. fst (get t s' k') = Inr v') \<longrightarrow> (\<exists>t. fst (get t s k') = Inr v') \<and> (k' = k \<longrightarrow> e \<noteq> None))"
    if "del s k = (e, s')"
    using del_ok [OF ok, of k] del_get [OF ok, of _ k k'] that by (auto split: if_splits)
  show "ok (background b s) \<and> ((\<exists>t. fst (get t (background b s) k') = Inr v') \<longrightarrow> (\<exists>t. fst (get t s k') = Inr v'))"
  proof -
    have "fst (get u (background b s) k') = Inr v' \<Longrightarrow> fst (get u s k') = Inr v'" for u
      using background_get [OF ok, of u b k'] by auto
    then show ?thesis using background_ok [OF ok] by blast
  qed
qed

section \<open>Both caches keep it\<close>

text \<open>The others on the server leave the keys of this cache alone, or remove them.\<close>

definition redis_ok :: "('w \<Rightarrow> string \<rightharpoonup> bytes) \<Rightarrow> (int \<Rightarrow> 'w \<Rightarrow> 'w) \<Rightarrow> 'w Redis \<Rightarrow> bool" where
  "redis_ok store others c \<longleftrightarrow> redis_contract (rd_client c) store
     \<and> (\<forall>t w k. store (others t w) (buildKey c k) \<in> {None, store w (buildKey c k)})"

fun cache_ok :: "('w \<Rightarrow> string \<rightharpoonup> bytes) \<Rightarrow> (int \<Rightarrow> 'w \<Rightarrow> 'w) \<Rightarrow> 'w cache \<Rightarrow> bool" where
  "cache_ok store others (MemoryCache m, w) = mem_ok m"
| "cache_ok store others (RedisCache c, w) = redis_ok store others c"

fun cache_may :: "('w \<Rightarrow> string \<rightharpoonup> bytes) \<Rightarrow> 'w cache \<Rightarrow> string \<Rightarrow> bytes \<Rightarrow> bool" where
  "cache_may store (MemoryCache m, w) k v = (\<exists>t. fst (Memory_Get t m k) = Inr v)"
| "cache_may store (RedisCache c, w) k v = (store w (buildKey c k) = Some v)"

lemma redis_get_store:
  assumes "redis_ok store others c" "Redis_Get c k w = (r, w')"
  shows "store w' = store w \<and> (\<forall>v. r = Inr v \<longrightarrow> store w (buildKey c k) = Some v)"
proof -
  obtain x s where x: "rd_Get (rd_client c) (buildKey c k) w = (x, s)" by fastforce
  show ?thesis using redis_GetD [OF _ x] assms x by (auto simp: redis_ok_def Redis_Get_def split: sum.splits)
qed

lemma redis_set_store:
  assumes "redis_ok store others c" "Redis_Set c k v ttl w = (e, w')"
  shows "store w' = (store w)(buildKey c k \<mapsto> v) \<or> e \<noteq> None \<and> store w' = store w"
proof -
  obtain x s where x: "rd_Set (rd_client c) (buildKey c k) v ttl w = (x, s)" by fastforce
  show ?thesis using redis_SetD [OF _ x] assms x by (auto simp: redis_ok_def Redis_Set_def Wrap_None_iff)
qed

lemma redis_del_store:
  assumes "redis_ok store others c" "Redis_Delete c k w = (e, w')"
  shows "store w' = (store w)(buildKey c k := None) \<or> e \<noteq> None \<and> store w' = store w"
proof -
  obtain x s where x: "rd_Del (rd_client c) (buildKey c k) w = (x, s)" by fastforce
  show ?thesis using redis_DelD [OF _ x] assms x by (auto simp: redis_ok_def Redis_Delete_def Wrap_None_iff)
qed

interpretation ci: cache_store Cache_Get Cache_Set Cache_Delete "cache_meanwhile others" "cache_ok store others" "cache_may store"
  for store others
proof unfold_locales
  fix s s' :: "'a cache" and t :: int and k k' v v' and ttl :: int and e r and b
  assume ok: "cache_ok store others s"
  obtain kind w where s: "s = (kind, w)" by (cases s)
  show "cache_may store s k v" if "Cache_Get t s k = (Inr v, s')"
    using that ok s mc.store.get_may [of _ t k v] redis_get_store by (cases kind) (fastforce split: prod.splits)+
  show "cache_ok store others s' \<and> (cache_may store s' k' v' \<longrightarrow> cache_may store s k' v')" if "Cache_Get t s k = (r, s')"
    using that ok s mc.store.get_keep [of _ t k r _ k' v'] redis_get_store by (cases kind) (fastforce split: prod.splits)+
  show "cache_ok store others s' \<and> (cache_may store s' k' v' \<longrightarrow>
      (k' = k \<and> v' = v) \<or> (cache_may store s k' v' \<and> (k' = k \<longrightarrow> e \<noteq> None)))" if "Cache_Set t s k v ttl = Some (e, s')"
  proof (cases kind)
    case (MemoryCache m)
    then show ?thesis using that ok s mc.store.put_keep [of m t k v ttl e _ k' v'] by auto
  next
    case (RedisCache c)
    then show ?thesis using that ok s redis_set_store [of store others c k v ttl w e] by (auto simp: buildKey_inject split: prod.splits if_splits)
  qed
  show "cache_ok store others s' \<and> (cache_may store s' k' v' \<longrightarrow> cache_may store s k' v' \<and> (k' = k \<longrightarrow> e \<noteq> None))"
    if "Cache_Delete s k = (e, s')"
  proof (cases kind)
    case (MemoryCache m)
    then show ?thesis using that ok s mc.store.del_keep [of m k e _ k' v'] by (auto split: prod.splits)
  next
    case (RedisCache c)
    then show ?thesis using that ok s redis_del_store [of store others c k w e] by (auto simp: buildKey_inject split: prod.splits if_splits)
  qed
  show "cache_ok store others (cache_meanwhile others b s) \<and> (cache_may store (cache_meanwhile others b s) k' v' \<longrightarrow> cache_may store s k' v')"
  proof (cases kind)
    case (MemoryCache m)
    then show ?thesis using ok s mc.store.meanwhile_keep [of m b k' v'] by auto
  next
    case (RedisCache c)
    then have "store (others (fst b) w) (buildKey c k') \<in> {None, store w (buildKey c k')}" using ok s by (simp add: redis_ok_def)
    then show ?thesis using RedisCache ok s by auto
  qed
qed

section \<open>Histories\<close>

text \<open>Calls and what happens between them, with the errors of the calls.\<close>

datatype cache_op =
    OpGet string
  | OpSet string bytes int
  | OpDelete string
  | OpClose
  | OpMeanwhile "string list"

fun cache_do :: "(int \<Rightarrow> 'w \<Rightarrow> 'w) \<Rightarrow> int \<Rightarrow> cache_op \<Rightarrow> 'w cache \<Rightarrow> (err \<times> 'w cache) option" where
  "cache_do others now (OpGet k) s = (case Cache_Get now s k of (r, s') \<Rightarrow> Some (case r of Inl e \<Rightarrow> Some e | Inr v \<Rightarrow> None, s'))"
| "cache_do others now (OpSet k v ttl) s = Cache_Set now s k v ttl"
| "cache_do others now (OpDelete k) s = Some (Cache_Delete s k)"
| "cache_do others now OpClose s = Cache_Close s"
| "cache_do others now (OpMeanwhile order) s = Some (None, cache_meanwhile others (now, order) s)"

fun cache_run :: "(int \<Rightarrow> 'w \<Rightarrow> 'w) \<Rightarrow> (int \<times> cache_op) list \<Rightarrow> 'w cache \<Rightarrow> ((cache_op \<times> err) list \<times> 'w cache) option" where
  "cache_run others [] s = Some ([], s)"
| "cache_run others ((now, op) # ops) s = (case cache_do others now op s of
     None \<Rightarrow> None
   | Some (e, s1) \<Rightarrow> map_option (map_prod ((#) (op, e)) id) (cache_run others ops s1))"

text \<open>The values a caller has to reckon with after a call: a write that failed adds one, a write that succeeded leaves one.\<close>

fun reckon :: "(string \<Rightarrow> bytes set) \<Rightarrow> cache_op \<times> err \<Rightarrow> string \<Rightarrow> bytes set" where
  "reckon W (OpSet k v ttl, e) = W(k := (if e = None then {v} else insert v (W k)))"
| "reckon W (OpDelete k, e) = (if e = None then W(k := {}) else W)"
| "reckon W _ = W"

lemma close_below:
  assumes "ci.below store others s W" "Cache_Close s = Some (e, s')"
  shows "ci.below store others s' W"
  using assms
  by (cases s rule: Cache_Close.cases) (auto simp: ci.below_def Memory_Close_def mem_ok_def mem_inv_def split: if_splits)

lemma do_below:
  assumes "ci.below store others s W" "cache_do others now op s = Some (e, s')"
  shows "ci.below store others s' (reckon W (op, e))"
proof (cases op)
  case (OpGet k)
  then show ?thesis using assms(2) ci.below_get [OF assms(1), of now k] by (cases "Cache_Get now s k") simp
next
  case (OpSet k v ttl)
  then show ?thesis using assms(2) ci.below_put [OF assms(1), of now k v ttl e s'] by simp
next
  case (OpDelete k)
  then show ?thesis using assms(2) ci.below_del [OF assms(1), of k e s'] by simp
next
  case OpClose
  then show ?thesis using assms(2) close_below [OF assms(1), of e s'] by simp
next
  case (OpMeanwhile order)
  then show ?thesis using assms(2) ci.below_meanwhile [OF assms(1), of "(now, order)"] by simp
qed

lemma run_below:
  "ci.below store others s W \<Longrightarrow> cache_run others ops s = Some (rs, s') \<Longrightarrow> ci.below store others s' (foldl reckon W rs)"
proof (induction ops arbitrary: s W rs)
  case (Cons op ops)
  obtain now o1 where op: "op = (now, o1)" by (cases op)
  obtain e s1 rs1 where "cache_do others now o1 s = Some (e, s1)" "cache_run others ops s1 = Some (rs1, s')" "rs = (o1, e) # rs1"
    using Cons.prems(2) op by (auto split: option.splits)
  then show ?case using Cons.IH do_below [OF Cons.prems(1)] by fastforce
qed simp

section \<open>Properties\<close>

text \<open>What New returns keeps the promise, and no key has a value but those the server already held.\<close>

lemma New_below:
  assumes new: "cache_New opts rc = (Some c, cl, None)" and "cc_Mode opts = ''memory'' \<longrightarrow> 1 \<le> cc_MaxEntries opts"
    and "case rc of None \<Rightarrow> True | Some client \<Rightarrow> redis_ok store others (NewRedisWithPrefix client (cc_RedisKeyPrefix opts))"
  shows "ci.below store others (c, w) (\<lambda>k. set_option (store w (cc_RedisKeyPrefix opts @ ''cache:'' @ k)))"
proof (cases "cc_Mode opts = ''memory''")
  case True
  then have "c = MemoryCache (NewMemory (cc_MaxEntries opts))" "1 \<le> cc_MaxEntries opts" using assms(1,2) by (simp_all add: cache_New_def)
  then show ?thesis by (simp add: ci.below_def NewMemory_ok) (simp add: Memory_Get_def NewMemory_def)
next
  case False
  then obtain client where "rc = Some client" "c = RedisCache (NewRedisWithPrefix client (cc_RedisKeyPrefix opts))"
    using new by (auto simp: cache_New_def split: if_splits option.splits)
  then show ?thesis using assms(3) by (simp add: ci.below_def buildKey_def) (simp add: NewRedisWithPrefix_def)
qed

text \<open>
  C5 (safety): whichever cache the configuration selects, a caller of the interface reads only what the history allows:
  after any calls, with the clean-up or other users of the server at work between them, a key has the value of its last
  successful Set, or one a failed Set since then tried to store, and none after a successful Delete.
\<close>

theorem caches_coherent:
  assumes "cache_New opts rc = (Some c, cl, None)" "cc_Mode opts = ''memory'' \<longrightarrow> 1 \<le> cc_MaxEntries opts"
    and "case rc of None \<Rightarrow> True | Some client \<Rightarrow> redis_ok store others (NewRedisWithPrefix client (cc_RedisKeyPrefix opts))"
    and "cache_run others ops (c, w) = Some (rs, s)" "Cache_Get now s k = (Inr v, s')"
  shows "v \<in> foldl reckon (\<lambda>k. set_option (store w (cc_RedisKeyPrefix opts @ ''cache:'' @ k))) rs k"
  using ci.below_answer [OF run_below [OF New_below [OF assms(1-3)] assms(4)] assms(5)] .

definition clock_runs :: "int \<Rightarrow> redis_world \<Rightarrow> redis_world" where
  "clock_runs t w = w\<lparr>rw_now := max (rw_now w) t\<rparr>"

lemma redis_server_ok: "redis_ok redis_visible clock_runs (NewRedisWithPrefix redis_server p)"
  using redis_server_contract
  by (auto simp: redis_ok_def NewRedisWithPrefix_def redis_visible_def clock_runs_def redis_live_def split: option.splits)

definition demo_config :: cache_Config where
  "demo_config = \<lparr>cc_Mode = ''redis'', cc_TTL = 0, cc_MaxEntries = 0, cc_RedisKeyPrefix = ''app:''\<rparr>"

definition demo_ops :: "(int \<times> cache_op) list" where
  "demo_ops = [(0, OpSet ''a'' ''1'' 5000000), (1000000, OpMeanwhile []), (1000000, OpSet ''a'' ''2'' 5000000), (2000000, OpMeanwhile [])]"

definition demo_world :: redis_world where
  "demo_world = \<lparr>rw_now = 0, rw_keys = Map.empty\<rparr>"

lemma demo_New: "cache_New demo_config (Some redis_server) = (Some (RedisCache (NewRedisWithPrefix redis_server ''app:'')), CleanupClose, None)"
  by (simp add: cache_New_def demo_config_def)

lemma demo_run:
  "\<exists>s s'. cache_run clock_runs demo_ops (RedisCache (NewRedisWithPrefix redis_server ''app:''), demo_world)
       = Some (map (\<lambda>(t, op). (op, None)) demo_ops, s) \<and> Cache_Get 2000000 s ''a'' = (Inr ''2'', s')"
  by (simp add: demo_ops_def demo_world_def clock_runs_def Redis_Set_def Redis_Get_def NewRedisWithPrefix_def redis_server_def
      buildKey_def whole_ms_def redis_live_def)

theorem caches_coherent_witness:
  "cache_New demo_config (Some redis_server) = (Some (RedisCache (NewRedisWithPrefix redis_server ''app:'')), CleanupClose, None)
   \<and> (\<exists>s s'. cache_run clock_runs demo_ops (RedisCache (NewRedisWithPrefix redis_server ''app:''), demo_world)
        = Some (map (\<lambda>(t, op). (op, None)) demo_ops, s) \<and> Cache_Get 2000000 s ''a'' = (Inr ''2'', s'))
   \<and> ''2'' \<in> foldl reckon (\<lambda>k. set_option (redis_visible demo_world (''app:'' @ ''cache:'' @ k))) (map (\<lambda>(t, op). (op, None)) demo_ops) ''a''"
proof -
  obtain s s' where run: "cache_run clock_runs demo_ops (RedisCache (NewRedisWithPrefix redis_server ''app:''), demo_world)
       = Some (map (\<lambda>(t, op). (op, None)) demo_ops, s)" "Cache_Get 2000000 s ''a'' = (Inr ''2'', s')"
    using demo_run by blast
  show ?thesis
    using demo_New demo_run caches_coherent [OF demo_New _ _ run, of redis_visible] redis_server_ok by (simp add: demo_config_def)
qed

end
