(* ===== verification/RateLimit.thy ===== *)
theory RateLimit
  imports CtxErrors GoStrings Complex_Main
begin

text \<open>
  The registry of rate limiters (src/ratelimit/ratelimit.go) on the token bucket of golang.org/x/time/rate
  (src/vendor/golang.org/x/time/rate/rate.go). Times and durations are nanoseconds. The float64 values of the bucket are
  rational numbers here: the arithmetic is exact, only the conversion of a duration to whole nanoseconds truncates.
\<close>

section \<open>Time\<close>

text \<open>The zero value of a time is the first day of year 1; a difference of times is kept within an int64.\<close>

definition zero_time :: int where
  "zero_time = - 62135596800 * 10 ^ 9"

definition InfDuration :: int where
  "InfDuration = 2 ^ 63 - 1"

definition time_Sub :: "int \<Rightarrow> int \<Rightarrow> int" where
  "time_Sub t u = max (- (2 ^ 63)) (min InfDuration (t - u))"

section \<open>The token bucket\<close>

text \<open>\<open>math.MaxFloat64\<close>, the rate that stands for no limit.\<close>

definition rate_Inf :: rat where
  "rate_Inf = (2 ^ 53 - 1) * 2 ^ 971"

record Limiter =
  lim_limit :: rat
  lim_burst :: int
  lim_tokens :: rat
  lim_last :: int
  lim_lastEvent :: int

definition NewLimiter :: "rat \<Rightarrow> int \<Rightarrow> Limiter" where
  "NewLimiter r b = \<lparr>lim_limit = r, lim_burst = b, lim_tokens = of_int b, lim_last = zero_time, lim_lastEvent = zero_time\<rparr>"

text \<open>The conversion of a float64 to an integer drops the fraction.\<close>

definition truncated :: "rat \<Rightarrow> int" where
  "truncated x = (if x < 0 then - \<lfloor>- x\<rfloor> else \<lfloor>x\<rfloor>)"

definition durationFromTokens :: "rat \<Rightarrow> rat \<Rightarrow> int" where
  "durationFromTokens limit tokens =
     (if limit \<le> 0 then InfDuration
      else let duration = tokens / limit * 10 ^ 9 in
        if duration > of_int InfDuration then InfDuration else truncated duration)"

definition tokensFromDuration :: "rat \<Rightarrow> int \<Rightarrow> rat" where
  "tokensFromDuration limit d = (if limit \<le> 0 then 0 else of_int d / 10 ^ 9 * limit)"

definition advance :: "Limiter \<Rightarrow> int \<Rightarrow> rat" where
  "advance lm t =
     (let last = if t < lim_last lm then t else lim_last lm;
          tokens = lim_tokens lm + tokensFromDuration (lim_limit lm) (time_Sub t last)
      in if tokens > of_int (lim_burst lm) then of_int (lim_burst lm) else tokens)"

text \<open>A reservation; the limiter it belongs to is passed beside it.\<close>

record Reservation =
  rs_ok :: bool
  rs_tokens :: int
  rs_timeToAct :: int
  rs_limit :: rat

definition reserveN :: "Limiter \<Rightarrow> int \<Rightarrow> int \<Rightarrow> int \<Rightarrow> Reservation \<times> Limiter" where
  "reserveN lm t n maxFutureReserve =
     (if lim_limit lm = rate_Inf
      then (\<lparr>rs_ok = True, rs_tokens = n, rs_timeToAct = t, rs_limit = 0\<rparr>, lm)
      else
        let tokens = advance lm t - of_int n;
            waitDuration = if tokens < 0 then durationFromTokens (lim_limit lm) (- tokens) else 0
        in if n \<le> lim_burst lm \<and> waitDuration \<le> maxFutureReserve
           then (\<lparr>rs_ok = True, rs_tokens = n, rs_timeToAct = t + waitDuration, rs_limit = lim_limit lm\<rparr>,
                 lm\<lparr>lim_last := t, lim_tokens := tokens, lim_lastEvent := t + waitDuration\<rparr>)
           else (\<lparr>rs_ok = False, rs_tokens = 0, rs_timeToAct = zero_time, rs_limit = lim_limit lm\<rparr>, lm))"

definition DelayFrom :: "Reservation \<Rightarrow> int \<Rightarrow> int" where
  "DelayFrom r t = (if \<not> rs_ok r then InfDuration else max 0 (time_Sub (rs_timeToAct r) t))"

definition CancelAt :: "Reservation \<Rightarrow> int \<Rightarrow> Limiter \<Rightarrow> Limiter" where
  "CancelAt r t lm =
     (if \<not> rs_ok r then lm
      else if lim_limit lm = rate_Inf \<or> rs_tokens r = 0 \<or> rs_timeToAct r < t then lm
      else
        let restoreTokens = of_int (rs_tokens r) - tokensFromDuration (rs_limit r) (time_Sub (lim_lastEvent lm) (rs_timeToAct r))
        in if restoreTokens \<le> 0 then lm
           else
             let tokens = advance lm t + restoreTokens;
                 tokens = if tokens > of_int (lim_burst lm) then of_int (lim_burst lm) else tokens;
                 lm' = lm\<lparr>lim_last := t, lim_tokens := tokens\<rparr>;
                 prevEvent = rs_timeToAct r + durationFromTokens (rs_limit r) (of_int (- rs_tokens r))
             in if rs_timeToAct r = lim_lastEvent lm' \<and> \<not> prevEvent < t then lm'\<lparr>lim_lastEvent := prevEvent\<rparr> else lm')"

text \<open>
  Waiting for n tokens up to the point where the call returns or blocks on its timer: the context is what it says when it
  is asked, its error if it is done and its deadline. A blocked call goes on when the timer fires or the context is
  done; in the second case it gives its reservation back.
\<close>

record wait_ctx =
  wc_Err :: err
  wc_Deadline :: "int option"

datatype waiting =
    WaitReturned err
  | WaitBlocked Reservation int

definition lim_wait :: "wait_ctx \<Rightarrow> int \<Rightarrow> int \<Rightarrow> Limiter \<Rightarrow> waiting \<times> Limiter" where
  "lim_wait ctx n t lm =
     (if n > lim_burst lm \<and> lim_limit lm \<noteq> rate_Inf
      then (WaitReturned (Some (Foreign (''rate: Wait(n='' @ itoa n @ '') exceeds limiter's burst '' @ itoa (lim_burst lm)))), lm)
      else case wc_Err ctx of
        Some e \<Rightarrow> (WaitReturned (Some e), lm)
      | None \<Rightarrow>
          (case reserveN lm t n (case wc_Deadline ctx of None \<Rightarrow> InfDuration | Some deadline \<Rightarrow> time_Sub deadline t) of
             (r, lm') \<Rightarrow>
               if \<not> rs_ok r
               then (WaitReturned (Some (Foreign (''rate: Wait(n='' @ itoa n @ '') would exceed context deadline''))), lm')
               else let delay = DelayFrom r t in
                 if delay = 0 then (WaitReturned None, lm') else (WaitBlocked r delay, lm')))"

datatype wake =
    TimerFired
  | CtxDone go_error int

fun lim_wake :: "Reservation \<Rightarrow> wake \<Rightarrow> Limiter \<Rightarrow> err \<times> Limiter" where
  "lim_wake r TimerFired lm = (None, lm)"
| "lim_wake r (CtxDone e now) lm = (Some e, CancelAt r now lm)"

section \<open>The registry\<close>

text \<open>
  The map of the registry holds pointers, so that the limiters live in a store and a call that waits keeps the limiter
  it found, also when its name is registered again. An address is an index of the store.
\<close>

record Registry =
  rg_limiters :: "(string, nat) gomap"
  rg_store :: "Limiter list"

definition ratelimit_New :: Registry where
  "ratelimit_New = \<lparr>rg_limiters = [], rg_store = []\<rparr>"

definition ratelimit_Register :: "Registry \<Rightarrow> string \<Rightarrow> rat \<Rightarrow> int \<Rightarrow> Registry" where
  "ratelimit_Register l name rps burst =
     \<lparr>rg_limiters = map_put name (length (rg_store l)) (rg_limiters l), rg_store = rg_store l @ [NewLimiter rps burst]\<rparr>"

datatype call =
    CallReturned err
  | CallBlocked string nat Reservation int

definition ratelimit_Wait :: "Registry \<Rightarrow> wait_ctx \<Rightarrow> string \<Rightarrow> int \<Rightarrow> call \<times> Registry" where
  "ratelimit_Wait l ctx name t = (case map_of (rg_limiters l) name of
     None \<Rightarrow> (CallReturned (Some (ctx_New (''rate limiter not found: '' @ name))), l)
   | Some a \<Rightarrow> (case lim_wait ctx 1 t (rg_store l ! a) of
       (WaitReturned e, lm) \<Rightarrow> (CallReturned (Wrap e (''rate limit wait: '' @ name)), l\<lparr>rg_store := (rg_store l)[a := lm]\<rparr>)
     | (WaitBlocked r delay, lm) \<Rightarrow> (CallBlocked name a r delay, l\<lparr>rg_store := (rg_store l)[a := lm]\<rparr>)))"

definition ratelimit_Wake :: "Registry \<Rightarrow> string \<Rightarrow> nat \<Rightarrow> Reservation \<Rightarrow> wake \<Rightarrow> err \<times> Registry" where
  "ratelimit_Wake l name a r how = (case lim_wake r how (rg_store l ! a) of
     (e, lm) \<Rightarrow> (Wrap e (''rate limit wait: '' @ name), l\<lparr>rg_store := (rg_store l)[a := lm]\<rparr>))"

section \<open>The bucket never gives more than its rate\<close>

text \<open>The tokens that flow in during a duration.\<close>

definition inflow :: "rat \<Rightarrow> int \<Rightarrow> rat" where
  "inflow r d = r * of_int d / 10 ^ 9"

lemma inflow_add: "inflow r (a + b) = inflow r a + inflow r b"
  by (simp add: inflow_def add_divide_distrib distrib_left)

lemma inflow_diff: "inflow r (a - b) = inflow r a - inflow r b"
  by (simp add: inflow_def diff_divide_distrib right_diff_distrib)

lemma inflow_mono: "0 \<le> r \<Longrightarrow> a \<le> b \<Longrightarrow> inflow r a \<le> inflow r b"
  by (simp add: inflow_def divide_right_mono mult_left_mono)

lemma inflow_0 [simp]: "inflow r 0 = 0"
  by (simp add: inflow_def)

lemma tokensFromDuration_inflow: "0 < r \<Longrightarrow> tokensFromDuration r d = inflow r d"
  by (simp add: tokensFromDuration_def inflow_def mult.commute)

lemma advance_le_burst: "advance lm t \<le> of_int (lim_burst lm)"
  by (simp add: advance_def Let_def)

lemma advance_le_inflow:
  assumes "0 < lim_limit lm" "lim_last lm \<le> t"
  shows "advance lm t \<le> lim_tokens lm + inflow (lim_limit lm) (t - lim_last lm)"
proof -
  have "time_Sub t (lim_last lm) \<le> t - lim_last lm" using assms(2) by (simp add: time_Sub_def InfDuration_def)
  then have "inflow (lim_limit lm) (time_Sub t (lim_last lm)) \<le> inflow (lim_limit lm) (t - lim_last lm)"
    using assms(1) by (intro inflow_mono) simp_all
  then show ?thesis using assms by (simp add: advance_def Let_def tokensFromDuration_inflow)
qed

text \<open>The duration a debt takes to be paid is rounded down to whole nanoseconds.\<close>

lemma durationFromTokens_bounds:
  assumes "0 < r" "0 < x"
  shows "0 \<le> durationFromTokens r x" "inflow r (durationFromTokens r x) \<le> x"
    "durationFromTokens r x < InfDuration \<Longrightarrow> x \<le> inflow r (durationFromTokens r x + 1)"
proof -
  define d where "d = x / r * 10 ^ 9"
  have d: "0 < d" "x = r * d / 10 ^ 9" using assms by (simp_all add: d_def)
  have le: "of_int n \<le> d \<Longrightarrow> inflow r n \<le> x" for n
    using assms(1) by (simp add: inflow_def d(2) divide_right_mono mult_left_mono)
  have ge: "d \<le> of_int n \<Longrightarrow> x \<le> inflow r n" for n
    using assms(1) by (simp add: inflow_def d(2) divide_right_mono mult_left_mono)
  have eq: "durationFromTokens r x = (if d > of_int InfDuration then InfDuration else \<lfloor>d\<rfloor>)"
    unfolding durationFromTokens_def d_def [symmetric] Let_def truncated_def using assms(1) d(1) by simp
  show "0 \<le> durationFromTokens r x" using d(1) by (simp add: eq InfDuration_def)
  show "inflow r (durationFromTokens r x) \<le> x" by (rule le) (simp add: eq)
  show "x \<le> inflow r (durationFromTokens r x + 1)" if "durationFromTokens r x < InfDuration"
    using that floor_correct [of d] by (intro ge) (auto simp: eq split: if_splits)
qed

lemma reserve_spends:
  assumes "reserveN lm t 1 m = (r, lm')" "rs_ok r" "0 < lim_limit lm" "lim_limit lm \<noteq> rate_Inf"
  shows "lm' = lm\<lparr>lim_last := t, lim_tokens := advance lm t - 1, lim_lastEvent := rs_timeToAct r\<rparr>"
    "1 \<le> lim_burst lm" "t \<le> rs_timeToAct r"
    "lim_tokens lm' \<le> of_int (lim_burst lm) - 1 - inflow (lim_limit lm) (rs_timeToAct r - t)"
    "rs_timeToAct r - t < InfDuration \<Longrightarrow> - inflow (lim_limit lm) (rs_timeToAct r - t + 1) \<le> lim_tokens lm'"
proof -
  define k where "k = advance lm t - 1"
  define w where "w = (if k < 0 then durationFromTokens (lim_limit lm) (- k) else 0)"
  have r: "r = \<lparr>rs_ok = True, rs_tokens = 1, rs_timeToAct = t + w, rs_limit = lim_limit lm\<rparr>"
      "lm' = lm\<lparr>lim_last := t, lim_tokens := k, lim_lastEvent := t + w\<rparr>" "1 \<le> lim_burst lm"
    using assms(1,2,4) by (auto simp: reserveN_def Let_def k_def w_def split: if_splits)
  note d = durationFromTokens_bounds [of "lim_limit lm" "- k"]
  show "lm' = lm\<lparr>lim_last := t, lim_tokens := advance lm t - 1, lim_lastEvent := rs_timeToAct r\<rparr>" "1 \<le> lim_burst lm"
    using r by (simp_all add: k_def)
  show "t \<le> rs_timeToAct r" using d assms(3) by (simp add: r w_def)
  have "k \<le> of_int (lim_burst lm) - 1" "(1 :: rat) \<le> of_int (lim_burst lm)"
    using advance_le_burst [of lm t] r(3) by (simp_all add: k_def)
  moreover have "k < 0 \<Longrightarrow> inflow (lim_limit lm) w \<le> - k" "\<not> k < 0 \<Longrightarrow> inflow (lim_limit lm) w = 0"
    using d(2) assms(3) by (simp_all add: w_def)
  ultimately have "k \<le> of_int (lim_burst lm) - 1 - inflow (lim_limit lm) w" by linarith
  then show "lim_tokens lm' \<le> of_int (lim_burst lm) - 1 - inflow (lim_limit lm) (rs_timeToAct r - t)" by (simp add: r)
  show "- inflow (lim_limit lm) (rs_timeToAct r - t + 1) \<le> lim_tokens lm'" if "rs_timeToAct r - t < InfDuration"
    using d(3) assms(3) that inflow_mono [of "lim_limit lm" 0 1] by (auto simp: r w_def)
qed

text \<open>
  What the bucket knows of the calls it let through, in the order in which they came: the tokens it holds are at most
  those of a full bucket at the time of a call, less one for this call and each later one, plus what flowed in since.
\<close>

definition spent :: "Limiter \<Rightarrow> int list \<Rightarrow> bool" where
  "spent lm g \<longleftrightarrow> (\<forall>i<length g. lim_tokens lm \<le>
     of_int (lim_burst lm) - of_nat (length g - i) + inflow (lim_limit lm) (lim_last lm - g ! i))"

definition within_rate :: "rat \<Rightarrow> int \<Rightarrow> int list \<Rightarrow> bool" where
  "within_rate r b g \<longleftrightarrow> (\<forall>j<length g. \<forall>i\<le>j. of_nat (j - i + 1) \<le> of_int b + inflow r (g ! j - g ! i + 1))"

lemma within_rate_snoc:
  "within_rate r b (g @ [x]) \<longleftrightarrow> within_rate r b g
     \<and> (\<forall>i\<le>length g. of_nat (length g - i + 1) \<le> of_int b + inflow r (x - (g @ [x]) ! i + 1))"
  by (fastforce simp: within_rate_def nth_append less_Suc_eq)

section \<open>Calls that wait\<close>

text \<open>
  A call is the time at which it goes on, and whether it waits and may give up until then. The tokens are at most the
  debt a waiting call left, less one for each later call, plus what flowed in; so the calls that wait are at least an
  interval apart, and the last event is none of them too early.
\<close>

type_synonym visit = "int \<times> bool"

definition interval :: "rat \<Rightarrow> int" where
  "interval r = \<lfloor>10 ^ 9 / r\<rfloor>"

definition owed :: "Limiter \<Rightarrow> visit list \<Rightarrow> nat \<Rightarrow> bool" where
  "owed lm v i \<longleftrightarrow> lim_tokens lm \<le> inflow (lim_limit lm) (lim_last lm - fst (v ! i)) - of_nat (length v - 1 - i)"

definition queued :: "Limiter \<Rightarrow> visit list \<Rightarrow> nat \<Rightarrow> bool" where
  "queued lm v k \<longleftrightarrow> (\<forall>i. k \<le> i \<and> i < length v \<longrightarrow> owed lm v i \<and> fst (v ! i) \<le> lim_lastEvent lm)
     \<and> (\<forall>i j. k \<le> i \<and> i < j \<and> j < length v \<longrightarrow> fst (v ! i) + interval (lim_limit lm) \<le> fst (v ! j))"

text \<open>The state of a limiter at a time, after so many calls.\<close>

definition bucket_ok :: "rat \<Rightarrow> int \<Rightarrow> nat \<Rightarrow> visit list \<Rightarrow> int \<Rightarrow> Limiter \<Rightarrow> bool" where
  "bucket_ok r b c v t lm \<longleftrightarrow> lim_limit lm = r \<and> lim_burst lm = b \<and> spent lm (map fst v) \<and> within_rate r b (map fst v)
     \<and> (v \<noteq> [] \<longrightarrow> lim_last lm \<le> t \<and> 1 \<le> b \<and> lim_lastEvent lm \<le> t + InfDuration)
     \<and> (\<forall>k<length v. snd (v ! k) \<and> t \<le> fst (v ! k) \<longrightarrow> queued lm v k)
     \<and> (1 \<le> b \<longrightarrow> - of_nat c \<le> lim_tokens lm)"

lemma bucket_ok_later: "bucket_ok r b c v t lm \<Longrightarrow> t \<le> u \<Longrightarrow> bucket_ok r b c v u lm"
  by (auto simp: bucket_ok_def)

lemma bucket_ok_more: "bucket_ok r b c v t lm \<Longrightarrow> c \<le> d \<Longrightarrow> bucket_ok r b d v t lm"
  by (auto simp: bucket_ok_def intro: order.trans [rotated])

lemma bucket_ok_NewLimiter: "bucket_ok r b 0 [] t (NewLimiter r b)"
  by (simp add: bucket_ok_def spent_def within_rate_def NewLimiter_def)

lemma advance_ge: "x \<le> lim_tokens lm \<Longrightarrow> x \<le> of_int (lim_burst lm) \<Longrightarrow> 0 < lim_limit lm \<Longrightarrow> x \<le> advance lm t"
proof -
  assume x: "x \<le> lim_tokens lm" "x \<le> of_int (lim_burst lm)" "0 < lim_limit lm"
  have "0 \<le> time_Sub t (min t (lim_last lm))" by (simp add: time_Sub_def InfDuration_def)
  then have "0 \<le> tokensFromDuration (lim_limit lm) (time_Sub t (min t (lim_last lm)))"
    using x(3) inflow_mono [of "lim_limit lm" 0] by (simp add: tokensFromDuration_inflow)
  moreover have "(if t < lim_last lm then t else lim_last lm) = min t (lim_last lm)" by simp
  ultimately show ?thesis using x by (simp add: advance_def Let_def)
qed

lemma durationFromTokens_floor:
  assumes "0 < r" "0 < x" "x < inflow r InfDuration"
  shows "durationFromTokens r x = \<lfloor>x / r * 10 ^ 9\<rfloor>" "durationFromTokens r x < InfDuration"
proof -
  define d where "d = x / r * 10 ^ 9"
  have d: "d < of_int InfDuration" "0 < d" using assms by (simp_all add: d_def inflow_def field_simps)
  then have "durationFromTokens r x = \<lfloor>d\<rfloor>"
    using assms(1) unfolding durationFromTokens_def truncated_def Let_def d_def [symmetric] by simp
  then show "durationFromTokens r x = \<lfloor>x / r * 10 ^ 9\<rfloor>" "durationFromTokens r x < InfDuration"
    using d by (simp_all add: d_def floor_less_iff)
qed

lemma interval_later:
  assumes "0 < r" "1 + inflow r d \<le> x"
  shows "d + interval r \<le> \<lfloor>x / r * 10 ^ 9\<rfloor>"
proof -
  have "(1 + inflow r d) / r * 10 ^ 9 \<le> x / r * 10 ^ 9" using assms by (intro mult_right_mono divide_right_mono) simp_all
  moreover have "(1 + inflow r d) / r * 10 ^ 9 = 10 ^ 9 / r + of_int d" using assms(1) by (simp add: inflow_def field_simps)
  ultimately have "\<lfloor>10 ^ 9 / r + of_int d\<rfloor> \<le> \<lfloor>x / r * 10 ^ 9\<rfloor>" by (intro floor_mono) simp
  then show ?thesis by (simp add: interval_def)
qed

lemma interval_nonneg: "0 < r \<Longrightarrow> 0 \<le> interval r"
  by (simp add: interval_def)

text \<open>A call that gets its token, now or later.\<close>

lemma reserve_ok:
  assumes ok: "bucket_ok r b c v t lm" and r: "0 < r" "r \<noteq> rate_Inf" and few: "of_nat (Suc c) < inflow r InfDuration"
    and res: "reserveN lm t 1 m = (rs, lm')" "rs_ok rs" and waits: "w \<longrightarrow> t < rs_timeToAct rs"
  shows "bucket_ok r b (Suc c) (v @ [(rs_timeToAct rs, w)]) t lm'"
    "rs_tokens rs = 1 \<and> rs_limit rs = r \<and> t \<le> rs_timeToAct rs \<and> rs_timeToAct rs - t < InfDuration"
proof -
  let ?x = "rs_timeToAct rs" and ?v = "v @ [(rs_timeToAct rs, w)]"
  define k where "k = advance lm t - 1"
  have lm: "lim_limit lm = r" "lim_burst lm = b" using ok by (simp_all add: bucket_ok_def)
  note sp = reserve_spends [OF res r [folded lm(1)], unfolded lm]
  have b: "1 \<le> b" using sp(2) .
  have kc: "- of_nat (Suc c) \<le> k"
    using advance_ge [of "- of_nat c" lm t] ok b r lm by (simp add: bucket_ok_def k_def)
  have kx: "k < 0 \<Longrightarrow> ?x = t + \<lfloor>- k / r * 10 ^ 9\<rfloor>" "k < 0 \<Longrightarrow> ?x - t < InfDuration" "\<not> k < 0 \<Longrightarrow> ?x = t" "rs_tokens rs = 1" "rs_limit rs = r"
    using res r lm kc few durationFromTokens_floor [of r "- k"] by (auto simp: reserveN_def Let_def k_def split: if_splits)
  have soon: "?x - t < InfDuration" using kx(2,3) by (cases "k < 0") (simp_all add: InfDuration_def)
  show "rs_tokens rs = 1 \<and> rs_limit rs = r \<and> t \<le> ?x \<and> ?x - t < InfDuration" using kx(4,5) sp(3) soon by simp
  have tok: "lim_tokens lm' = k" "lim_last lm' = t" "lim_lastEvent lm' = ?x" "lim_limit lm' = r" "lim_burst lm' = b"
    using lm by (simp_all add: sp(1) k_def)
  have flow: "k \<le> lim_tokens lm + inflow r (t - lim_last lm) - 1" if "v \<noteq> []"
    using advance_le_inflow [of lm t] r lm ok that by (simp add: k_def bucket_ok_def)
  have old: "k \<le> of_int b - of_nat (length v - i + 1) + inflow r (t - fst (v ! i))" if "i < length v" for i
  proof -
    have "lim_tokens lm \<le> of_int b - of_nat (length v - i) + inflow r (lim_last lm - fst (v ! i))"
      using ok that lm by (simp add: bucket_ok_def spent_def)
    moreover have "v \<noteq> []" using that by auto
    ultimately show ?thesis using flow by (simp add: inflow_diff)
  qed
  have new: "k \<le> of_int b - 1 + inflow r (t - ?x)" using sp(4) tok by (simp add: inflow_diff)
  have debt: "k \<le> inflow r (t - ?x)" if "k < 0"
  proof -
    have "inflow r (?x - t) \<le> - k"
      using that kx(1) durationFromTokens_floor(1) [of r "- k"] durationFromTokens_bounds(2) [of r "- k"] r kc few by simp
    then show ?thesis by (simp add: inflow_diff)
  qed
  have spent': "spent lm' (map fst ?v)"
    using old new tok by (auto simp: spent_def nth_append less_Suc_eq Suc_diff_le)
  have rate: "within_rate r b (map fst ?v)"
  proof -
    have "of_nat (length v - i + 1) \<le> of_int b + inflow r (?x - (map fst v @ [?x]) ! i + 1)" if "i \<le> length v" for i
    proof (cases "i = length v")
      case True
      then show ?thesis using b r inflow_mono [of r 0 1] by (simp add: nth_append inflow_diff inflow_add)
    next
      case False
      then have i: "i < length v" using that by simp
      show ?thesis using old [OF i] sp(5) [OF soon] tok(1) i by (simp add: nth_append inflow_diff inflow_add)
    qed
    then show ?thesis using ok by (simp add: bucket_ok_def within_rate_snoc)
  qed
  have queue: "queued lm' ?v n" if n: "n < length ?v" "snd (?v ! n)" "t \<le> fst (?v ! n)" for n
  proof (cases "n = length v")
    case True
    then have "k < 0" using n waits kx(3) by (auto simp: nth_append)
    then show ?thesis using True debt tok by (auto simp: queued_def owed_def nth_append)
  next
    case False
    then have n': "n < length v" "snd (v ! n)" "t \<le> fst (v ! n)" using n by (simp_all add: nth_append)
    then have q: "queued lm v n" "v \<noteq> []" using ok by (auto simp: bucket_ok_def)
    have after: "1 + inflow r (fst (v ! i) - t) \<le> - k" "k \<le> inflow r (t - fst (v ! i)) - of_nat (length v - i)" if "n \<le> i" "i < length v" for i
    proof -
      have "lim_tokens lm \<le> inflow r (lim_last lm - fst (v ! i)) - of_nat (length v - 1 - i)"
        using q(1) that lm by (simp add: queued_def owed_def)
      moreover have "(of_nat (length v - i) :: rat) = of_nat (length v - 1 - i) + 1"
        using that by (simp add: of_nat_diff)
      ultimately show "k \<le> inflow r (t - fst (v ! i)) - of_nat (length v - i)" "1 + inflow r (fst (v ! i) - t) \<le> - k"
        using flow [OF q(2)] by (simp_all add: inflow_diff)
    qed
    have "0 \<le> inflow r (fst (v ! n) - t)" using n'(3) r inflow_mono [of r 0] by simp
    then have neg: "k < 0" using after(1) [of n] n'(1) by simp
    have apart: "fst (v ! i) + interval r \<le> ?x" if "n \<le> i" "i < length v" for i
      using interval_later [OF r(1) after(1) [OF that]] kx(1) [OF neg] by simp
    have last: "fst (v ! i) \<le> ?x" if "n \<le> i" "i < length v" for i
      using apart [OF that] interval_nonneg [OF r(1)] by simp
    have o1: "owed lm' ?v i" if "n \<le> i" "i < length ?v" for i
      using that after(2) [of i] debt [OF neg] tok by (cases "i < length v") (auto simp: owed_def nth_append)
    have o2: "fst (?v ! i) + interval r \<le> fst (?v ! j)" if "n \<le> i" "i < j" "j < length ?v" for i j
      using that apart [of i] q(1) lm by (auto simp: queued_def nth_append less_Suc_eq)
    show ?thesis unfolding queued_def tok using o1 o2 last by (auto simp: nth_append)
  qed
  show "bucket_ok r b (Suc c) ?v t lm'"
    unfolding bucket_ok_def tok using spent' rate queue b soon kc by auto
qed

text \<open>A call that waits gives up: it leaves the queue, and its tokens go back as far as nobody behind it needs them.\<close>

definition skip_at :: "nat \<Rightarrow> nat \<Rightarrow> nat" where
  "skip_at n i = (if i < n then i else Suc i)"

lemma nth_skip_at: "(xs @ ys) ! i = (xs @ x # ys) ! skip_at (length xs) i"
  by (simp add: skip_at_def nth_append Suc_diff_le)

lemma skip_at_less: "i < length (xs @ ys) \<Longrightarrow> skip_at (length xs) i < length (xs @ x # ys)"
  by (auto simp: skip_at_def)

lemma skip_at_mono: "i < j \<Longrightarrow> skip_at n i < skip_at n j" "i \<le> j \<Longrightarrow> skip_at n i \<le> skip_at n j"
  by (auto simp: skip_at_def)

lemma within_rate_remove:
  assumes "within_rate r b (xs @ x # ys)"
  shows "within_rate r b (xs @ ys)"
  unfolding within_rate_def
proof (intro allI impI)
  fix j i assume j: "j < length (xs @ ys)" and i: "i \<le> j"
  let ?p = "skip_at (length xs)"
  have nat: "j - i + 1 \<le> ?p j - ?p i + 1" using i by (auto simp: skip_at_def)
  have "of_nat (?p j - ?p i + 1) \<le> of_int b + inflow r ((xs @ ys) ! j - (xs @ ys) ! i + 1)"
    using assms skip_at_less [OF j] skip_at_mono(2) [OF i] unfolding within_rate_def nth_skip_at [of xs ys _ x] by blast
  moreover have "(of_nat (j - i + 1) :: rat) \<le> of_nat (?p j - ?p i + 1)" using nat by (rule of_nat_mono)
  ultimately show "of_nat (j - i + 1) \<le> of_int b + inflow r ((xs @ ys) ! j - (xs @ ys) ! i + 1)" by linarith
qed

lemma queued_remove:
  assumes q: "queued lm (xs @ x # ys) (skip_at (length xs) k)"
    and lm': "lim_limit lm' = lim_limit lm"
    and owed': "\<And>i. k \<le> i \<Longrightarrow> i < length (xs @ ys) \<Longrightarrow> owed lm (xs @ x # ys) (skip_at (length xs) i) \<Longrightarrow> owed lm' (xs @ ys) i"
    and last': "\<And>i. k \<le> i \<Longrightarrow> i < length (xs @ ys) \<Longrightarrow> fst ((xs @ ys) ! i) \<le> lim_lastEvent lm'"
  shows "queued lm' (xs @ ys) k"
proof -
  let ?v = "xs @ x # ys" and ?p = "skip_at (length xs)"
  have "owed lm ?v (?p i)" if "k \<le> i" "i < length (xs @ ys)" for i
    using q skip_at_mono(2) [OF that(1)] skip_at_less [OF that(2)] unfolding queued_def by blast
  moreover have "fst ((xs @ ys) ! i) + interval (lim_limit lm) \<le> fst ((xs @ ys) ! j)" if "k \<le> i" "i < j" "j < length (xs @ ys)" for i j
    using q skip_at_mono(2) [OF that(1)] skip_at_mono(1) [OF that(2)] skip_at_less [OF that(3)]
    unfolding queued_def nth_skip_at [of xs ys _ x] by blast
  ultimately show ?thesis using owed' last' by (auto simp: queued_def lm')
qed

lemma bucket_ok_remove:
  assumes ok: "bucket_ok r b c (xs @ x # ys) t lm"
  shows "bucket_ok r b c (xs @ ys) t lm"
proof -
  let ?v = "xs @ x # ys" and ?v' = "xs @ ys" and ?p = "skip_at (length xs)"
  have "spent lm (map fst ?v')" unfolding spent_def
  proof (intro allI impI)
    fix i assume "i < length (map fst ?v')"
    then have i: "i < length ?v'" by simp
    have "spent lm (map fst ?v)" using ok by (simp add: bucket_ok_def)
    then have "lim_tokens lm \<le> of_int (lim_burst lm) - of_nat (length ?v - ?p i) + inflow (lim_limit lm) (lim_last lm - fst (?v ! ?p i))"
      using skip_at_less [OF i, of x] unfolding spent_def length_map by (metis nth_map)
    moreover have "(of_nat (length ?v' - i) :: rat) \<le> of_nat (length ?v - ?p i)" by (auto simp: skip_at_def)
    ultimately show "lim_tokens lm \<le> of_int (lim_burst lm) - of_nat (length (map fst ?v') - i) + inflow (lim_limit lm) (lim_last lm - map fst ?v' ! i)"
      using i nth_skip_at [of xs ys i x] by (simp del: map_append)
  qed
  moreover have "within_rate r b (map fst ?v')" using ok by (auto simp: bucket_ok_def intro: within_rate_remove)
  moreover have "queued lm ?v' k" if k: "k < length ?v'" "snd (?v' ! k)" "t \<le> fst (?v' ! k)" for k
  proof (rule queued_remove [where x = x])
    show q: "queued lm ?v (?p k)"
      using ok k skip_at_less [OF k(1), of x] unfolding bucket_ok_def nth_skip_at [of xs ys _ x] by blast
    show "owed lm ?v' i" if "owed lm ?v (?p i)" for i
    proof -
      have "(of_nat (length ?v' - 1 - i) :: rat) \<le> of_nat (length ?v - 1 - ?p i)" by (auto simp: skip_at_def)
      then show ?thesis using that unfolding owed_def nth_skip_at [of xs ys _ x] by linarith
    qed
    show "fst (?v' ! i) \<le> lim_lastEvent lm" if "k \<le> i" "i < length ?v'" for i
      using q skip_at_mono(2) [OF that(1)] skip_at_less [OF that(2)] unfolding queued_def nth_skip_at [of xs ys _ x] by blast
  qed simp
  ultimately show ?thesis using ok by (simp add: bucket_ok_def)
qed

lemma durationFromTokens_back: "0 < r \<Longrightarrow> durationFromTokens r (- 1) = - interval r"
proof -
  assume r: "0 < r"
  then have "- 1 / r * 10 ^ 9 < 0" by simp
  moreover have "(0 :: rat) \<le> of_int InfDuration" by (simp add: InfDuration_def)
  ultimately have "- 1 / r * 10 ^ 9 < 0" "\<not> of_int InfDuration < - 1 / r * 10 ^ 9" by linarith+
  then show ?thesis using r unfolding durationFromTokens_def truncated_def interval_def Let_def by simp
qed

lemma CancelAt_state:
  assumes "0 < r" "r \<noteq> rate_Inf" "lim_limit lm = r" "u \<le> g" "g \<le> lim_lastEvent lm" "lim_lastEvent lm - g \<le> InfDuration"
    and rs: "rs_ok rs" "rs_tokens rs = 1" "rs_timeToAct rs = g" "rs_limit rs = r"
  obtains (kept) "CancelAt rs u lm = lm"
  | (restored) L where "inflow r (lim_lastEvent lm - g) < 1"
      "CancelAt rs u lm = lm\<lparr>lim_last := u, lim_tokens := min (of_int (lim_burst lm)) (advance lm u + (1 - inflow r (lim_lastEvent lm - g))),
         lim_lastEvent := L\<rparr>"
      "L = lim_lastEvent lm \<or> L = lim_lastEvent lm - interval r \<and> g = lim_lastEvent lm"
proof (cases "inflow r (lim_lastEvent lm - g) < 1")
  case True
  have "time_Sub (lim_lastEvent lm) g = lim_lastEvent lm - g" using assms(5,6) by (simp add: time_Sub_def InfDuration_def)
  then show thesis
    using True assms durationFromTokens_back [of r]
    by (intro restored [OF True, of "if g = lim_lastEvent lm \<and> \<not> g - interval r < u then g - interval r else lim_lastEvent lm"])
      (auto simp: CancelAt_def Let_def tokensFromDuration_inflow min_def)
next
  case False
  have "time_Sub (lim_lastEvent lm) g = lim_lastEvent lm - g" using assms(5,6) by (simp add: time_Sub_def InfDuration_def)
  then show thesis using False assms by (intro kept) (simp add: CancelAt_def Let_def tokensFromDuration_inflow)
qed

text \<open>The tokens after a call gave up in time are within what the calls before it and behind it have left.\<close>

lemma restored_owed:
  assumes ok: "bucket_ok r b c (xs @ (g, True) # ys) t lm" and r: "0 < r" and u: "t \<le> u" "u \<le> g"
    and lm': "lim_limit lm' = r" "lim_last lm' = u" "lim_tokens lm' \<le> advance lm u + (1 - inflow r (lim_lastEvent lm - g))"
  shows "lim_tokens lm' \<le> lim_tokens lm + inflow r (u - lim_last lm) + 1"
    "length xs \<le> i \<Longrightarrow> i < length (xs @ ys) \<Longrightarrow> owed lm' (xs @ ys) i"
    "owed lm (xs @ (g, True) # ys) (skip_at (length xs) i) \<Longrightarrow> i < length (xs @ ys) \<Longrightarrow> owed lm' (xs @ ys) i"
proof -
  let ?v = "xs @ (g, True) # ys" and ?n = "length xs"
  have lm: "lim_limit lm = r" "lim_last lm \<le> t" using ok by (simp_all add: bucket_ok_def)
  have q: "queued lm ?v ?n" using ok u by (auto simp: bucket_ok_def dest!: spec [of _ ?n])
  then have L: "g \<le> lim_lastEvent lm" by (auto simp: queued_def dest!: spec [of _ ?n])
  have adv: "advance lm u \<le> lim_tokens lm + inflow r (u - lim_last lm)"
    using advance_le_inflow [of lm u] lm r u by simp
  moreover have "0 \<le> inflow r (lim_lastEvent lm - g)" using inflow_mono [of r 0] r L by simp
  ultimately show one: "lim_tokens lm' \<le> lim_tokens lm + inflow r (u - lim_last lm) + 1" using lm'(3) by linarith
  show behind: "owed lm' (xs @ ys) i" if i: "?n \<le> i" "i < length (xs @ ys)"
  proof -
    have "owed lm ?v ?n" using q by (auto simp: queued_def)
    then have "lim_tokens lm \<le> inflow r (lim_last lm - g) - of_nat (length ys)" by (simp add: owed_def lm)
    then have "lim_tokens lm' \<le> inflow r (u - lim_lastEvent lm) - of_nat (length ys) + 1"
      using adv lm'(3) by (simp add: inflow_diff)
    moreover have "fst ((xs @ ys) ! i) \<le> lim_lastEvent lm"
      using q i unfolding queued_def nth_skip_at [of xs ys _ "(g, True)"] by (auto simp: skip_at_def)
    then have "inflow r (u - lim_lastEvent lm) \<le> inflow r (u - fst ((xs @ ys) ! i))" using r by (intro inflow_mono) simp_all
    moreover have "(of_nat (length (xs @ ys) - 1 - i) :: rat) \<le> of_nat (length ys) - 1" using i by (auto simp: of_nat_diff)
    ultimately show ?thesis by (simp add: owed_def lm' del: length_append)
  qed
  show "owed lm' (xs @ ys) i" if o: "owed lm ?v (skip_at ?n i)" and i: "i < length (xs @ ys)"
  proof (cases "i < ?n")
    case True
    then have "lim_tokens lm \<le> inflow r (lim_last lm - fst (xs ! i)) - of_nat (length xs + length ys - i)"
      using o by (simp add: owed_def lm skip_at_def nth_append)
    moreover have "(of_nat (length xs + length ys - i) :: rat) = of_nat (length xs + length ys - 1 - i) + 1"
      using True by (simp add: of_nat_diff)
    ultimately show ?thesis using True one by (simp add: owed_def lm' nth_append inflow_diff)
  next
    case False
    then show ?thesis using behind i by simp
  qed
qed

lemma cancel_ok:
  assumes ok: "bucket_ok r b c (xs @ (g, True) # ys) t lm" and r: "0 < r" "r \<noteq> rate_Inf" and u: "t \<le> u"
    and rs: "rs_ok rs" "rs_tokens rs = 1" "rs_timeToAct rs = g" "rs_limit rs = r"
  shows "bucket_ok r b c (xs @ ys) u (CancelAt rs u lm)"
proof -
  let ?v = "xs @ (g, True) # ys" and ?n = "length xs" and ?L = "lim_lastEvent lm"
  have gone: "bucket_ok r b c (xs @ ys) u lm" using bucket_ok_remove [OF bucket_ok_later [OF ok u]] .
  show ?thesis
  proof (cases "u \<le> g")
    case False
    then show ?thesis using gone rs by (simp add: CancelAt_def)
  next
    case True
    have lm: "lim_limit lm = r" "lim_burst lm = b" "1 \<le> b" "?L \<le> t + InfDuration" using ok by (simp_all add: bucket_ok_def)
    have q: "queued lm ?v ?n" using ok u True by (auto simp: bucket_ok_def dest!: spec [of _ ?n])
    then have L: "g \<le> ?L" "?L - g \<le> InfDuration" using lm(4) u True by (auto simp: queued_def dest!: spec [of _ ?n])
    from r lm(1) True L rs show ?thesis
    proof (cases rule: CancelAt_state)
      case kept
      then show ?thesis using gone by simp
    next
      case (restored L')
      let ?lm = "CancelAt rs u lm"
      have lm': "lim_limit ?lm = r" "lim_burst ?lm = b" "lim_last ?lm = u" "lim_lastEvent ?lm = L'"
        "lim_tokens ?lm = min (of_int b) (advance lm u + (1 - inflow r (?L - g)))"
        using lm by (simp_all add: restored(2))
      note owed' = restored_owed [OF ok r(1) u True lm'(1,3), simplified lm'(5), OF min.cobounded2, folded lm'(5)]
      have fl: "0 \<le> interval r" using r by (rule_tac interval_nonneg)
      have "spent ?lm (map fst (xs @ ys))" unfolding spent_def
      proof (intro allI impI)
        fix i assume "i < length (map fst (xs @ ys))"
        then have i: "i < length (xs @ ys)" by simp
        show "lim_tokens ?lm \<le> of_int (lim_burst ?lm) - of_nat (length (map fst (xs @ ys)) - i) + inflow (lim_limit ?lm) (lim_last ?lm - map fst (xs @ ys) ! i)"
        proof (cases "i < ?n")
          case True
          then have "lim_tokens lm \<le> of_int b - of_nat (length xs + length ys + 1 - i) + inflow r (lim_last lm - fst (xs ! i))"
            using ok by (auto simp: bucket_ok_def spent_def nth_append dest!: spec [of _ i])
          moreover have "(of_nat (length xs + length ys + 1 - i) :: rat) = of_nat (length xs + length ys - i) + 1" using True by (simp add: of_nat_diff)
          ultimately show ?thesis using True owed'(1) by (simp add: lm'(1-3) nth_append inflow_diff)
        next
          case False
          then have "owed ?lm (xs @ ys) i" using owed'(2) i by simp
          moreover have "(of_nat (length (xs @ ys) - i) :: rat) = of_nat (length (xs @ ys) - 1 - i) + 1" using i by (simp add: of_nat_diff)
          moreover have "(1 :: rat) \<le> of_int b" using lm(3) by simp
          ultimately show ?thesis using i by (simp add: owed_def lm'(1-3) del: length_append map_append)
        qed
      qed
      moreover have "queued ?lm (xs @ ys) k" if k: "k < length (xs @ ys)" "snd ((xs @ ys) ! k)" "u \<le> fst ((xs @ ys) ! k)" for k
      proof (rule queued_remove [where x = "(g, True)"])
        show qk: "queued lm ?v (skip_at ?n k)"
          using ok k u skip_at_less [OF k(1), of "(g, True)"] unfolding bucket_ok_def nth_skip_at [of xs ys _ "(g, True)"] by force
        show "lim_limit ?lm = lim_limit lm" by (simp add: lm lm')
        show "owed ?lm (xs @ ys) i" if "i < length (xs @ ys)" "owed lm ?v (skip_at ?n i)" for i using owed'(3) that by blast
        show "fst ((xs @ ys) ! i) \<le> lim_lastEvent ?lm" if i: "k \<le> i" "i < length (xs @ ys)" for i
        proof -
          have "fst ((xs @ ys) ! i) \<le> ?L"
            using qk skip_at_mono(2) [OF i(1)] skip_at_less [OF i(2)] unfolding queued_def nth_skip_at [of xs ys _ "(g, True)"] by blast
          moreover have "fst ((xs @ ys) ! i) \<le> ?L - interval r" if "g = ?L"
          proof (cases "i < ?n")
            case True
            then have "skip_at ?n k \<le> i" "?n < length ?v" using i by (auto simp: skip_at_def)
            then have "fst (?v ! i) + interval r \<le> fst (?v ! ?n)" using qk True unfolding queued_def lm(1) by blast
            then show ?thesis using that True by (simp add: nth_append)
          next
            case False
            then have "?n < skip_at ?n i" "?n \<le> ?n" by (simp_all add: skip_at_def)
            then have "fst (?v ! ?n) + interval r \<le> fst ((xs @ ys) ! i)"
              using q skip_at_less [OF i(2)] unfolding queued_def lm(1) nth_skip_at [of xs ys _ "(g, True)"] by blast
            then show ?thesis using that fl calculation by simp
          qed
          ultimately show ?thesis using restored(3) by (auto simp: lm')
        qed
      qed
      moreover have "- of_nat c \<le> lim_tokens ?lm"
        using advance_ge [of "- of_nat c" lm u] ok lm r restored(1) by (auto simp: lm' bucket_ok_def)
      moreover have "L' \<le> u + InfDuration" using restored(3) lm(4) u fl by auto
      ultimately show ?thesis using gone lm(3) by (simp add: bucket_ok_def lm'(1-4))
    qed
  qed
qed

lemma reserve_fails: "reserveN lm t n m = (rs, lm') \<Longrightarrow> \<not> rs_ok rs \<Longrightarrow> lm' = lm"
  by (auto simp: reserveN_def Let_def split: if_splits)

text \<open>The call a limiter makes of a wait, if it lets it through or makes it wait.\<close>

fun visit_of :: "int \<Rightarrow> waiting \<Rightarrow> visit list" where
  "visit_of t (WaitReturned None) = [(t, False)]"
| "visit_of t (WaitReturned (Some e)) = []"
| "visit_of t (WaitBlocked r delay) = [(t + delay, True)]"

lemma wait_ok:
  assumes ok: "bucket_ok r b c v t lm" and r: "0 < r" "r \<noteq> rate_Inf" and few: "of_nat (Suc c) < inflow r InfDuration"
    and wait: "lim_wait ctx 1 t lm = (w, lm')"
  shows "bucket_ok r b (Suc c) (v @ visit_of t w) t lm'"
    "w = WaitBlocked rs d \<Longrightarrow> rs_ok rs \<and> rs_tokens rs = 1 \<and> rs_limit rs = r \<and> rs_timeToAct rs = t + d"
proof -
  have same: "bucket_ok r b (Suc c) v t lm" using bucket_ok_more [OF ok] by simp
  let ?max = "case wc_Deadline ctx of None \<Rightarrow> InfDuration | Some d \<Rightarrow> time_Sub d t"
  obtain rs' lm1 where res: "reserveN lm t 1 ?max = (rs', lm1)" by fastforce
  have "bucket_ok r b (Suc c) (v @ visit_of t w) t lm' \<and> (\<forall>rs d. w = WaitBlocked rs d \<longrightarrow>
      rs_ok rs \<and> rs_tokens rs = 1 \<and> rs_limit rs = r \<and> rs_timeToAct rs = t + d)"
  proof (cases "(1 > lim_burst lm \<and> lim_limit lm \<noteq> rate_Inf) \<or> wc_Err ctx \<noteq> None \<or> \<not> rs_ok rs'")
    case True
    then show ?thesis using same wait res reserve_fails [OF res] by (auto simp: lim_wait_def split: if_splits option.splits)
  next
    case False
    then have rs_ok: "rs_ok rs'" by simp
    note rok = reserve_ok [OF ok r few res rs_ok]
    have rs': "rs_tokens rs' = 1 \<and> rs_limit rs' = r \<and> t \<le> rs_timeToAct rs' \<and> rs_timeToAct rs' - t < InfDuration"
      using rok(2) [of False] by simp
    then have delay: "DelayFrom rs' t = rs_timeToAct rs' - t" using rs_ok by (simp add: DelayFrom_def time_Sub_def InfDuration_def)
    have w: "lm' = lm1" "w = (if rs_timeToAct rs' = t then WaitReturned None else WaitBlocked rs' (rs_timeToAct rs' - t))"
      using wait False res by (auto simp: lim_wait_def Let_def delay split: if_splits)
    show ?thesis using w rs' rs_ok rok(1) [of False] rok(1) [of True] by auto
  qed
  then show "bucket_ok r b (Suc c) (v @ visit_of t w) t lm'"
    "w = WaitBlocked rs d \<Longrightarrow> rs_ok rs \<and> rs_tokens rs = 1 \<and> rs_limit rs = r \<and> rs_timeToAct rs = t + d" by blast+
qed

section \<open>Waiting and giving up\<close>

text \<open>A call without a deadline is let through, at once or later, unless the burst is below one.\<close>

lemma wait_lets_through:
  assumes "1 \<le> lim_burst lm \<or> lim_limit lm = rate_Inf" "wc_Err ctx = None" "wc_Deadline ctx = None" "lim_wait ctx 1 t lm = (w, lm')"
  shows "w = WaitReturned None \<or> (\<exists>r d. w = WaitBlocked r d \<and> rs_ok r)"
proof -
  have "durationFromTokens r x \<le> InfDuration" if "0 \<le> x" for r x
  proof -
    have "x / r * 10 ^ 9 \<le> of_int InfDuration \<Longrightarrow> \<lfloor>x / r * 10 ^ 9\<rfloor> \<le> InfDuration" by linarith
    then show ?thesis using that by (auto simp: durationFromTokens_def truncated_def Let_def not_less divide_less_0_iff)
  qed
  then have "rs_ok (fst (reserveN lm t 1 InfDuration))"
    using assms(1) by (auto simp: reserveN_def Let_def InfDuration_def not_less)
  then show ?thesis using assms by (cases "reserveN lm t 1 InfDuration") (auto simp: lim_wait_def Let_def split: if_splits)
qed

text \<open>A limiter with a burst below one lets nobody through, whatever its rate, short of the infinite one.\<close>

lemma wait_no_burst:
  "lim_burst lm < 1 \<Longrightarrow> lim_limit lm \<noteq> rate_Inf \<Longrightarrow> \<exists>e. lim_wait ctx 1 t lm = (WaitReturned (Some e), lm)"
  by (simp add: lim_wait_def)

text \<open>
  A call that gives up while it is the last to have reserved leaves the bucket as if it had never come: the tokens at
  that time, and so at every later one, are those of the bucket it met.
\<close>

lemma advance_again:
  assumes "0 < lim_limit lm" "lim_last lm \<le> t" "t \<le> u" "u - lim_last lm \<le> InfDuration"
    and "advance lm t < of_int (lim_burst lm)"
  shows "lim_tokens lm + inflow (lim_limit lm) (u - lim_last lm) = advance lm t + inflow (lim_limit lm) (u - t)"
proof -
  have "time_Sub t (lim_last lm) = t - lim_last lm" using assms by (simp add: time_Sub_def InfDuration_def)
  then show ?thesis using assms by (auto simp: advance_def Let_def tokensFromDuration_inflow inflow_diff split: if_splits)
qed

lemma cancel_undoes:
  assumes r: "0 < lim_limit lm" "lim_limit lm \<noteq> rate_Inf" and res: "reserveN lm t 1 m = (rs, lm')" "rs_ok rs"
    and times: "lim_last lm \<le> t" "t \<le> u" "u \<le> rs_timeToAct rs" "u - lim_last lm \<le> InfDuration" and debt: "advance lm t < 1"
  shows "lim_last (CancelAt rs u lm') = u \<and> lim_tokens (CancelAt rs u lm') = advance lm u"
proof -
  let ?r = "lim_limit lm"
  define k where "k = advance lm t - 1"
  have rs: "rs_tokens rs = 1" "rs_limit rs = ?r" "rs_timeToAct rs = t + durationFromTokens ?r (- k)" "1 \<le> lim_burst lm"
    "lm' = lm\<lparr>lim_last := t, lim_tokens := k, lim_lastEvent := rs_timeToAct rs\<rparr>"
    using res r debt by (auto simp: reserveN_def Let_def k_def split: if_splits)
  have "inflow ?r (u - t) \<le> inflow ?r (durationFromTokens ?r (- k))" using r times by (intro inflow_mono) (simp_all add: rs)
  also have "\<dots> \<le> - k" using durationFromTokens_bounds(2) [of ?r "- k"] r debt by (simp add: k_def)
  finally have le: "k + inflow ?r (u - t) \<le> 0" by simp
  have b: "(1 :: rat) \<le> of_int (lim_burst lm)" using rs(4) by simp
  have sub: "time_Sub u t = u - t" "time_Sub u (lim_last lm) = u - lim_last lm" using times by (simp_all add: time_Sub_def InfDuration_def)
  have "advance lm' u = k + inflow ?r (u - t)"
    using le b r times by (simp add: rs(5) advance_def Let_def sub tokensFromDuration_inflow)
  moreover have "advance lm u = k + inflow ?r (u - t) + 1"
    using advance_again [of lm t u] le b r times debt
    by (simp add: advance_def [of lm u] Let_def sub tokensFromDuration_inflow k_def)
  ultimately show ?thesis
    using r times res(2) le b by (simp add: CancelAt_def Let_def rs(1,2,5) time_Sub_def tokensFromDuration_def InfDuration_def)
qed

section \<open>Runs of the registry\<close>

text \<open>
  A sequence of events with their times, in the order in which they reach the limiters: a registration, a call that
  waits for its turn, and the end of the context of the call with this number while it waits. A call goes on at a time,
  is refused, or waits at an address with its reservation until the time its timer fires.
\<close>

datatype rl_op =
    OpRegister string rat int
  | OpWait string wait_ctx
  | OpDone nat go_error

datatype call_fate =
    Went int
  | Refused
  | Waits nat Reservation int

fun fate_of :: "int \<Rightarrow> call \<Rightarrow> call_fate" where
  "fate_of t (CallReturned None) = Went t"
| "fate_of t (CallReturned (Some e)) = Refused"
| "fate_of t (CallBlocked name a r delay) = Waits a r (t + delay)"

record rl_state =
  rl_registry :: Registry
  rl_calls :: "(string \<times> call_fate) list"

definition rl_init :: rl_state where
  "rl_init = \<lparr>rl_registry = ratelimit_New, rl_calls = []\<rparr>"

text \<open>The context of a call ends: one that waits wakes up with the error and is refused, any other does not notice.\<close>

fun give_up :: "int \<Rightarrow> nat \<Rightarrow> go_error \<Rightarrow> string \<times> call_fate \<Rightarrow> rl_state \<Rightarrow> rl_state" where
  "give_up t i e (name, Waits a r g) st =
     \<lparr>rl_registry = snd (ratelimit_Wake (rl_registry st) name a r (CtxDone e t)), rl_calls = (rl_calls st)[i := (name, Refused)]\<rparr>"
| "give_up t i e _ st = st"

fun rl_step :: "int \<times> rl_op \<Rightarrow> rl_state \<Rightarrow> rl_state" where
  "rl_step (t, OpRegister name rps burst) st = st\<lparr>rl_registry := ratelimit_Register (rl_registry st) name rps burst\<rparr>"
| "rl_step (t, OpWait name ctx) st = (case ratelimit_Wait (rl_registry st) ctx name t of (c, l) \<Rightarrow>
     \<lparr>rl_registry = l, rl_calls = rl_calls st @ [(name, fate_of t c)]\<rparr>)"
| "rl_step (t, OpDone i e) st = (if i < length (rl_calls st) then give_up t i e (rl_calls st ! i) st else st)"

fun rl_run :: "(int \<times> rl_op) list \<Rightarrow> rl_state \<Rightarrow> rl_state" where
  "rl_run [] st = st"
| "rl_run (op # ops) st = rl_run ops (rl_step op st)"

text \<open>A call that waits and does not give up goes on when its timer fires, and the registry stays as it is.\<close>

lemma wake_timer: "ratelimit_Wake l name a r TimerFired = (None, l)"
  by (simp add: ratelimit_Wake_def)

fun visits :: "string \<Rightarrow> (string \<times> call_fate) list \<Rightarrow> visit list" where
  "visits name [] = []"
| "visits name ((n, Went t) # cs) = (if n = name then (t, False) # visits name cs else visits name cs)"
| "visits name ((n, Refused) # cs) = visits name cs"
| "visits name ((n, Waits a r g) # cs) = (if n = name then (g, True) # visits name cs else visits name cs)"

text \<open>The times at which calls on a name go on.\<close>

definition went :: "string \<Rightarrow> (string \<times> call_fate) list \<Rightarrow> int list" where
  "went name calls = map fst (visits name calls)"

lemma visits_append: "visits name (xs @ ys) = visits name xs @ visits name ys"
  by (induction name xs rule: visits.induct) simp_all

fun registers :: "string \<Rightarrow> int \<times> rl_op \<Rightarrow> bool" where
  "registers name (t, OpRegister n rps burst) = (n = name)"
| "registers name (t, _) = False"

text \<open>The pointers of the map are allocated, and no two names share a limiter; so are those of the calls that wait.\<close>

definition reg_ok :: "Registry \<Rightarrow> bool" where
  "reg_ok l \<longleftrightarrow> (\<forall>n a. map_of (rg_limiters l) n = Some a \<longrightarrow> a < length (rg_store l))
     \<and> (\<forall>n n' a. map_of (rg_limiters l) n = Some a \<and> map_of (rg_limiters l) n' = Some a \<longrightarrow> n = n')"

definition calls_ok :: "rl_state \<Rightarrow> bool" where
  "calls_ok st \<longleftrightarrow> reg_ok (rl_registry st) \<and> (\<forall>n a r g. (n, Waits a r g) \<in> set (rl_calls st) \<longrightarrow> a < length (rg_store (rl_registry st)))"

lemma reg_ok_New: "reg_ok ratelimit_New"
  by (simp add: reg_ok_def ratelimit_New_def)

lemma reg_ok_Register: "reg_ok l \<Longrightarrow> reg_ok (ratelimit_Register l n rps burst)"
  by (fastforce simp: reg_ok_def ratelimit_Register_def split: if_splits)

lemma Wait_cases:
  obtains (missing) "map_of (rg_limiters l) n = None"
      "ratelimit_Wait l ctx n t = (CallReturned (Some (ctx_New (''rate limiter not found: '' @ n))), l)"
  | (found) a w lm c where "map_of (rg_limiters l) n = Some a" "lim_wait ctx 1 t (rg_store l ! a) = (w, lm)"
      "ratelimit_Wait l ctx n t = (c, l\<lparr>rg_store := (rg_store l)[a := lm]\<rparr>)" "visits n [(n, fate_of t c)] = visit_of t w"
      "\<And>a' rs g. fate_of t c = Waits a' rs g \<Longrightarrow> a' = a \<and> w = WaitBlocked rs (g - t)"
proof (cases "map_of (rg_limiters l) n")
  case None
  then show thesis by (intro missing) (simp_all add: ratelimit_Wait_def)
next
  case (Some a)
  obtain w lm where w: "lim_wait ctx 1 t (rg_store l ! a) = (w, lm)" by fastforce
  show thesis
  proof (cases w)
    case (WaitReturned e)
    then show thesis using Some w by (cases e) (intro found, auto simp: ratelimit_Wait_def)+
  next
    case (WaitBlocked r d)
    then show thesis using Some w by (intro found) (auto simp: ratelimit_Wait_def)
  qed
qed

lemma reg_ok_store: "reg_ok l \<Longrightarrow> length s = length (rg_store l) \<Longrightarrow> reg_ok (l\<lparr>rg_store := s\<rparr>)"
  by (simp add: reg_ok_def)

lemma reg_ok_Wait: "reg_ok l \<Longrightarrow> ratelimit_Wait l ctx n t = (c, l') \<Longrightarrow> reg_ok l' \<and> length (rg_store l') = length (rg_store l)"
  by (cases rule: Wait_cases [of l n ctx t]) (auto simp: reg_ok_store)

lemma Wake_done: "snd (ratelimit_Wake l n a r (CtxDone e t)) = l\<lparr>rg_store := (rg_store l)[a := CancelAt r t (rg_store l ! a)]\<rparr>"
  by (simp add: ratelimit_Wake_def)

lemma set_refused: "(n, Waits a r g) \<in> set (cs[i := (n', Refused)]) \<Longrightarrow> (n, Waits a r g) \<in> set cs"
  using set_update_subset_insert by fastforce

lemma calls_ok_step: "calls_ok st \<Longrightarrow> calls_ok (rl_step op st)"
proof (induction op st rule: rl_step.induct)
  case (1 t name rps burst st)
  then show ?case by (auto simp: calls_ok_def reg_ok_Register) (force simp: ratelimit_Register_def)
next
  case (2 t name ctx st)
  let ?l = "rl_registry st"
  obtain c l where w: "ratelimit_Wait ?l ctx name t = (c, l)" by fastforce
  have ok: "reg_ok l" "length (rg_store l) = length (rg_store ?l)" using reg_ok_Wait [OF _ w] 2 by (auto simp: calls_ok_def)
  have "a < length (rg_store ?l)" if "Waits a r g = fate_of t c" for a r g
  proof (cases rule: Wait_cases [of ?l name ctx t])
    case missing
    then show ?thesis using that w by simp
  next
    case (found a' w' lm c')
    then show ?thesis using that [symmetric] w 2 by (auto simp: calls_ok_def reg_ok_def)
  qed
  then show ?case using 2 w ok unfolding calls_ok_def by (simp del: split_paired_All) blast
next
  case (3 t i e st)
  then show ?case
    by (cases "(t, i, e, rl_calls st ! i, st)" rule: give_up.cases)
      (auto simp: calls_ok_def Wake_done reg_ok_store dest!: set_refused)
qed

lemma calls_ok_run: "calls_ok st \<Longrightarrow> calls_ok (rl_run ops st)"
  by (induction ops st rule: rl_run.induct) (simp_all add: calls_ok_step)

lemma calls_ok_init: "calls_ok rl_init"
  by (simp add: calls_ok_def rl_init_def reg_ok_New)

text \<open>
  The registry from the registration of a name on: calls from before wait elsewhere, the later ones on the name wait at
  its limiter with their reservation, and the limiter has kept its rate.
\<close>

fun waits_elsewhere :: "nat \<Rightarrow> string \<times> call_fate \<Rightarrow> bool" where
  "waits_elsewhere a (n, Waits a' r g) = (a' \<noteq> a)"
| "waits_elsewhere a _ = True"

fun ticket_ok :: "string \<Rightarrow> nat \<Rightarrow> rat \<Rightarrow> string \<times> call_fate \<Rightarrow> bool" where
  "ticket_ok name a r (n, Waits a' rs g) =
     (if n = name then a' = a \<and> rs_ok rs \<and> rs_tokens rs = 1 \<and> rs_limit rs = r \<and> rs_timeToAct rs = g else a' \<noteq> a)"
| "ticket_ok name a r _ = True"

definition run_ok :: "string \<Rightarrow> nat \<Rightarrow> rat \<Rightarrow> int \<Rightarrow> nat \<Rightarrow> nat \<Rightarrow> int \<Rightarrow> rl_state \<Rightarrow> bool" where
  "run_ok name a r b m c t st \<longleftrightarrow> reg_ok (rl_registry st) \<and> map_of (rg_limiters (rl_registry st)) name = Some a
     \<and> m \<le> length (rl_calls st) \<and> list_all (waits_elsewhere a) (take m (rl_calls st))
     \<and> list_all (ticket_ok name a r) (drop m (rl_calls st))
     \<and> bucket_ok r b c (visits name (drop m (rl_calls st))) t (rg_store (rl_registry st) ! a)"

lemma run_ok_later:
  assumes "run_ok name a r b m c t st" "c \<le> d" "t \<le> u"
  shows "run_ok name a r b m d u st"
  using assms bucket_ok_more [OF bucket_ok_later] by (auto simp: run_ok_def)

lemma run_ok_register:
  assumes "run_ok name a r b m c t st" "n \<noteq> name"
  shows "run_ok name a r b m c t (rl_step (u, OpRegister n rps burst) st)"
proof -
  have "a < length (rg_store (rl_registry st))" using assms(1) by (auto simp: run_ok_def reg_ok_def)
  then show ?thesis using assms by (simp add: run_ok_def reg_ok_Register) (simp add: ratelimit_Register_def nth_append)
qed

lemma run_ok_wait:
  assumes ok: "run_ok name a r b m c t st" and r: "0 < r" "r \<noteq> rate_Inf" "of_nat (Suc c) < inflow r InfDuration"
  shows "run_ok name a r b m (Suc c) t (rl_step (t, OpWait n ctx) st)"
proof -
  let ?l = "rl_registry st" and ?cs = "drop m (rl_calls st)"
  have a: "a < length (rg_store ?l)" "reg_ok ?l" "m \<le> length (rl_calls st)" using ok by (auto simp: run_ok_def reg_ok_def)
  have bucket: "bucket_ok r b c (visits name ?cs) t (rg_store ?l ! a)" using ok by (simp add: run_ok_def)
  show ?thesis
  proof (cases rule: Wait_cases [of ?l n ctx t])
    case missing
    then show ?thesis using ok run_ok_later [OF ok, of "Suc c" t] by (auto simp: run_ok_def visits_append)
  next
    case (found a' w lm f)
    have reg: "reg_ok (?l\<lparr>rg_store := (rg_store ?l)[a' := lm]\<rparr>)" using a by (simp add: reg_ok_store)
    show ?thesis
    proof (cases "n = name")
      case True
      then have a': "a' = a" using found(1) ok by (simp add: run_ok_def)
      note wok = wait_ok [OF bucket r found(2) [unfolded a']]
      have "ticket_ok name a r (n, fate_of t f)"
        using found(5) wok(2) True a' by (cases "fate_of t f") auto
      then show ?thesis
        using ok a reg wok(1) found True a' by (simp add: run_ok_def visits_append)
    next
      case False
      then have a': "a' \<noteq> a" using found(1) ok by (auto simp: run_ok_def reg_ok_def)
      have "ticket_ok name a r (n, fate_of t f)" using found(5) False a' by (cases "fate_of t f") auto
      moreover have "visits name [(n, fate_of t f)] = []" using False by (cases "fate_of t f") auto
      ultimately show ?thesis
        using ok a reg found a' bucket_ok_more [OF bucket, of "Suc c"] by (simp add: run_ok_def visits_append)
    qed
  qed
qed

lemma run_ok_done:
  assumes ok: "run_ok name a r b m c t st" and r: "0 < r" "r \<noteq> rate_Inf"
  shows "run_ok name a r b m c t (rl_step (t, OpDone i e) st)"
proof (cases "\<exists>n a' rs g. i < length (rl_calls st) \<and> rl_calls st ! i = (n, Waits a' rs g)")
  case False
  then have "rl_step (t, OpDone i e) st = st"
    by (cases "(t, i, e, rl_calls st ! i, st)" rule: give_up.cases) auto
  then show ?thesis using ok by simp
next
  case True
  then obtain n a' rs g where i: "i < length (rl_calls st)" "rl_calls st ! i = (n, Waits a' rs g)" by blast
  let ?l = "rl_registry st" and ?cs = "rl_calls st"
  let ?l' = "?l\<lparr>rg_store := (rg_store ?l)[a' := CancelAt rs t (rg_store ?l ! a')]\<rparr>"
  have step: "rl_step (t, OpDone i e) st = \<lparr>rl_registry = ?l', rl_calls = ?cs[i := (n, Refused)]\<rparr>" using i by (simp add: Wake_done)
  have a: "a < length (rg_store ?l)" "reg_ok ?l'" "m \<le> length ?cs" using ok by (auto simp: run_ok_def reg_ok_def)
  have bucket: "bucket_ok r b c (visits name (drop m ?cs)) t (rg_store ?l ! a)" using ok by (simp add: run_ok_def)
  show ?thesis
  proof (cases "i < m")
    case True
    then have "take m ?cs ! i = (n, Waits a' rs g)" "i < length (take m ?cs)" using i by simp_all
    then have "a' \<noteq> a" using ok by (metis (full_types) list_all_length run_ok_def waits_elsewhere.simps(1))
    moreover have "list_all (waits_elsewhere a) ((take m ?cs)[i := (n, Refused)])"
      using ok set_update_subset_insert [of "take m ?cs" i "(n, Refused)"] by (fastforce simp: run_ok_def list_all_iff)
    ultimately show ?thesis using ok a True unfolding step by (simp add: run_ok_def take_update_swap)
  next
    case False
    define xs ys where "xs = take (i - m) (drop m ?cs)" and "ys = drop (Suc (i - m)) (drop m ?cs)"
    have k: "i - m < length (drop m ?cs)" "drop m ?cs ! (i - m) = (n, Waits a' rs g)" using False i by simp_all
    have split: "drop m ?cs = xs @ (n, Waits a' rs g) # ys" using id_take_nth_drop [OF k(1)] k(2) by (simp add: xs_def ys_def)
    have upd: "drop m (?cs[i := (n, Refused)]) = xs @ (n, Refused) # ys"
      using upd_conv_take_nth_drop [OF k(1)] False i by (simp add: drop_update_swap xs_def ys_def)
    have tickets: "ticket_ok name a r (n, Waits a' rs g)" "list_all (ticket_ok name a r) (xs @ (n, Refused) # ys)"
      using ok split by (auto simp: run_ok_def)
    have "bucket_ok r b c (visits name (xs @ (n, Refused) # ys)) t (rg_store ?l' ! a)"
    proof (cases "n = name")
      case True
      then show ?thesis using bucket tickets(1) a cancel_ok [OF _ r order.refl, of b c "visits name xs" g "visits name ys"]
        by (simp add: split visits_append)
    next
      case False
      then show ?thesis using bucket tickets(1) by (simp add: split visits_append)
    qed
    then show ?thesis using ok a tickets(2) False unfolding step by (simp add: run_ok_def upd)
  qed
qed

lemma run_ok_run:
  assumes "run_ok name a r b m c t st" "0 < r" "r \<noteq> rate_Inf" "of_nat (c + length ops) < inflow r InfDuration"
    and "sorted (t # map fst ops)" "\<not> list_ex (registers name) ops"
  shows "\<exists>c t. run_ok name a r b m c t (rl_run ops st)"
  using assms
proof (induction ops st arbitrary: c t rule: rl_run.induct)
  case (1 st)
  then show ?case by auto
next
  case (2 op ops st)
  obtain u what where op: "op = (u, what)" by fastforce
  have ok: "run_ok name a r b m c u st" using run_ok_later [OF "2.prems"(1), of c u] "2.prems"(5) op by simp
  have few: "of_nat (Suc c) < inflow r InfDuration" using "2.prems"(4) by simp
  have "run_ok name a r b m (Suc c) u (rl_step op st)"
  proof (cases what)
    case (OpRegister n rps burst)
    then show ?thesis using run_ok_later [OF run_ok_register [OF ok], of n "Suc c" u] "2.prems"(6) op by simp
  next
    case (OpWait n ctx)
    then show ?thesis using run_ok_wait [OF ok "2.prems"(2,3) few] op by simp
  next
    case (OpDone i e)
    then show ?thesis using run_ok_later [OF run_ok_done [OF ok "2.prems"(2,3)], of "Suc c" u] op by simp
  qed
  then show ?case using "2.IH" [of "Suc c" u] "2.prems" op by simp
qed

lemma run_ok_registered:
  assumes "calls_ok st"
  shows "run_ok name (length (rg_store (rl_registry st))) rps burst (length (rl_calls st)) 0 t (rl_step (t0, OpRegister name rps burst) st)"
proof -
  have "waits_elsewhere (length (rg_store (rl_registry st))) c" if "c \<in> set (rl_calls st)" for c
    using assms that by (cases "(length (rg_store (rl_registry st)), c)" rule: waits_elsewhere.cases) (auto simp: calls_ok_def)
  then show ?thesis
    using assms reg_ok_Register [of "rl_registry st" name rps burst]
    by (simp add: run_ok_def calls_ok_def list_all_iff) (simp add: ratelimit_Register_def bucket_ok_NewLimiter)
qed

section \<open>Properties\<close>


text \<open>
  Two calls a second with a burst of two: of five calls at once two go on, the others after half a second each. The last
  gives up after a tenth of a second, and the call that comes then takes its turn; the first that waits gives up too,
  which gives nothing back since others wait behind it.
\<close>

definition demo_calls :: "(int \<times> rl_op) list" where
  "demo_calls = (let ctx = \<lparr>wc_Err = None, wc_Deadline = None\<rparr> in
     [(0, OpWait ''api'' ctx), (0, OpRegister ''db'' 1 1), (0, OpWait ''api'' ctx), (0, OpWait ''api'' ctx), (0, OpWait ''api'' ctx),
      (0, OpWait ''api'' ctx), (100000000, OpDone 4 (ErrNew ''context canceled'')), (100000000, OpWait ''api'' ctx),
      (200000000, OpDone 2 (ErrNew ''context canceled'')), (200000000, OpWait ''api'' ctx)])"

lemma two_not_Inf: "2 \<noteq> rate_Inf"
  by (simp add: rate_Inf_def)

lemma demo_calls_run:
  "went ''api'' (drop (length (rl_calls (rl_run [] rl_init)))
     (rl_calls (rl_run demo_calls (rl_step (0, OpRegister ''api'' 2 2) (rl_run [] rl_init))))) = [0, 0, 1000000000, 1500000000, 2000000000]"
  using two_not_Inf
  by (simp add: demo_calls_def Let_def rl_init_def went_def ratelimit_New_def ratelimit_Register_def ratelimit_Wait_def lim_wait_def
      reserveN_def NewLimiter_def advance_def tokensFromDuration_def durationFromTokens_def truncated_def DelayFrom_def time_Sub_def
      InfDuration_def zero_time_def ratelimit_Wake_def CancelAt_def)


end
