(* ===== verification/MockRunner.thy ===== *)
theory MockRunner
  imports ClaudeCode
begin

text \<open>
  The interface Runner of src/ai/claudecode/client.go, the client as one of its implementations, and the mock that stands
  in for it in tests (src/ai/claudecode/mocks/mock_runner.go), on the expectations of testify
  (src/vendor/github.com/stretchr/testify/mock/mock.go) that are set with On, Return, Times, Maybe and Panic. Delays,
  RunFn and the order of expectations are not used and left out.
\<close>

section \<open>The interface\<close>

text \<open>
  A method gets its context and arguments and changes the world it lives in. The pointers it returns may be nil; a nil
  slice is an empty one.
\<close>

record ('c, 'w) Runner =
  rn_Run :: "'c \<Rightarrow> RunRequest \<Rightarrow> 'w \<Rightarrow> (RunResult option \<times> err) \<times> 'w"
  rn_UploadFile :: "'c \<Rightarrow> string \<Rightarrow> string \<Rightarrow> 'w \<Rightarrow> (FileInfo option \<times> err) \<times> 'w"
  rn_DownloadFile :: "'c \<Rightarrow> string \<Rightarrow> 'w \<Rightarrow> (string \<times> err) \<times> 'w"
  rn_DeleteFile :: "'c \<Rightarrow> string \<Rightarrow> 'w \<Rightarrow> err \<times> 'w"
  rn_Health :: "'c \<Rightarrow> 'w \<Rightarrow> err \<times> 'w"

definition pointer_result :: "'a res \<Rightarrow> 'a option \<times> err" where
  "pointer_result r = (case r of Inl e \<Rightarrow> (None, Some e) | Inr x \<Rightarrow> (Some x, None))"

definition bytes_result :: "string res \<Rightarrow> string \<times> err" where
  "bytes_result r = (case r of Inl e \<Rightarrow> ([], Some e) | Inr x \<Rightarrow> (x, None))"

text \<open>The client implements it, over a network whose events are recorded.\<close>

definition client_runner :: "'w network \<Rightarrow> Client \<Rightarrow> ('c, http_event list \<times> 'w) Runner" where
  "client_runner net c = \<lparr>
     rn_Run = \<lambda>ctx req (evs, w). (case claude_Run net c req w of (r, ev, w') \<Rightarrow> (pointer_result r, (evs @ ev, w'))),
     rn_UploadFile = \<lambda>ctx p d (evs, w). (case claude_UploadFile net c p d w of (r, ev, w') \<Rightarrow> (pointer_result r, (evs @ ev, w'))),
     rn_DownloadFile = \<lambda>ctx p (evs, w). (case claude_DownloadFile net c p w of (r, ev, w') \<Rightarrow> (bytes_result r, (evs @ ev, w'))),
     rn_DeleteFile = \<lambda>ctx p (evs, w). (case claude_DeleteFile net c p w of (e, ev, w') \<Rightarrow> (e, (evs @ ev, w'))),
     rn_Health = \<lambda>ctx (evs, w). (case claude_Health net c w of (e, ev, w') \<Rightarrow> (e, (evs @ ev, w')))\<rparr>"

section \<open>Expectations\<close>

text \<open>
  The values a mocked call is made with. An expected argument is a value or a test of the actual one; a test that
  panics does not match. The string \<open>mock.Anything\<close> matches everything, on either side.
\<close>

datatype 'c arg =
    ACtx 'c
  | AStr string
  | ABytes string
  | AReq RunRequest

datatype 'c expected =
    EVal "'c arg"
  | ETest "'c arg \<Rightarrow> bool"

definition Anything :: "'c arg" where
  "Anything = AStr ''mock.Anything''"

definition Missing :: "'c arg" where
  "Missing = AStr ''(Missing)''"

fun arg_matches :: "'c expected \<Rightarrow> 'c arg \<Rightarrow> bool" where
  "arg_matches (ETest p) actual = p actual"
| "arg_matches (EVal e) actual = (e = Anything \<or> actual = Anything \<or> actual = e)"

text \<open>The number of differences, position by position; a value that is absent on one side is the string of Missing.\<close>

fun Diff :: "'c expected list \<Rightarrow> 'c arg list \<Rightarrow> nat" where
  "Diff [] [] = 0"
| "Diff (e # es) [] = (if arg_matches e Missing then 0 else 1) + Diff es []"
| "Diff [] (a # as) = (if arg_matches (EVal Missing) a then 0 else 1) + Diff [] as"
| "Diff (e # es) (a # as) = (if arg_matches e a then 0 else 1) + Diff es as"

text \<open>What a mocked call may be told to return: values, and functions of the types the mock asks for.\<close>

datatype ('c, 'w) ret =
    RNil
  | RErr go_error
  | RBytes string
  | RResult "RunResult option"
  | RInfo "FileInfo option"
  | ROther
  | FCtxErr "'c \<Rightarrow> 'w \<Rightarrow> err \<times> 'w"
  | FPathErr "'c \<Rightarrow> string \<Rightarrow> 'w \<Rightarrow> err \<times> 'w"
  | FPathBytes "'c \<Rightarrow> string \<Rightarrow> 'w \<Rightarrow> string \<times> 'w"
  | FPathBytesErr "'c \<Rightarrow> string \<Rightarrow> 'w \<Rightarrow> (string \<times> err) \<times> 'w"
  | FReqErr "'c \<Rightarrow> RunRequest \<Rightarrow> 'w \<Rightarrow> err \<times> 'w"
  | FReqResult "'c \<Rightarrow> RunRequest \<Rightarrow> 'w \<Rightarrow> RunResult option \<times> 'w"
  | FReqResultErr "'c \<Rightarrow> RunRequest \<Rightarrow> 'w \<Rightarrow> (RunResult option \<times> err) \<times> 'w"
  | FFileErr "'c \<Rightarrow> string \<Rightarrow> string \<Rightarrow> 'w \<Rightarrow> err \<times> 'w"
  | FFileInfo "'c \<Rightarrow> string \<Rightarrow> string \<Rightarrow> 'w \<Rightarrow> FileInfo option \<times> 'w"
  | FFileInfoErr "'c \<Rightarrow> string \<Rightarrow> string \<Rightarrow> 'w \<Rightarrow> (FileInfo option \<times> err) \<times> 'w"

text \<open>How a mocked call may end other than by returning: a panic, or the end of the test.\<close>

datatype reason = OverCalled | UnexpectedCall | NoReturnValue | NoArgument | WrongType | Mocked string

datatype abort = Panics reason | FailsNow reason

record ('c, 'w) mock_call =
  mk_Method :: string
  mk_Arguments :: "'c expected list"
  mk_ReturnArguments :: "('c, 'w) ret list"
  mk_Repeatability :: int
  mk_totalCalls :: int
  mk_optional :: bool
  mk_PanicMsg :: "string option"

record ('c, 'w) Mock =
  mk_ExpectedCalls :: "('c, 'w) mock_call list"
  mk_Calls :: "(string \<times> 'c arg list) list"
  mk_test :: bool

definition mock_fail :: "('c, 'w) Mock \<Rightarrow> reason \<Rightarrow> abort" where
  "mock_fail m r = (if mk_test m then FailsNow r else Panics r)"

text \<open>Setting an expectation gives its position; the other setters change the expectation at a position.\<close>

definition mock_On :: "('c, 'w) Mock \<Rightarrow> string \<Rightarrow> 'c expected list \<Rightarrow> nat \<times> ('c, 'w) Mock" where
  "mock_On m methodName arguments =
     (length (mk_ExpectedCalls m),
      m\<lparr>mk_ExpectedCalls := mk_ExpectedCalls m @
        [\<lparr>mk_Method = methodName, mk_Arguments = arguments, mk_ReturnArguments = [], mk_Repeatability = 0, mk_totalCalls = 0,
          mk_optional = False, mk_PanicMsg = None\<rparr>]\<rparr>)"

definition on_call :: "(('c, 'w) mock_call \<Rightarrow> ('c, 'w) mock_call) \<Rightarrow> nat \<times> ('c, 'w) Mock \<Rightarrow> nat \<times> ('c, 'w) Mock" where
  "on_call f c = (case c of (i, m) \<Rightarrow> (i, m\<lparr>mk_ExpectedCalls := (mk_ExpectedCalls m)[i := f (mk_ExpectedCalls m ! i)]\<rparr>))"

definition mock_Return :: "('c, 'w) ret list \<Rightarrow> nat \<times> ('c, 'w) Mock \<Rightarrow> nat \<times> ('c, 'w) Mock" where
  "mock_Return rets = on_call (\<lambda>c. c\<lparr>mk_ReturnArguments := rets\<rparr>)"

definition mock_Panic :: "string \<Rightarrow> nat \<times> ('c, 'w) Mock \<Rightarrow> nat \<times> ('c, 'w) Mock" where
  "mock_Panic msg = on_call (\<lambda>c. c\<lparr>mk_PanicMsg := Some msg\<rparr>)"

definition mock_Times :: "int \<Rightarrow> nat \<times> ('c, 'w) Mock \<Rightarrow> nat \<times> ('c, 'w) Mock" where
  "mock_Times i = on_call (\<lambda>c. c\<lparr>mk_Repeatability := i\<rparr>)"

definition mock_Maybe :: "nat \<times> ('c, 'w) Mock \<Rightarrow> nat \<times> ('c, 'w) Mock" where
  "mock_Maybe = on_call (\<lambda>c. c\<lparr>mk_optional := True\<rparr>)"

section \<open>Calls\<close>

text \<open>
  The first expectation for the call that is not used up, with its position; else the last one that is, if any.
\<close>

fun find_call ::
  "nat \<Rightarrow> ('c, 'w) mock_call option \<Rightarrow> ('c, 'w) mock_call list \<Rightarrow> string \<Rightarrow> 'c arg list \<Rightarrow> nat option \<times> ('c, 'w) mock_call option" where
  "find_call i expectedCall [] method arguments = (None, expectedCall)"
| "find_call i expectedCall (call # calls) method arguments =
     (if mk_Method call = method \<and> Diff (mk_Arguments call) arguments = 0
      then if mk_Repeatability call > -1 then (Some i, Some call) else find_call (i + 1) (Some call) calls method arguments
      else find_call (i + 1) expectedCall calls method arguments)"

definition findExpectedCall :: "('c, 'w) Mock \<Rightarrow> string \<Rightarrow> 'c arg list \<Rightarrow> nat option \<times> ('c, 'w) mock_call option" where
  "findExpectedCall m method arguments = find_call 0 None (mk_ExpectedCalls m) method arguments"

definition use_call :: "('c, 'w) mock_call \<Rightarrow> ('c, 'w) mock_call" where
  "use_call call =
     (let call = (if mk_Repeatability call = 1 then call\<lparr>mk_Repeatability := -1\<rparr>
                  else if mk_Repeatability call > 1 then call\<lparr>mk_Repeatability := mk_Repeatability call - 1\<rparr>
                  else call)
      in call\<lparr>mk_totalCalls := mk_totalCalls call + 1\<rparr>)"

definition MethodCalled :: "('c, 'w) Mock \<Rightarrow> string \<Rightarrow> 'c arg list \<Rightarrow> (abort + ('c, 'w) ret list) \<times> ('c, 'w) Mock" where
  "MethodCalled m methodName arguments = (case findExpectedCall m methodName arguments of
     (None, Some call) \<Rightarrow> (Inl (mock_fail m OverCalled), m)
   | (None, None) \<Rightarrow> (Inl (mock_fail m UnexpectedCall), m)
   | (Some i, _) \<Rightarrow>
       let call = mk_ExpectedCalls m ! i;
           m' = m\<lparr>mk_ExpectedCalls := (mk_ExpectedCalls m)[i := use_call call], mk_Calls := mk_Calls m @ [(methodName, arguments)]\<rparr>
       in (case mk_PanicMsg call of Some msg \<Rightarrow> Inl (Panics (Mocked msg)) | None \<Rightarrow> Inr (mk_ReturnArguments call), m'))"

definition methodWasCalled :: "('c, 'w) Mock \<Rightarrow> string \<Rightarrow> 'c expected list \<Rightarrow> bool" where
  "methodWasCalled m methodName es = list_ex (\<lambda>(method, arguments). method = methodName \<and> Diff es arguments = 0) (mk_Calls m)"

definition checkExpectation :: "('c, 'w) Mock \<Rightarrow> ('c, 'w) mock_call \<Rightarrow> bool" where
  "checkExpectation m call =
     (if \<not> mk_optional call \<and> \<not> methodWasCalled m (mk_Method call) (mk_Arguments call) \<and> mk_totalCalls call = 0 then False
      else if mk_Repeatability call > 0 then False
      else True)"

definition AssertExpectations :: "('c, 'w) Mock \<Rightarrow> bool" where
  "AssertExpectations m = (length (filter (\<lambda>call. \<not> checkExpectation m call) (mk_ExpectedCalls m)) = 0)"

section \<open>The mock\<close>

text \<open>A mock made for a test; its clean-up asserts the expectations.\<close>

definition mock_NewRunner :: "('c, 'w) Mock" where
  "mock_NewRunner = \<lparr>mk_ExpectedCalls = [], mk_Calls = [], mk_test = True\<rparr>"

definition Called :: "('c, 'w) Mock \<Rightarrow> string \<Rightarrow> 'c arg list \<Rightarrow> (abort + ('c, 'w) ret list) \<times> ('c, 'w) Mock" where
  "Called m name args = (case MethodCalled m name args of
     (Inr [], m') \<Rightarrow> (Inl (Panics NoReturnValue), m')
   | (r, m') \<Rightarrow> (r, m'))"

definition ret_Get :: "('c, 'w) ret list \<Rightarrow> nat \<Rightarrow> abort + ('c, 'w) ret" where
  "ret_Get ret index = (if index + 1 > length ret then Inl (Panics NoArgument) else Inr (ret ! index))"

definition ret_Error :: "('c, 'w) ret \<Rightarrow> abort + err" where
  "ret_Error obj = (case obj of RNil \<Rightarrow> Inr None | RErr e \<Rightarrow> Inr (Some e) | _ \<Rightarrow> Inl (Panics WrongType))"

text \<open>Going on with a value unless the call has panicked.\<close>

definition go_on :: "(abort + 'a) \<times> 'w \<Rightarrow> ('a \<Rightarrow> 'w \<Rightarrow> (abort + 'b) \<times> 'w) \<Rightarrow> (abort + 'b) \<times> 'w" where
  "go_on r f = (case r of (Inl a, w) \<Rightarrow> (Inl a, w) | (Inr x, w) \<Rightarrow> f x w)"

definition returned :: "'a \<times> 'w \<Rightarrow> (abort + 'a) \<times> 'w" where
  "returned r = (case r of (x, w) \<Rightarrow> (Inr x, w))"

text \<open>The methods, each after the call was recorded: what the expectation returns.\<close>

definition DeleteFile_ret :: "('c, 'w) ret list \<Rightarrow> 'c \<Rightarrow> string \<Rightarrow> 'w \<Rightarrow> (abort + err) \<times> 'w" where
  "DeleteFile_ret ret ctx filePath w =
     go_on (ret_Get ret 0, w) (\<lambda>g w. case g of
       FPathErr rf \<Rightarrow> returned (rf ctx filePath w)
     | _ \<Rightarrow> (ret_Error g, w))"

definition DownloadFile_ret :: "('c, 'w) ret list \<Rightarrow> 'c \<Rightarrow> string \<Rightarrow> 'w \<Rightarrow> (abort + string \<times> err) \<times> 'w" where
  "DownloadFile_ret ret ctx filePath w =
     go_on (ret_Get ret 0, w) (\<lambda>g w. case g of
       FPathBytesErr rf \<Rightarrow> returned (rf ctx filePath w)
     | _ \<Rightarrow>
         go_on (case g of
             FPathBytes rf \<Rightarrow> returned (rf ctx filePath w)
           | RNil \<Rightarrow> (Inr [], w)
           | RBytes b \<Rightarrow> (Inr b, w)
           | _ \<Rightarrow> (Inl (Panics WrongType), w)) (\<lambda>r0 w.
         go_on (ret_Get ret 1, w) (\<lambda>h w.
         go_on (case h of
             FPathErr rf \<Rightarrow> returned (rf ctx filePath w)
           | _ \<Rightarrow> (ret_Error h, w)) (\<lambda>r1 w. (Inr (r0, r1), w)))))"

definition Health_ret :: "('c, 'w) ret list \<Rightarrow> 'c \<Rightarrow> 'w \<Rightarrow> (abort + err) \<times> 'w" where
  "Health_ret ret ctx w =
     go_on (ret_Get ret 0, w) (\<lambda>g w. case g of
       FCtxErr rf \<Rightarrow> returned (rf ctx w)
     | _ \<Rightarrow> (ret_Error g, w))"

definition Run_ret :: "('c, 'w) ret list \<Rightarrow> 'c \<Rightarrow> RunRequest \<Rightarrow> 'w \<Rightarrow> (abort + RunResult option \<times> err) \<times> 'w" where
  "Run_ret ret ctx req w =
     go_on (ret_Get ret 0, w) (\<lambda>g w. case g of
       FReqResultErr rf \<Rightarrow> returned (rf ctx req w)
     | _ \<Rightarrow>
         go_on (case g of
             FReqResult rf \<Rightarrow> returned (rf ctx req w)
           | RNil \<Rightarrow> (Inr None, w)
           | RResult p \<Rightarrow> (Inr p, w)
           | _ \<Rightarrow> (Inl (Panics WrongType), w)) (\<lambda>r0 w.
         go_on (ret_Get ret 1, w) (\<lambda>h w.
         go_on (case h of
             FReqErr rf \<Rightarrow> returned (rf ctx req w)
           | _ \<Rightarrow> (ret_Error h, w)) (\<lambda>r1 w. (Inr (r0, r1), w)))))"

definition UploadFile_ret :: "('c, 'w) ret list \<Rightarrow> 'c \<Rightarrow> string \<Rightarrow> string \<Rightarrow> 'w \<Rightarrow> (abort + FileInfo option \<times> err) \<times> 'w" where
  "UploadFile_ret ret ctx filePath content w =
     go_on (ret_Get ret 0, w) (\<lambda>g w. case g of
       FFileInfoErr rf \<Rightarrow> returned (rf ctx filePath content w)
     | _ \<Rightarrow>
         go_on (case g of
             FFileInfo rf \<Rightarrow> returned (rf ctx filePath content w)
           | RNil \<Rightarrow> (Inr None, w)
           | RInfo p \<Rightarrow> (Inr p, w)
           | _ \<Rightarrow> (Inl (Panics WrongType), w)) (\<lambda>r0 w.
         go_on (ret_Get ret 1, w) (\<lambda>h w.
         go_on (case h of
             FFileErr rf \<Rightarrow> returned (rf ctx filePath content w)
           | _ \<Rightarrow> (ret_Error h, w)) (\<lambda>r1 w. (Inr (r0, r1), w)))))"

text \<open>A whole call of the mock: the mock afterwards, and how the call ends.\<close>

definition mocked :: "('c, 'w) Mock \<Rightarrow> string \<Rightarrow> 'c arg list \<Rightarrow> (('c, 'w) ret list \<Rightarrow> 'w \<Rightarrow> (abort + 'a) \<times> 'w) \<Rightarrow> 'w
    \<Rightarrow> ('c, 'w) Mock \<times> (abort + 'a) \<times> 'w" where
  "mocked m name args body w = (case Called m name args of (r, m') \<Rightarrow> (m', go_on (r, w) body))"

definition mock_DeleteFile :: "('c, 'w) Mock \<Rightarrow> 'c \<Rightarrow> string \<Rightarrow> 'w \<Rightarrow> ('c, 'w) Mock \<times> (abort + err) \<times> 'w" where
  "mock_DeleteFile m ctx filePath = mocked m ''DeleteFile'' [ACtx ctx, AStr filePath] (\<lambda>ret. DeleteFile_ret ret ctx filePath)"

definition mock_DownloadFile :: "('c, 'w) Mock \<Rightarrow> 'c \<Rightarrow> string \<Rightarrow> 'w \<Rightarrow> ('c, 'w) Mock \<times> (abort + string \<times> err) \<times> 'w" where
  "mock_DownloadFile m ctx filePath = mocked m ''DownloadFile'' [ACtx ctx, AStr filePath] (\<lambda>ret. DownloadFile_ret ret ctx filePath)"

definition mock_Health :: "('c, 'w) Mock \<Rightarrow> 'c \<Rightarrow> 'w \<Rightarrow> ('c, 'w) Mock \<times> (abort + err) \<times> 'w" where
  "mock_Health m ctx = mocked m ''Health'' [ACtx ctx] (\<lambda>ret. Health_ret ret ctx)"

definition mock_Run :: "('c, 'w) Mock \<Rightarrow> 'c \<Rightarrow> RunRequest \<Rightarrow> 'w \<Rightarrow> ('c, 'w) Mock \<times> (abort + RunResult option \<times> err) \<times> 'w" where
  "mock_Run m ctx req = mocked m ''Run'' [ACtx ctx, AReq req] (\<lambda>ret. Run_ret ret ctx req)"

definition mock_UploadFile :: "('c, 'w) Mock \<Rightarrow> 'c \<Rightarrow> string \<Rightarrow> string \<Rightarrow> 'w \<Rightarrow> ('c, 'w) Mock \<times> (abort + FileInfo option \<times> err) \<times> 'w" where
  "mock_UploadFile m ctx filePath content =
     mocked m ''UploadFile'' [ACtx ctx, AStr filePath, ABytes content] (\<lambda>ret. UploadFile_ret ret ctx filePath content)"

section \<open>Standing in for a runner\<close>

text \<open>Calls through the interface, on a runner and on the mock.\<close>

datatype 'c runner_call =
    CallRun 'c RunRequest
  | CallUpload 'c string string
  | CallDownload 'c string
  | CallDelete 'c string
  | CallHealth 'c

datatype runner_result =
    GotResult "RunResult option" err
  | GotInfo "FileInfo option" err
  | GotBytes string err
  | GotErr err

fun runner_do :: "('c, 'w) Runner \<Rightarrow> 'c runner_call \<Rightarrow> 'w \<Rightarrow> runner_result \<times> 'w" where
  "runner_do r (CallRun ctx req) w = map_prod (case_prod GotResult) id (rn_Run r ctx req w)"
| "runner_do r (CallUpload ctx p d) w = map_prod (case_prod GotInfo) id (rn_UploadFile r ctx p d w)"
| "runner_do r (CallDownload ctx p) w = map_prod (case_prod GotBytes) id (rn_DownloadFile r ctx p w)"
| "runner_do r (CallDelete ctx p) w = map_prod GotErr id (rn_DeleteFile r ctx p w)"
| "runner_do r (CallHealth ctx) w = map_prod GotErr id (rn_Health r ctx w)"

definition as_result :: "('a \<Rightarrow> runner_result) \<Rightarrow> ('c, 'w) Mock \<times> (abort + 'a) \<times> 'w \<Rightarrow> ('c, 'w) Mock \<times> (abort + runner_result) \<times> 'w" where
  "as_result f = map_prod id (map_prod (map_sum id f) id)"

fun mock_do :: "('c, 'w) Mock \<Rightarrow> 'c runner_call \<Rightarrow> 'w \<Rightarrow> ('c, 'w) Mock \<times> (abort + runner_result) \<times> 'w" where
  "mock_do m (CallRun ctx req) w = as_result (case_prod GotResult) (mock_Run m ctx req w)"
| "mock_do m (CallUpload ctx p d) w = as_result (case_prod GotInfo) (mock_UploadFile m ctx p d w)"
| "mock_do m (CallDownload ctx p) w = as_result (case_prod GotBytes) (mock_DownloadFile m ctx p w)"
| "mock_do m (CallDelete ctx p) w = as_result GotErr (mock_DeleteFile m ctx p w)"
| "mock_do m (CallHealth ctx) w = as_result GotErr (mock_Health m ctx w)"

fun runner_run :: "('c, 'w) Runner \<Rightarrow> 'c runner_call list \<Rightarrow> 'w \<Rightarrow> runner_result list \<times> 'w" where
  "runner_run r [] w = ([], w)"
| "runner_run r (c # cs) w = (case runner_do r c w of (x, w1) \<Rightarrow> map_prod ((#) x) id (runner_run r cs w1))"

fun mock_run :: "('c, 'w) Mock \<Rightarrow> 'c runner_call list \<Rightarrow> 'w \<Rightarrow> ('c, 'w) Mock \<times> (abort + runner_result) list \<times> 'w" where
  "mock_run m [] w = (m, [], w)"
| "mock_run m (c # cs) w = (case mock_do m c w of (m1, x, w1) \<Rightarrow> map_prod id (map_prod ((#) x) id) (mock_run m1 cs w1))"

text \<open>A mock on which every method is expected with any arguments and returns the method of a runner.\<close>

definition stand_ins :: "('c, 'w) Runner \<Rightarrow> (string \<times> nat \<times> ('c, 'w) ret) list" where
  "stand_ins r =
     [(''Run'', 2, FReqResultErr (rn_Run r)), (''UploadFile'', 3, FFileInfoErr (rn_UploadFile r)),
      (''DownloadFile'', 2, FPathBytesErr (rn_DownloadFile r)), (''DeleteFile'', 2, FPathErr (rn_DeleteFile r)),
      (''Health'', 1, FCtxErr (rn_Health r))]"

definition mock_for :: "('c, 'w) Runner \<Rightarrow> ('c, 'w) Mock" where
  "mock_for r = foldl (\<lambda>m (name, n, f). snd (mock_Return [f] (mock_On m name (replicate n (EVal Anything))))) mock_NewRunner (stand_ins r)"

fun recorded :: "'c runner_call \<Rightarrow> string \<times> 'c arg list" where
  "recorded (CallRun ctx req) = (''Run'', [ACtx ctx, AReq req])"
| "recorded (CallUpload ctx p d) = (''UploadFile'', [ACtx ctx, AStr p, ABytes d])"
| "recorded (CallDownload ctx p) = (''DownloadFile'', [ACtx ctx, AStr p])"
| "recorded (CallDelete ctx p) = (''DeleteFile'', [ACtx ctx, AStr p])"
| "recorded (CallHealth ctx) = (''Health'', [ACtx ctx])"

text \<open>The state such a mock is in after calls: each expectation counts its own.\<close>

definition standing :: "('c, 'w) Runner \<Rightarrow> (string \<times> 'c arg list) list \<Rightarrow> ('c, 'w) Mock" where
  "standing r cs = \<lparr>mk_ExpectedCalls = map (\<lambda>(name, n, f). \<lparr>mk_Method = name, mk_Arguments = replicate n (EVal Anything),
       mk_ReturnArguments = [f], mk_Repeatability = 0, mk_totalCalls = int (count_list (map fst cs) name), mk_optional = False,
       mk_PanicMsg = None\<rparr>) (stand_ins r), mk_Calls = cs, mk_test = True\<rparr>"

lemma mock_for_standing: "mock_for r = standing r []"
  by (simp add: mock_for_def standing_def stand_ins_def mock_On_def mock_Return_def on_call_def mock_NewRunner_def)

lemmas mock_call_defs = mocked_def Called_def MethodCalled_def findExpectedCall_def use_call_def go_on_def returned_def ret_Get_def
  as_result_def standing_def stand_ins_def Let_def

lemma standing_do:
  "mock_do (standing r cs) c w = (case runner_do r c w of (x, w') \<Rightarrow> (standing r (cs @ [recorded c]), Inr x, w'))"
proof (cases c)
  case (CallRun ctx req)
  then show ?thesis
    by (cases "rn_Run r ctx req w") (simp add: mock_Run_def Run_ret_def mock_call_defs numeral_2_eq_2)
next
  case (CallUpload ctx p d)
  then show ?thesis
    by (cases "rn_UploadFile r ctx p d w") (simp add: mock_UploadFile_def UploadFile_ret_def mock_call_defs numeral_2_eq_2 numeral_3_eq_3)
next
  case (CallDownload ctx p)
  then show ?thesis
    by (cases "rn_DownloadFile r ctx p w") (simp add: mock_DownloadFile_def DownloadFile_ret_def mock_call_defs numeral_2_eq_2 numeral_3_eq_3)
next
  case (CallDelete ctx p)
  then show ?thesis
    by (cases "rn_DeleteFile r ctx p w") (simp add: mock_DeleteFile_def DeleteFile_ret_def mock_call_defs numeral_2_eq_2 numeral_3_eq_3)
next
  case (CallHealth ctx)
  then show ?thesis
    by (cases "rn_Health r ctx w") (simp add: mock_Health_def Health_ret_def mock_call_defs numeral_2_eq_2 numeral_3_eq_3)
qed

lemma standing_run:
  "mock_run (standing r cs) calls w = (case runner_run r calls w of (xs, w') \<Rightarrow>
     (standing r (cs @ map recorded calls), map Inr xs, w'))"
proof (induction calls arbitrary: cs w)
  case (Cons c calls)
  obtain x w1 where "runner_do r c w = (x, w1)" by fastforce
  then show ?case using Cons.IH [of "cs @ [recorded c]" w1] by (cases "runner_run r calls w1") (simp add: standing_do)
qed simp

lemma methodWasCalled_recorded: "methodWasCalled m name es \<Longrightarrow> name \<in> fst ` set (mk_Calls m)"
  by (force simp: methodWasCalled_def list_ex_iff)

lemma standing_asserts:
  "AssertExpectations (standing r cs) \<longleftrightarrow> set (map fst (stand_ins r)) \<subseteq> fst ` set cs"
proof -
  have "checkExpectation (standing r cs) call \<longleftrightarrow> mk_Method call \<in> fst ` set cs"
    if "call \<in> set (mk_ExpectedCalls (standing r cs))" for call
  proof -
    have "mk_optional call = False" "mk_Repeatability call = 0" "mk_totalCalls call = int (count_list (map fst cs) (mk_Method call))"
      using that by (auto simp: standing_def)
    then show ?thesis
      using methodWasCalled_recorded [of "standing r cs" "mk_Method call"]
      by (auto simp: checkExpectation_def count_list_0_iff standing_def)
  qed
  then have "AssertExpectations (standing r cs) \<longleftrightarrow> (\<forall>call\<in>set (mk_ExpectedCalls (standing r cs)). mk_Method call \<in> fst ` set cs)"
    by (auto simp: AssertExpectations_def filter_empty_conv)
  moreover have "mk_Method ` set (mk_ExpectedCalls (standing r cs)) = set (map fst (stand_ins r))"
    by (simp add: standing_def image_image case_prod_beta)
  ultimately show ?thesis by (simp add: image_subset_iff [symmetric])
qed

section \<open>Properties\<close>

text \<open>
  C22 (equivalence): a mock whose expectations return the methods of a runner, the client for one, cannot be told from
  that runner: every sequence of calls has the same results and the same effects on the world, and none of them panics or
  ends the test. The mock records the calls with their arguments, and its expectations hold in the end
  when each of the five methods was called.
\<close>

theorem mock_stands_for:
  "case runner_run r calls w of (xs, w') \<Rightarrow>
     \<exists>m. mock_run (mock_for r) calls w = (m, map Inr xs, w') \<and> mk_Calls m = map recorded calls
       \<and> (AssertExpectations m \<longleftrightarrow> {''Run'', ''UploadFile'', ''DownloadFile'', ''DeleteFile'', ''Health''} \<subseteq> fst ` recorded ` set calls)"
proof -
  obtain xs w' where run: "runner_run r calls w = (xs, w')" by fastforce
  have "set (map fst (stand_ins r)) = {''Run'', ''UploadFile'', ''DownloadFile'', ''DeleteFile'', ''Health''}"
    by (simp add: stand_ins_def)
  then show ?thesis using standing_run [of r "[]" calls w] standing_asserts [of r "map recorded calls"]
    by (simp add: run mock_for_standing) (simp add: standing_def)
qed

section \<open>Expectations that are used up\<close>

text \<open>
  An expectation with Times for a number of calls answers that many and fails the next; it holds in the end when the
  number is reached.
\<close>

fun method_calls :: "('c, 'w) Mock \<Rightarrow> string \<Rightarrow> 'c arg list \<Rightarrow> nat \<Rightarrow> (abort + ('c, 'w) ret list) list \<times> ('c, 'w) Mock" where
  "method_calls m name args 0 = ([], m)"
| "method_calls m name args (Suc k) = (case MethodCalled m name args of (x, m1) \<Rightarrow> map_prod ((#) x) id (method_calls m1 name args k))"

definition used :: "string \<Rightarrow> 'c expected list \<Rightarrow> ('c, 'w) ret list \<Rightarrow> 'c arg list \<Rightarrow> nat \<Rightarrow> nat \<Rightarrow> ('c, 'w) Mock" where
  "used name es rets args n k = \<lparr>mk_ExpectedCalls = [\<lparr>mk_Method = name, mk_Arguments = es, mk_ReturnArguments = rets,
       mk_Repeatability = (if k < n then int (n - k) else -1), mk_totalCalls = int k, mk_optional = False, mk_PanicMsg = None\<rparr>],
     mk_Calls = replicate k (name, args), mk_test = True\<rparr>"

lemma used_step:
  assumes "Diff es args = 0"
  shows "k < n \<Longrightarrow> MethodCalled (used name es rets args n k) name args = (Inr rets, used name es rets args n (Suc k))"
    and "\<not> k < n \<Longrightarrow> MethodCalled (used name es rets args n k) name args = (Inl (FailsNow OverCalled), used name es rets args n k)"
  using assms
  by (auto simp: MethodCalled_def findExpectedCall_def used_def use_call_def Let_def mock_fail_def replicate_append_same of_nat_diff)

lemma used_calls:
  assumes "Diff es args = 0"
  shows "j \<le> n \<Longrightarrow> method_calls (used name es rets args n j) name args k =
    (replicate (min k (n - j)) (Inr rets) @ replicate (k - (n - j)) (Inl (FailsNow OverCalled)), used name es rets args n (min (j + k) n))"
proof (induction k arbitrary: j)
  case (Suc k)
  show ?case
  proof (cases "j < n")
    case True
    then have "n - j = Suc (n - Suc j)" by simp
    then show ?thesis using Suc.IH [of "Suc j"] True by (simp add: used_step(1) [OF assms])
  next
    case False
    then show ?thesis using Suc.IH [of j] Suc.prems by (simp add: used_step(2) [OF assms])
  qed
qed simp

lemma mock_times:
  assumes "Diff es args = 0" "1 \<le> n"
    and "m = snd (mock_Times (int n) (mock_Return rets (mock_On mock_NewRunner name es)))" "method_calls m name args k = (xs, m')"
  shows "xs = replicate (min k n) (Inr rets) @ replicate (k - n) (Inl (FailsNow OverCalled)) \<and> (AssertExpectations m' \<longleftrightarrow> n \<le> k)"
proof -
  have "m = used name es rets args n 0"
    using assms(2,3) by (simp add: used_def mock_Times_def mock_Return_def on_call_def mock_On_def mock_NewRunner_def)
  then have "xs = replicate (min k n) (Inr rets) @ replicate (k - n) (Inl (FailsNow OverCalled))" "m' = used name es rets args n (min k n)"
    using used_calls [OF assms(1), of 0 n name rets k] assms(4) by simp_all
  then show ?thesis
    using assms(1,2) by (auto simp: AssertExpectations_def checkExpectation_def used_def methodWasCalled_def list_ex_iff)
qed

end
