(* ===== verification/Gonfiguration.thy ===== *)
theory Gonfiguration
  imports CtxErrors GoStrings
begin

text \<open>
  Package gonfiguration (src/vendor/github.com/psyb0t/gonfiguration), which fills the configuration structs of the
  repository from the environment, and the conversions of the standard library it uses: \<open>strconv.ParseInt\<close>,
  \<open>strconv.ParseUint\<close>, \<open>strconv.ParseBool\<close> and \<open>time.ParseDuration\<close>. No struct of the repository has a floating-point
  field; these are left out. The fraction of a duration is computed exactly.
\<close>

section \<open>Conversions\<close>

abbreviation "ErrSyntax \<equiv> ErrNew ''strconv.ErrSyntax''"
abbreviation "ErrRange \<equiv> ErrNew ''strconv.ErrRange''"

definition digit :: "char \<Rightarrow> nat" where
  "digit c = byte c - 0x30"

fun parse_digits :: "nat \<Rightarrow> string \<Rightarrow> nat res" where
  "parse_digits n [] = Inr n"
| "parse_digits n (c # s) =
     (if \<not> is_digit c then Inl ErrSyntax
      else if n * 10 + digit c > 2 ^ 64 - 1 then Inl ErrRange
      else parse_digits (n * 10 + digit c) s)"

definition ParseUint :: "string \<Rightarrow> nat res" where
  "ParseUint s = (if s = [] then Inl ErrSyntax else parse_digits 0 s)"

definition ParseInt :: "string \<Rightarrow> int res" where
  "ParseInt s =
     (if s = [] then Inl ErrSyntax
      else
        let neg = (hd s = CHR ''-'');
            s' = (if hd s = CHR ''+'' \<or> hd s = CHR ''-'' then tl s else s)
        in case ParseUint s' of
             Inl e \<Rightarrow> Inl e
           | Inr un \<Rightarrow>
               if \<not> neg \<and> un \<ge> 2 ^ 63 then Inl ErrRange
               else if neg \<and> un > 2 ^ 63 then Inl ErrRange
               else Inr (if neg then - int un else int un))"

definition ParseBool :: "string \<Rightarrow> bool res" where
  "ParseBool s =
     (if s \<in> {''1'', ''t'', ''T'', ''true'', ''TRUE'', ''True''} then Inr True
      else if s \<in> {''0'', ''f'', ''F'', ''false'', ''FALSE'', ''False''} then Inr False
      else Inl ErrSyntax)"

text \<open>
  Durations: a sign, then numbers with units, each a whole part and a fraction of which one may be missing. Sums are kept
  up to \<open>2 ^ 63\<close>. A fraction that does not fit is cut.
\<close>

fun leadingInt :: "nat \<Rightarrow> string \<Rightarrow> (nat \<times> string) option" where
  "leadingInt x [] = Some (x, [])"
| "leadingInt x (c # s) =
     (if \<not> is_digit c then Some (x, c # s)
      else if x > 2 ^ 63 div 10 then None
      else if x * 10 + digit c > 2 ^ 63 then None
      else leadingInt (x * 10 + digit c) s)"

fun leadingFraction :: "nat \<Rightarrow> nat \<Rightarrow> bool \<Rightarrow> string \<Rightarrow> nat \<times> nat \<times> string" where
  "leadingFraction x scale overflow [] = (x, scale, [])"
| "leadingFraction x scale overflow (c # s) =
     (if \<not> is_digit c then (x, scale, c # s)
      else if overflow then leadingFraction x scale True s
      else if x > (2 ^ 63 - 1) div 10 then leadingFraction x scale True s
      else if x * 10 + digit c > 2 ^ 63 then leadingFraction x scale True s
      else leadingFraction (x * 10 + digit c) (scale * 10) False s)"

definition unitMap :: "(string, nat) gomap" where
  "unitMap =
     [(''ns'', 1), (''us'', 10 ^ 3), ([CHR 0xC2, CHR 0xB5, CHR ''s''], 10 ^ 3), ([CHR 0xCE, CHR 0xBC, CHR ''s''], 10 ^ 3),
      (''ms'', 10 ^ 6), (''s'', 10 ^ 9), (''m'', 60 * 10 ^ 9), (''h'', 3600 * 10 ^ 9)]"

datatype duration_error = InvalidDuration | MissingUnit | UnknownUnit

text \<open>One number with its unit, in nanoseconds, and what follows it.\<close>

definition duration_part :: "string \<Rightarrow> duration_error + nat \<times> string" where
  "duration_part s =
     (if \<not> (hd s = CHR ''.'' \<or> is_digit (hd s)) then Inl InvalidDuration
      else case leadingInt 0 s of
        None \<Rightarrow> Inl InvalidDuration
      | Some (v, s1) \<Rightarrow>
          let pre = (length s1 \<noteq> length s);
              dot = (s1 \<noteq> [] \<and> hd s1 = CHR ''.'');
              (f, scale, s2) = (if dot then leadingFraction 0 1 False (tl s1) else (0, 1, s1));
              post = (dot \<and> length s2 \<noteq> length (tl s1));
              u = takeWhile (\<lambda>c. \<not> (c = CHR ''.'' \<or> is_digit c)) s2;
              s3 = dropWhile (\<lambda>c. \<not> (c = CHR ''.'' \<or> is_digit c)) s2
          in if \<not> pre \<and> \<not> post then Inl InvalidDuration
             else if u = [] then Inl MissingUnit
             else case map_of unitMap u of
               None \<Rightarrow> Inl UnknownUnit
             | Some unit \<Rightarrow>
                 if v > 2 ^ 63 div unit then Inl InvalidDuration
                 else
                   let w = v * unit + (if f > 0 then f * unit div scale else 0)
                   in if f > 0 \<and> w > 2 ^ 63 then Inl InvalidDuration else Inr (w, s3))"

lemma leadingInt_length: "leadingInt x s = Some (v, s') \<Longrightarrow> length s' \<le> length s"
  by (induction x s rule: leadingInt.induct) (auto split: if_splits)

lemma leadingFraction_length: "leadingFraction x sc ov s = (f, sc', s') \<Longrightarrow> length s' \<le> length s"
  by (induction x sc ov s rule: leadingFraction.induct) (auto split: if_splits)

lemma dropWhile_shorter: "takeWhile P s \<noteq> [] \<Longrightarrow> length (dropWhile P s) < length s"
  by (cases s) (auto simp: le_imp_less_Suc length_dropWhile_le split: if_splits)

lemma duration_part_shorter:
  assumes "duration_part s = Inr (w, s')"
  shows "length s' < length s"
proof -
  let ?P = "\<lambda>c. \<not> (c = CHR ''.'' \<or> is_digit c)"
  obtain v s1 where 1: "leadingInt 0 s = Some (v, s1)"
    using assms by (auto simp: duration_part_def split: if_splits option.splits)
  obtain f sc s2 where 2: "(if s1 \<noteq> [] \<and> hd s1 = CHR ''.'' then leadingFraction 0 1 False (tl s1) else (0, 1, s1)) = (f, sc, s2)"
    by (metis prod_cases3)
  have "takeWhile ?P s2 \<noteq> []" "s' = dropWhile ?P s2"
    using assms 1 2 by (auto simp: duration_part_def Let_def split: if_splits option.splits)
  then have "length s' < length s2" using dropWhile_shorter by blast
  also have "\<dots> \<le> length s1" using 2 leadingFraction_length by (fastforce split: if_splits)
  also have "\<dots> \<le> length s" using leadingInt_length [OF 1] .
  finally show ?thesis .
qed

function duration_loop :: "nat \<Rightarrow> string \<Rightarrow> duration_error + nat" where
  "duration_loop d s =
     (if s = [] then Inr d
      else case duration_part s of
        Inl e \<Rightarrow> Inl e
      | Inr (v, s') \<Rightarrow> if d + v > 2 ^ 63 then Inl InvalidDuration else duration_loop (d + v) s')"
  by pat_completeness auto
termination by (relation "measure (length \<circ> snd)") (auto simp: duration_part_shorter)

declare duration_loop.simps [simp del]

definition ParseDuration :: "string \<Rightarrow> duration_error + int" where
  "ParseDuration orig =
     (let signed = (orig \<noteq> [] \<and> (hd orig = CHR ''-'' \<or> hd orig = CHR ''+''));
          neg = (signed \<and> hd orig = CHR ''-'');
          s = (if signed then tl orig else orig)
      in if s = ''0'' then Inr 0
         else if s = [] then Inl InvalidDuration
         else case duration_loop 0 s of
           Inl e \<Rightarrow> Inl e
         | Inr d \<Rightarrow> if neg then Inr (- int d) else if d > 2 ^ 63 - 1 then Inl InvalidDuration else Inr (int d))"

section \<open>Fields\<close>

text \<open>
  A destination struct is the list of its fields: the type, the tags \<open>env\<close> and \<open>default\<close>, and the value. A value of a type
  the package does not support is not looked at. Floats and integers of fewer than 64 bits, which no configuration of the
  repository has, are left out.
\<close>

datatype field_type = TString | TInt | TUint | TBool | TDuration | TStrings | TUnsupported string

datatype field_value =
    VString string
  | VInt int
  | VUint nat
  | VBool bool
  | VDuration int
  | VStrings "string list"
  | VOpaque string

fun type_of :: "field_value \<Rightarrow> field_type" where
  "type_of (VString s) = TString"
| "type_of (VInt i) = TInt"
| "type_of (VUint n) = TUint"
| "type_of (VBool b) = TBool"
| "type_of (VDuration d) = TDuration"
| "type_of (VStrings ss) = TStrings"
| "type_of (VOpaque t) = TUnsupported t"

record dst_field =
  fd_type :: field_type
  fd_env :: "string option"
  fd_default :: "string option"
  fd_value :: field_value

abbreviation "ErrInvalidEnvVar \<equiv> ErrNew ''gonfiguration.ErrInvalidEnvVar''"
abbreviation "ErrUnsupportedFieldType \<equiv> ErrNew ''gonfiguration.ErrUnsupportedFieldType''"
abbreviation "ErrRequiredFieldUnset \<equiv> ErrNew ''gonfiguration.ErrRequiredFieldNotSet''"
abbreviation "ErrDefaultTypeMismatch \<equiv> ErrNew ''gonfiguration.ErrDefaultTypeMismatch''"

definition isSupportedType :: "field_type \<Rightarrow> bool" where
  "isSupportedType t = (case t of TUnsupported _ \<Rightarrow> False | _ \<Rightarrow> True)"

text \<open>\<open>strings.Split\<close> with a separator of one byte.\<close>

fun split_byte :: "char \<Rightarrow> string \<Rightarrow> string list" where
  "split_byte sep [] = [[]]"
| "split_byte sep (c # s) = (if c = sep then [] # split_byte sep s else (c # hd (split_byte sep s)) # tl (split_byte sep s))"

definition parseTag :: "string \<Rightarrow> string \<times> bool" where
  "parseTag tag = (let parts = split_byte CHR '','' tag in
     (TrimSpace (hd parts), list_ex (\<lambda>part. TrimSpace part = ''required'') (tl parts)))"

definition setStringSlice :: "string \<Rightarrow> string list" where
  "setStringSlice envVal = (if envVal = [] then [] else map TrimSpace (split_byte CHR '','' envVal))"

definition setEnvVarValue :: "field_type \<Rightarrow> string \<Rightarrow> field_value res" where
  "setEnvVarValue t envVal = (case t of
     TDuration \<Rightarrow> (case ParseDuration envVal of
       Inl e \<Rightarrow> Inl (WrapError ''failed to parse duration'' (Foreign ''time.ParseDuration'')) | Inr d \<Rightarrow> Inr (VDuration d))
   | TStrings \<Rightarrow> Inr (VStrings (setStringSlice envVal))
   | TString \<Rightarrow> Inr (VString envVal)
   | TInt \<Rightarrow> (case ParseInt envVal of Inl e \<Rightarrow> Inl (WrapError ''failed to parse int'' e) | Inr i \<Rightarrow> Inr (VInt i))
   | TUint \<Rightarrow> (case ParseUint envVal of Inl e \<Rightarrow> Inl (WrapError ''failed to parse uint'' e) | Inr n \<Rightarrow> Inr (VUint n))
   | TBool \<Rightarrow> (case ParseBool envVal of Inl e \<Rightarrow> Inl (WrapError ''failed to parse bool'' e) | Inr b \<Rightarrow> Inr (VBool b))
   | TUnsupported k \<Rightarrow> Inl (WrapError k ErrUnsupportedFieldType))"

section \<open>Parsing\<close>

text \<open>The package keeps the defaults that were set and the variables it has read.\<close>

record gonfiguration =
  gc_defaults :: "(string, field_value) gomap"
  gc_envVars :: "(string, string) gomap"

definition gonfig_init :: gonfiguration where
  "gonfig_init = \<lparr>gc_defaults = [], gc_envVars = []\<rparr>"

definition SetDefault :: "string \<Rightarrow> field_value \<Rightarrow> gonfiguration \<Rightarrow> gonfiguration" where
  "SetDefault key v g = g\<lparr>gc_defaults := map_put key v (gc_defaults g)\<rparr>"

text \<open>The variables of the process, as \<open>os.Environ\<close> lists them.\<close>

fun env_vars :: "string list \<Rightarrow> (string, string) gomap \<Rightarrow> (string, string) gomap res" where
  "env_vars [] vars = Inr vars"
| "env_vars (raw # raws) vars = (case IndexByte raw CHR ''='' of
     None \<Rightarrow> Inl (WrapError raw ErrInvalidEnvVar)
   | Some i \<Rightarrow> env_vars raws (map_put (take i raw) (drop (i + 1) raw) vars))"

definition getEnvVars :: "string list \<Rightarrow> (string, string) gomap res" where
  "getEnvVars environ = env_vars environ []"

definition setDefaultValue :: "gonfiguration \<Rightarrow> dst_field \<Rightarrow> string \<Rightarrow> (bool \<times> dst_field) res" where
  "setDefaultValue g f key = (case map_of (gc_defaults g) key of
     None \<Rightarrow> Inr (False, f)
   | Some v \<Rightarrow> if type_of v \<noteq> fd_type f then Inl ErrDefaultTypeMismatch else Inr (True, f\<lparr>fd_value := v\<rparr>))"

definition fillFieldValue :: "gonfiguration \<Rightarrow> (string, string) gomap \<Rightarrow> dst_field \<Rightarrow> string \<Rightarrow> bool \<Rightarrow> dst_field res" where
  "fillFieldValue g envVars f key required =
     (case (case fd_default f of None \<Rightarrow> Inr f | Some d \<Rightarrow> map_sum id (\<lambda>v. f\<lparr>fd_value := v\<rparr>) (setEnvVarValue (fd_type f) d)) of
        Inl e \<Rightarrow> Inl (WrapError (''field '' @ key @ '': invalid default tag value'') e)
      | Inr f1 \<Rightarrow>
          (case setDefaultValue g f1 key of
             Inl e \<Rightarrow> Inl e
           | Inr (hasDefault, f2) \<Rightarrow>
               (case map_of envVars key of
                  None \<Rightarrow> if required \<and> \<not> (hasDefault \<or> fd_default f \<noteq> None)
                    then Inl (WrapError (''field '' @ key) ErrRequiredFieldUnset) else Inr f2
                | Some envVal \<Rightarrow> map_sum id (\<lambda>v. f2\<lparr>fd_value := v\<rparr>) (setEnvVarValue (fd_type f) envVal))))"

fun parseDstFields :: "gonfiguration \<Rightarrow> (string, string) gomap \<Rightarrow> dst_field list \<Rightarrow> dst_field list res" where
  "parseDstFields g envVars [] = Inr []"
| "parseDstFields g envVars (f # fs) = (case fd_env f of
     None \<Rightarrow> map_sum id ((#) f) (parseDstFields g envVars fs)
   | Some tag \<Rightarrow> (case parseTag tag of (key, required) \<Rightarrow>
       if \<not> isSupportedType (fd_type f) then Inl ErrUnsupportedFieldType
       else (case fillFieldValue g envVars f key required of
               Inl e \<Rightarrow> Inl (WrapError ''failed to set field value'' e)
             | Inr f' \<Rightarrow> map_sum id ((#) f') (parseDstFields g envVars fs))))"

definition gonf_Parse :: "string list \<Rightarrow> dst_field list \<Rightarrow> gonfiguration \<Rightarrow> dst_field list res \<times> gonfiguration" where
  "gonf_Parse environ dst g = (case getEnvVars environ of
     Inl e \<Rightarrow> (Inl (WrapError ''failed to get env vars'' e), g)
   | Inr envVars \<Rightarrow>
       (case parseDstFields g envVars dst of
          Inl e \<Rightarrow> Inl (WrapError ''failed to parse fields'' e)
        | Inr fs \<Rightarrow> Inr fs,
        g\<lparr>gc_envVars := foldl (\<lambda>m (k, v). map_put k v m) (gc_envVars g) envVars\<rparr>))"

text \<open>The other operations of the package; a panic is None.\<close>

definition gonf_MustParse :: "string list \<Rightarrow> dst_field list \<Rightarrow> gonfiguration \<Rightarrow> dst_field list option \<times> gonfiguration" where
  "gonf_MustParse environ dst g = (case gonf_Parse environ dst g of
     (Inl _, g') \<Rightarrow> (None, g')
   | (Inr fs, g') \<Rightarrow> (Some fs, g'))"

definition SetDefaults :: "(string, field_value) gomap \<Rightarrow> gonfiguration \<Rightarrow> gonfiguration" where
  "SetDefaults defaults g = foldl (\<lambda>g (key, v). SetDefault key v g) g defaults"

definition gonf_Reset :: "gonfiguration \<Rightarrow> gonfiguration" where
  "gonf_Reset g = \<lparr>gc_defaults = [], gc_envVars = []\<rparr>"

definition GetAllValues :: "gonfiguration \<Rightarrow> (string, field_value) gomap" where
  "GetAllValues g = foldl (\<lambda>m (key, v). map_put key (VString v) m) (gc_defaults g) (gc_envVars g)"

lemma GetAllValues_lookup:
  assumes "map_ok (gc_envVars g)"
  shows "map_of (GetAllValues g) key = (case map_of (gc_envVars g) key of Some v \<Rightarrow> Some (VString v) | None \<Rightarrow> map_of (gc_defaults g) key)"
proof -
  have "map_ok vars \<Longrightarrow> map_of (foldl (\<lambda>m (k, v). map_put k (VString v) m) m vars) key =
    (case map_of vars key of Some v \<Rightarrow> Some (VString v) | None \<Rightarrow> map_of m key)" for vars m
  proof (induction vars arbitrary: m)
    case (Cons x vars)
    then have "map_of vars (fst x) = None" by (simp add: map_ok_def map_of_eq_None_iff)
    then show ?case using Cons by (auto simp: map_ok_def map_of_map_put case_prod_beta split: option.split)
  qed simp
  then show ?thesis using assms by (simp add: GetAllValues_def)
qed

section \<open>Plain tags\<close>

text \<open>A tag of printable ASCII characters without blanks and commas is the name of a variable, which is not required.\<close>

definition plain :: "string \<Rightarrow> bool" where
  "plain s \<longleftrightarrow> list_all (\<lambda>c. 0x21 \<le> byte c \<and> byte c < 0x7F \<and> c \<noteq> CHR '','') s"

lemma TrimSpace_plain:
  assumes "plain s"
  shows "TrimSpace s = s"
proof (cases "rev s")
  case Nil
  then show ?thesis by (simp add: TrimSpace_def TrimRightFunc_def lastIndexFunc.simps)
next
  case (Cons d rs)
  then obtain c t where s: "s = c # t" by (cases s) auto
  have last: "s = rev rs @ [d]" using Cons by (metis rev.simps(2) rev_rev_ident)
  have "0x21 \<le> byte c" "byte c < 0x7F" using assms s by (auto simp: plain_def)
  then have "TrimLeftFunc IsSpace s = s" by (simp add: s DecodeRune_ascii IsSpace_def)
  moreover have d: "0x21 \<le> byte d" "byte d < 0x7F" using assms last by (auto simp: plain_def)
  then have "DecodeLastRune s = (byte d, 1)" by (simp add: DecodeLastRune_def Cons)
  then have "lastIndexFunc IsSpace s = Some (length rs)"
    using d last by (subst lastIndexFunc.simps) (simp add: IsSpace_def)
  ultimately show ?thesis using d by (simp add: TrimSpace_def TrimRightFunc_def last nth_append)
qed

lemma split_byte_id: "sep \<notin> set s \<Longrightarrow> split_byte sep s = [s]"
  by (induction s) auto

lemma parseTag_plain:
  assumes "plain s"
  shows "parseTag s = (s, False)"
proof -
  have "CHR '','' \<notin> set s" using assms by (auto simp: plain_def list_all_iff)
  then show ?thesis using TrimSpace_plain [OF assms] by (simp add: parseTag_def split_byte_id)
qed

section \<open>What a field gets\<close>

text \<open>
  The variable of the environment if there is one, else the default that was set, else the default of the tag, else what
  the field had. A field without the tag env is left alone.
\<close>

definition first_value :: "gonfiguration \<Rightarrow> (string, string) gomap \<Rightarrow> dst_field \<Rightarrow> string \<Rightarrow> field_value res" where
  "first_value g envVars f key = (case map_of envVars key of
     Some s \<Rightarrow> setEnvVarValue (fd_type f) s
   | None \<Rightarrow> (case map_of (gc_defaults g) key of
       Some v \<Rightarrow> Inr v
     | None \<Rightarrow> (case fd_default f of
         Some d \<Rightarrow> setEnvVarValue (fd_type f) d
       | None \<Rightarrow> Inr (fd_value f))))"

text \<open>A field of a struct is sound: its tag default can be read, and the default set for it has its type.\<close>

definition field_ok :: "gonfiguration \<Rightarrow> dst_field \<Rightarrow> bool" where
  "field_ok g f \<longleftrightarrow> isSupportedType (fd_type f) \<and> (\<forall>d. fd_default f = Some d \<longrightarrow> \<not> isl (setEnvVarValue (fd_type f) d))
     \<and> (\<forall>tag v. fd_env f = Some tag \<and> map_of (gc_defaults g) (fst (parseTag tag)) = Some v \<longrightarrow> type_of v = fd_type f)"

lemma fill_first_value:
  assumes "field_ok g f" "fd_env f = Some tag" "parseTag tag = (key, False)"
  shows "case first_value g vars f key of
      Inl e \<Rightarrow> fillFieldValue g vars f key False = Inl e
    | Inr v \<Rightarrow> fillFieldValue g vars f key False = Inr (f\<lparr>fd_value := v\<rparr>)"
proof (cases "fd_default f")
  case None
  then show ?thesis using assms
    by (auto simp: fillFieldValue_def first_value_def setDefaultValue_def field_ok_def split: option.splits sum.splits)
next
  case (Some d)
  then obtain v where "setEnvVarValue (fd_type f) d = Inr v" using assms(1) by (auto simp: field_ok_def isl_def split: sum.splits) (metis old.sum.exhaust)
  then show ?thesis using assms Some
    by (auto simp: fillFieldValue_def first_value_def setDefaultValue_def field_ok_def split: option.splits sum.splits)
qed

lemma setEnvVarValue_type: "setEnvVarValue t s = Inr v \<Longrightarrow> type_of v = t"
  by (auto simp: setEnvVarValue_def split: field_type.splits sum.splits)

text \<open>Values keep the types of their fields.\<close>

lemma fill_typed:
  assumes "fillFieldValue g vars f key req = Inr f'" "type_of (fd_value f) = fd_type f"
  shows "type_of (fd_value f') = fd_type f' \<and> fd_type f' = fd_type f"
  using assms
  by (auto simp: fillFieldValue_def setDefaultValue_def map_sum_def split: option.splits sum.splits if_splits
      dest!: setEnvVarValue_type)

definition fields_typed :: "dst_field list \<Rightarrow> bool" where
  "fields_typed fs \<longleftrightarrow> list_all (\<lambda>f. type_of (fd_value f) = fd_type f) fs"

lemma parse_typed:
  "parseDstFields g vars fs = Inr fs' \<Longrightarrow> fields_typed fs \<Longrightarrow> fields_typed fs' \<and> map fd_type fs' = map fd_type fs"
proof (induction fs arbitrary: fs')
  case (Cons f fs)
  show ?case
  proof (cases "fd_env f")
    case None
    then obtain gs where "parseDstFields g vars fs = Inr gs" "fs' = f # gs"
      using Cons.prems(1) by (cases "parseDstFields g vars fs") auto
    then show ?thesis using Cons by (simp add: fields_typed_def)
  next
    case (Some tag)
    obtain key req where tag: "parseTag tag = (key, req)" by fastforce
    obtain f' where f': "fillFieldValue g vars f key req = Inr f'"
      using Cons.prems(1) Some tag by (auto split: if_splits sum.splits)
    then obtain gs where "parseDstFields g vars fs = Inr gs" "fs' = f' # gs"
      using Cons.prems(1) Some tag by (cases "parseDstFields g vars fs") (auto split: if_splits)
    then show ?thesis using Cons fill_typed [OF f'] by (simp add: fields_typed_def)
  qed
qed simp

text \<open>A field with the tag env whose type is not supported makes every parse fail, whatever the tag says.\<close>

lemma unsupported_fails:
  assumes "f \<in> set fs" "fd_env f \<noteq> None" "\<not> isSupportedType (fd_type f)"
  shows "isl (parseDstFields g vars fs)"
  using assms
proof (induction fs)
  case (Cons f1 fs)
  then show ?case
    by (cases "parseDstFields g vars fs")
      (auto simp: case_prod_beta split: option.splits sum.splits)
qed simp

section \<open>Numbers\<close>

lemma parse_digits_utoa:
  assumes "list_all is_digit s" "foldl (\<lambda>n c. n * 10 + digit c) n s \<le> 2 ^ 64 - 1"
  shows "parse_digits n s = Inr (foldl (\<lambda>n c. n * 10 + digit c) n s)"
  using assms
proof (induction s arbitrary: n)
  case (Cons c s)
  have mono: "m \<le> foldl (\<lambda>n c. n * 10 + digit c) m s" for m s
  proof (induction s arbitrary: m)
    case (Cons c s)
    from Cons [of "m * 10 + digit c"] show ?case by simp
  qed simp
  have "n * 10 + digit c \<le> 2 ^ 64 - 1" using Cons.prems(2) mono [of "n * 10 + digit c" s] by simp
  then show ?case using Cons by simp
qed simp

lemma ParseUint_utoa: "n \<le> 2 ^ 64 - 1 \<Longrightarrow> ParseUint (utoa n) = Inr n"
  using parse_digits_utoa [of "utoa n" 0] utoa_digits [of n] atou_utoa [of n]
  by (simp add: ParseUint_def digit_def)

text \<open>A number that is printed is read again.\<close>

lemma ParseInt_itoa:
  assumes "- (2 ^ 63) \<le> i" "i < 2 ^ 63"
  shows "ParseInt (itoa i) = Inr i"
proof (cases "i < 0")
  case True
  then show ?thesis using assms ParseUint_utoa [of "nat (- i)"] by (simp add: ParseInt_def itoa_def Let_def nat_le_iff)
next
  case False
  have "is_digit (hd (utoa (nat i)))" using utoa_digits [of "nat i"] utoa_nonempty [of "nat i"] by (cases "utoa (nat i)") auto
  then have "hd (utoa (nat i)) \<noteq> CHR ''-''" "hd (utoa (nat i)) \<noteq> CHR ''+''" by (auto simp: is_digit_def)
  then show ?thesis using False assms ParseUint_utoa [of "nat i"] by (simp add: ParseInt_def itoa_def Let_def nat_le_iff nat_less_iff)
qed

section \<open>Parsing field by field\<close>

lemma parse_step:
  assumes "field_ok g f" "fd_env f = Some tag" "plain tag"
  shows "parseDstFields g vars (f # fs) = (case first_value g vars f tag of
      Inl e \<Rightarrow> Inl (WrapError ''failed to set field value'' e)
    | Inr v \<Rightarrow> map_sum id ((#) (f\<lparr>fd_value := v\<rparr>)) (parseDstFields g vars fs))"
  using fill_first_value [OF assms(1,2) parseTag_plain [OF assms(3)], of vars] assms parseTag_plain [OF assms(3)]
  by (auto simp: field_ok_def split: sum.splits)

text \<open>A struct of sound fields parses just when each of its fields gets a value, and then it has these values.\<close>

lemma parse_all_iff:
  "list_all (\<lambda>f. field_ok g f \<and> fd_env f \<noteq> None \<and> plain (the (fd_env f))) fs \<Longrightarrow>
   parseDstFields g vars fs = Inr gs \<longleftrightarrow>
     list_all2 (\<lambda>f f'. \<exists>v. first_value g vars f (the (fd_env f)) = Inr v \<and> f' = f\<lparr>fd_value := v\<rparr>) fs gs"
proof (induction fs arbitrary: gs)
  case (Cons f fs)
  then obtain tag where tag: "fd_env f = Some tag" "plain tag" "field_ok g f" by auto
  show ?case
    using Cons.IH [of "tl gs"] Cons.prems parse_step [OF tag(3,1,2), of vars fs]
    by (cases "parseDstFields g vars fs"; cases gs) (auto simp: tag(1) list_all2_Cons1 split: sum.splits)
qed auto

end
