(* ===== verification/ConfigParsing.thy ===== *)
theory ConfigParsing
  imports Gonfiguration CacheRedis Mysql Postgresql EchoHttp Loki AppRunner Temporal
begin

text \<open>
  The configuration structs of the packages with their tags, and what their parsers make of the environment of the
  process. Each parser of a package takes the result of \<open>gonfiguration.Parse\<close>; here it is the one of theory Gonfiguration on
  the struct.
\<close>

section \<open>The structs\<close>

definition untagged :: "field_type \<Rightarrow> string \<Rightarrow> field_value \<Rightarrow> dst_field" where
  "untagged t var zero = \<lparr>fd_type = t, fd_env = Some var, fd_default = None, fd_value = zero\<rparr>"

definition tagged :: "field_type \<Rightarrow> string \<Rightarrow> string \<Rightarrow> field_value \<Rightarrow> dst_field" where
  "tagged t var def zero = \<lparr>fd_type = t, fd_env = Some var, fd_default = Some def, fd_value = zero\<rparr>"

abbreviation string_field :: "string \<Rightarrow> dst_field" where
  "string_field var \<equiv> untagged TString var (VString [])"

definition cache_fields :: "dst_field list" where
  "cache_fields =
     [tagged TString ''CACHE_MODE'' ''none'' (VString []), tagged TDuration ''CACHE_TTL'' ''5m'' (VDuration 0),
      tagged TInt ''CACHE_MAX_ENTRIES'' ''10000'' (VInt 0), string_field ''CACHE_REDIS_KEY_PREFIX'']"

definition mysql_fields :: "dst_field list" where
  "mysql_fields =
     [string_field ''DB_MYSQL_HOSTNAME'', tagged TInt ''DB_MYSQL_PORT'' ''3306'' (VInt 0), string_field ''DB_MYSQL_USERNAME'',
      string_field ''DB_MYSQL_PASSWORD'', string_field ''DB_MYSQL_DATABASE'', tagged TBool ''DB_MYSQL_ISSSL'' ''true'' (VBool False)]"

definition pg_fields :: "dst_field list" where
  "pg_fields =
     [string_field ''DB_POSTGRESQL_HOSTNAME'', untagged TInt ''DB_POSTGRESQL_PORT'' (VInt 0), string_field ''DB_POSTGRESQL_USERNAME'',
      string_field ''DB_POSTGRESQL_PASSWORD'', string_field ''DB_POSTGRESQL_DATABASE'', untagged TBool ''DB_POSTGRESQL_ISSSL'' (VBool False)]"

definition echo_fields :: "dst_field list" where
  "echo_fields = [string_field ''HTTP_ECHO_LISTENADDRESS'', string_field ''HTTP_ECHO_OASPATH'', string_field ''HTTP_ECHO_SWAGGERUIPATH'']"

definition temporal_fields :: "dst_field list" where
  "temporal_fields = [string_field ''TEMPORAL_CLIENT_HOSTPORT'', string_field ''TEMPORAL_CLIENT_NAMESPACE'', string_field ''TEMPORAL_CLIENT_APIKEY'']"

definition apprunner_fields :: "dst_field list" where
  "apprunner_fields = [untagged TDuration ''APPRUNNER_SHUTDOWNTIMEOUT'' (VDuration 0)]"

definition loki_client_fields :: "dst_field list" where
  "loki_client_fields = [string_field ''SLOGGING_LOKI_URL'']"

text \<open>The label keys are a map, with the tag env set to a dash.\<close>

definition loki_handler_fields :: "dst_field list" where
  "loki_handler_fields = [string_field ''SLOGGING_LOKI_APPNAME'', untagged (TUnsupported ''map[string]bool'') ''-'' (VOpaque ''map[string]bool'')]"

section \<open>From fields to records\<close>

fun as_string :: "field_value \<Rightarrow> string" where
  "as_string (VString s) = s"
| "as_string _ = []"

fun as_int :: "field_value \<Rightarrow> int" where
  "as_int (VInt i) = i"
| "as_int (VDuration d) = d"
| "as_int _ = 0"

fun as_bool :: "field_value \<Rightarrow> bool" where
  "as_bool (VBool b) = b"
| "as_bool _ = False"

definition filled :: "string list \<Rightarrow> dst_field list \<Rightarrow> gonfiguration \<Rightarrow> field_value list res" where
  "filled environ fs g = map_sum id (map fd_value) (fst (gonf_Parse environ fs g))"

definition cache_parsed :: "string list \<Rightarrow> gonfiguration \<Rightarrow> cache_Config res" where
  "cache_parsed environ g = map_sum id (\<lambda>vs. \<lparr>cc_Mode = as_string (vs ! 0), cc_TTL = as_int (vs ! 1), cc_MaxEntries = as_int (vs ! 2),
     cc_RedisKeyPrefix = as_string (vs ! 3)\<rparr>) (filled environ cache_fields g)"

definition mysql_parsed :: "string list \<Rightarrow> gonfiguration \<Rightarrow> mysql_Config res" where
  "mysql_parsed environ g = map_sum id (\<lambda>vs. \<lparr>my_Hostname = as_string (vs ! 0), my_Port = as_int (vs ! 1), my_Username = as_string (vs ! 2),
     my_Password = as_string (vs ! 3), my_Database = as_string (vs ! 4), my_IsSSL = as_bool (vs ! 5)\<rparr>) (filled environ mysql_fields g)"

text \<open>The PostgreSQL, echo and app-runner parsers set a default first.\<close>

definition pg_parsed :: "string list \<Rightarrow> gonfiguration \<Rightarrow> pg_Config res" where
  "pg_parsed environ g = map_sum id (\<lambda>vs. \<lparr>pg_Hostname = as_string (vs ! 0), pg_Port = as_int (vs ! 1), pg_Username = as_string (vs ! 2),
     pg_Password = as_string (vs ! 3), pg_Database = as_string (vs ! 4), pg_IsSSL = as_bool (vs ! 5)\<rparr>)
     (filled environ pg_fields (SetDefault ''DB_POSTGRESQL_PORT'' (VInt 5432) g))"

definition echo_parsed :: "string list \<Rightarrow> gonfiguration \<Rightarrow> (string \<times> string) list \<Rightarrow> echo_Config res" where
  "echo_parsed environ g defaults = map_sum id (\<lambda>vs. \<lparr>ec_ListenAddress = as_string (vs ! 0), ec_OASPath = as_string (vs ! 1),
     ec_SwaggerUIPath = as_string (vs ! 2)\<rparr>)
     (filled environ echo_fields (foldl (\<lambda>g (k, d). SetDefault k (VString d) g) g defaults))"

definition apprunner_parsed :: "string list \<Rightarrow> gonfiguration \<Rightarrow> (string \<times> int) list \<Rightarrow> int res" where
  "apprunner_parsed environ g defaults = map_sum id (\<lambda>vs. as_int (vs ! 0))
     (filled environ apprunner_fields (foldl (\<lambda>g (k, d). SetDefault k (VDuration d) g) g defaults))"

definition temporal_parsed :: "string list \<Rightarrow> gonfiguration \<Rightarrow> tp_ClientConfig res" where
  "temporal_parsed environ g = map_sum id (\<lambda>vs. \<lparr>tc_HostPort = as_string (vs ! 0), tc_Namespace = as_string (vs ! 1),
     tc_APIKey = as_string (vs ! 2)\<rparr>) (filled environ temporal_fields g)"

definition loki_client_parsed :: "string list \<Rightarrow> gonfiguration \<Rightarrow> ClientConfig res" where
  "loki_client_parsed environ g = map_sum id (\<lambda>vs. \<lparr>cc_URL = as_string (vs ! 0)\<rparr>) (filled environ loki_client_fields g)"

definition loki_handler_parsed :: "string list \<Rightarrow> gonfiguration \<Rightarrow> HandlerConfig res" where
  "loki_handler_parsed environ g = map_sum id (\<lambda>vs. \<lparr>hc_AppName = as_string (vs ! 0), hc_LabelKeys = []\<rparr>) (filled environ loki_handler_fields g)"

section \<open>Reading them\<close>

text \<open>What a field of each kind gets.\<close>

definition var_or :: "(string, string) gomap \<Rightarrow> string \<Rightarrow> string \<Rightarrow> string" where
  "var_or vars var d = (case map_of vars var of Some s \<Rightarrow> s | None \<Rightarrow> d)"

lemma field_sels [simp]:
  "fd_env (untagged t var zero) = Some var" "fd_type (untagged t var zero) = t"
  "fd_env (tagged t var d zero) = Some var" "fd_type (tagged t var d zero) = t"
  by (simp_all add: untagged_def tagged_def)

lemma first_untagged:
  "map_of (gc_defaults g) var = None \<Longrightarrow> first_value g vars (untagged t var zero) var =
     (case map_of vars var of Some s \<Rightarrow> setEnvVarValue t s | None \<Rightarrow> Inr zero)"
  by (simp add: first_value_def untagged_def split: option.splits)

lemma first_tagged:
  "map_of (gc_defaults g) var = None \<Longrightarrow> first_value g vars (tagged t var d zero) var = setEnvVarValue t (var_or vars var d)"
  by (simp add: first_value_def tagged_def var_or_def split: option.splits)

lemma first_default:
  "map_of (gc_defaults g) var = Some dv \<Longrightarrow> first_value g vars (untagged t var zero) var =
     (case map_of vars var of Some s \<Rightarrow> setEnvVarValue t s | None \<Rightarrow> Inr dv)"
  by (simp add: first_value_def untagged_def split: option.splits)

lemma string_var: "(case map_of vars var of Some s \<Rightarrow> setEnvVarValue TString s | None \<Rightarrow> Inr (VString d)) = Inr v
    \<longleftrightarrow> v = VString (var_or vars var d)"
  by (auto simp: setEnvVarValue_def var_or_def split: option.splits)

lemma duration_var: "setEnvVarValue TDuration s = Inr v \<longleftrightarrow> (\<exists>d. ParseDuration s = Inr d \<and> v = VDuration d)"
  by (auto simp: setEnvVarValue_def split: sum.splits)

lemma int_var: "setEnvVarValue TInt s = Inr v \<longleftrightarrow> (\<exists>i. ParseInt s = Inr i \<and> v = VInt i)"
  by (auto simp: setEnvVarValue_def split: sum.splits)

lemma bool_var: "setEnvVarValue TBool s = Inr v \<longleftrightarrow> (\<exists>b. ParseBool s = Inr b \<and> v = VBool b)"
  by (auto simp: setEnvVarValue_def split: sum.splits)

lemma string_tagged_var: "setEnvVarValue TString s = Inr v \<longleftrightarrow> v = VString s"
  by (auto simp: setEnvVarValue_def)

lemmas var_iffs = duration_var int_var bool_var string_tagged_var string_var

text \<open>
  A struct whose fields are sound: each has a plain tag and a supported type, and the default of a tag can be read. The
  defaults set elsewhere do not concern it, or have the right type.
\<close>

definition struct_ok :: "gonfiguration \<Rightarrow> dst_field list \<Rightarrow> bool" where
  "struct_ok g fs \<longleftrightarrow> list_all (\<lambda>f. field_ok g f \<and> fd_env f \<noteq> None \<and> plain (the (fd_env f))) fs"

definition unset :: "gonfiguration \<Rightarrow> dst_field list \<Rightarrow> bool" where
  "unset g fs \<longleftrightarrow> list_all (\<lambda>f. map_of (gc_defaults g) (the (fd_env f)) = None) fs"

lemma filled_iff:
  assumes "getEnvVars environ = Inr vars" "struct_ok g fs"
  shows "filled environ fs g = Inr vs \<longleftrightarrow> list_all2 (\<lambda>f v. first_value g vars f (the (fd_env f)) = Inr v) fs vs"
proof -
  have "filled environ fs g = Inr vs \<longleftrightarrow> (\<exists>gs. parseDstFields g vars fs = Inr gs \<and> vs = map fd_value gs)"
    by (cases "parseDstFields g vars fs") (auto simp: filled_def gonf_Parse_def assms(1))
  also have "\<dots> \<longleftrightarrow> list_all2 (\<lambda>f v. first_value g vars f (the (fd_env f)) = Inr v) fs vs"
    unfolding parse_all_iff [OF assms(2) [unfolded struct_ok_def]]
  proof
    assume "list_all2 (\<lambda>f v. first_value g vars f (the (fd_env f)) = Inr v) fs vs"
    then show "\<exists>gs. list_all2 (\<lambda>f f'. \<exists>v. first_value g vars f (the (fd_env f)) = Inr v \<and> f' = f\<lparr>fd_value := v\<rparr>) fs gs \<and> vs = map fd_value gs"
      by (intro exI [of _ "map2 (\<lambda>f v. f\<lparr>fd_value := v\<rparr>) fs vs"]) (auto simp: list_all2_conv_all_nth intro!: nth_equalityI)
  qed (auto simp: list_all2_conv_all_nth)
  finally show ?thesis .
qed

lemma map_sum_Inr_iff: "map_sum id f x = Inr y \<longleftrightarrow> (\<exists>z. x = Inr z \<and> y = f z)"
  by (cases x) auto

lemma field_ok_untagged: "plain var \<Longrightarrow> isSupportedType t \<Longrightarrow> map_of (gc_defaults g) var = None \<Longrightarrow> field_ok g (untagged t var zero)"
  by (simp add: field_ok_def untagged_def parseTag_plain)

lemma field_ok_tagged:
  "plain var \<Longrightarrow> isSupportedType t \<Longrightarrow> map_of (gc_defaults g) var = None \<Longrightarrow> \<not> isl (setEnvVarValue t d) \<Longrightarrow> field_ok g (tagged t var d zero)"
  by (simp add: field_ok_def tagged_def parseTag_plain)

lemma supported [simp]: "isSupportedType TString" "isSupportedType TDuration" "isSupportedType TInt" "isSupportedType TBool"
  by (simp_all add: isSupportedType_def)

lemma parse_first:
  assumes "field_ok g (untagged t var zero)" "plain var"
  shows "parseDstFields g vars (untagged t var zero # fs) = (case first_value g vars (untagged t var zero) var of
       Inl e \<Rightarrow> Inl (WrapError ''failed to set field value'' e)
     | Inr v \<Rightarrow> map_sum id ((#) ((untagged t var zero)\<lparr>fd_value := v\<rparr>)) (parseDstFields g vars fs))"
  using parse_step [OF assms(1) _ assms(2)] by simp

section \<open>The cache and the databases\<close>

lemma defaults_readable:
  "ParseDuration ''5m'' = Inr 300000000000" "ParseInt ''10000'' = Inr 10000" "ParseInt ''3306'' = Inr 3306" "ParseBool ''true'' = Inr True"
  by (simp_all add: ParseDuration_def Let_def duration_loop.simps duration_part_def is_digit_def digit_def unitMap_def
      ParseInt_def ParseUint_def ParseBool_def)

lemma defaults_set [simp]:
  "\<not> isl (setEnvVarValue TString s)" "\<not> isl (setEnvVarValue TDuration ''5m'')" "\<not> isl (setEnvVarValue TInt ''10000'')"
  "\<not> isl (setEnvVarValue TInt ''3306'')" "\<not> isl (setEnvVarValue TBool ''true'')"
  by (simp_all add: setEnvVarValue_def defaults_readable)

lemma cache_struct: "unset g cache_fields \<Longrightarrow> struct_ok g cache_fields"
  by (simp add: unset_def struct_ok_def cache_fields_def field_ok_untagged field_ok_tagged plain_def)

lemma mysql_struct: "unset g mysql_fields \<Longrightarrow> struct_ok g mysql_fields"
  by (simp add: unset_def struct_ok_def mysql_fields_def field_ok_untagged field_ok_tagged plain_def)

section \<open>Properties\<close>

text \<open>
  C24 (functional): the configuration of the cache is read from the environment alone: each variable that is set is used,
  each other one has the default of its tag, and parsing succeeds just when the time to live and the number of entries
  can be read. An empty variable is set, so that an empty time to live is an error and not the default.
\<close>

theorem cache_config_from_environment:
  assumes "getEnvVars environ = Inr vars" "unset g cache_fields"
  shows "cache_ParseConfig (cache_parsed environ g) = Inr cfg \<longleftrightarrow>
      cc_Mode cfg = var_or vars ''CACHE_MODE'' ''none''
    \<and> ParseDuration (var_or vars ''CACHE_TTL'' ''5m'') = Inr (cc_TTL cfg)
    \<and> ParseInt (var_or vars ''CACHE_MAX_ENTRIES'' ''10000'') = Inr (cc_MaxEntries cfg)
    \<and> cc_RedisKeyPrefix cfg = var_or vars ''CACHE_REDIS_KEY_PREFIX'' []"
proof -
  have "cache_ParseConfig (cache_parsed environ g) = Inr cfg \<longleftrightarrow> cache_parsed environ g = Inr cfg"
    by (auto simp: cache_ParseConfig_def split: sum.splits)
  moreover have "filled environ cache_fields g = Inr vs \<longleftrightarrow>
      (\<exists>ttl n. vs = [VString (var_or vars ''CACHE_MODE'' ''none''), VDuration ttl, VInt n, VString (var_or vars ''CACHE_REDIS_KEY_PREFIX'' [])]
        \<and> ParseDuration (var_or vars ''CACHE_TTL'' ''5m'') = Inr ttl \<and> ParseInt (var_or vars ''CACHE_MAX_ENTRIES'' ''10000'') = Inr n)" for vs
    unfolding filled_iff [OF assms(1) cache_struct [OF assms(2)]] using assms(2)
    by (auto simp: cache_fields_def unset_def list_all2_Cons1 first_tagged first_untagged var_iffs)
  ultimately show ?thesis unfolding cache_parsed_def map_sum_Inr_iff by (cases cfg) auto
qed

definition demo_environ :: "string list" where
  "demo_environ = [''HOME=/'', ''CACHE_MODE=memory'', ''CACHE_MAX_ENTRIES=20'']"

lemma demo_environ_vars:
  "getEnvVars demo_environ = Inr [(''HOME'', ''/''), (''CACHE_MODE'', ''memory''), (''CACHE_MAX_ENTRIES'', ''20'')]"
  by (simp add: demo_environ_def getEnvVars_def)

lemma ParseInt_20: "ParseInt ''20'' = Inr 20"
  by (simp add: ParseInt_def ParseUint_def Let_def is_digit_def digit_def)

theorem cache_config_from_environment_witness:
  "getEnvVars demo_environ = Inr [(''HOME'', ''/''), (''CACHE_MODE'', ''memory''), (''CACHE_MAX_ENTRIES'', ''20'')]
   \<and> cache_ParseConfig (cache_parsed demo_environ gonfig_init) =
     Inr \<lparr>cc_Mode = ''memory'', cc_TTL = 300000000000, cc_MaxEntries = 20, cc_RedisKeyPrefix = []\<rparr>"
  using cache_config_from_environment [OF demo_environ_vars, of gonfig_init
      "\<lparr>cc_Mode = ''memory'', cc_TTL = 300000000000, cc_MaxEntries = 20, cc_RedisKeyPrefix = []\<rparr>"]
  by (simp add: demo_environ_vars gonfig_init_def var_or_def unset_def list_all_iff defaults_readable ParseInt_20)

text \<open>
  C26 (error): the handler of package loki can never be made from the environment. The struct it fills has a map for the
  label keys, whose tag env is a dash; the dash is taken for the name of a variable, and the type is not supported. So
  NewHandler fails in every environment, with whatever defaults, while a configuration given by the caller is accepted
  just when it names the application.
\<close>

theorem loki_NewHandler_fails:
  "(\<exists>e. NewHandler (loki_handler_parsed environ g) client level labelKeys = Inl e)
   \<and> (case getEnvVars environ of
        Inl _ \<Rightarrow> True
      | Inr _ \<Rightarrow> \<exists>e. NewHandler (loki_handler_parsed environ gonfig_init) client level labelKeys = Inl e \<and> errors_Is e ErrUnsupportedFieldType)
   \<and> (isl (NewHandlerWithConfig client \<lparr>hc_AppName = appName, hc_LabelKeys = labelKeys\<rparr> level) \<longleftrightarrow> appName = [])"
proof (intro conjI)
  have fails: "isl (parseDstFields g vars loki_handler_fields)" for vars
    by (rule unsupported_fails [of "untagged (TUnsupported ''map[string]bool'') ''-'' (VOpaque ''map[string]bool'')"])
      (simp_all add: loki_handler_fields_def untagged_def isSupportedType_def)
  have "\<exists>e. fst (gonf_Parse environ loki_handler_fields g) = Inl e"
  proof (cases "getEnvVars environ")
    case (Inr vars)
    then show ?thesis using fails [of vars] by (auto simp: gonf_Parse_def isl_def)
  qed (simp add: gonf_Parse_def)
  then show "\<exists>e. NewHandler (loki_handler_parsed environ g) client level labelKeys = Inl e"
    by (auto simp: NewHandler_def parseHandlerConfig_def loki_handler_parsed_def filled_def)
  have app: "plain ''SLOGGING_LOKI_APPNAME''" "map_of (gc_defaults gonfig_init) ''SLOGGING_LOKI_APPNAME'' = None"
    by (simp_all add: plain_def gonfig_init_def)
  have "parseDstFields gonfig_init vars loki_handler_fields = Inl ErrUnsupportedFieldType" for vars
    unfolding loki_handler_fields_def parse_first [OF field_ok_untagged [OF app(1) supported(1) app(2)] app(1)] first_untagged [OF app(2)]
    by (auto simp: setEnvVarValue_def untagged_def isSupportedType_def case_prod_beta split: option.splits)
  then show "case getEnvVars environ of
        Inl _ \<Rightarrow> True
      | Inr _ \<Rightarrow> \<exists>e. NewHandler (loki_handler_parsed environ gonfig_init) client level labelKeys = Inl e \<and> errors_Is e ErrUnsupportedFieldType"
    by (simp add: NewHandler_def parseHandlerConfig_def loki_handler_parsed_def filled_def gonf_Parse_def split: sum.splits)
  show "isl (NewHandlerWithConfig client \<lparr>hc_AppName = appName, hc_LabelKeys = labelKeys\<rparr> level) \<longleftrightarrow> appName = []"
    by (simp add: NewHandlerWithConfig_def HandlerConfig_validate_def)
qed

section \<open>Defaults that are set\<close>

lemma field_ok_default:
  "plain var \<Longrightarrow> isSupportedType t \<Longrightarrow> map_of (gc_defaults g) var = Some dv \<Longrightarrow> type_of dv = t \<Longrightarrow> field_ok g (untagged t var zero)"
  by (simp add: field_ok_def untagged_def parseTag_plain)

text \<open>The application is given ten seconds to stop, or what the variable says, which may be nothing or less.\<close>

lemma shutdown_timeout:
  assumes "getEnvVars environ = Inr vars"
  shows "getConfig (apprunner_parsed environ g) = Inr timeout \<longleftrightarrow>
    (case map_of vars ''APPRUNNER_SHUTDOWNTIMEOUT'' of None \<Rightarrow> timeout = 10000000000 | Some s \<Rightarrow> ParseDuration s = Inr timeout)"
proof -
  let ?g = "SetDefault ''APPRUNNER_SHUTDOWNTIMEOUT'' (VDuration defaultShutdownTimeout) g"
  have p: "plain ''APPRUNNER_SHUTDOWNTIMEOUT''"
    "map_of (gc_defaults ?g) ''APPRUNNER_SHUTDOWNTIMEOUT'' = Some (VDuration defaultShutdownTimeout)"
    by (simp_all add: plain_def SetDefault_def)
  then have ok: "struct_ok ?g apprunner_fields" by (simp add: struct_ok_def apprunner_fields_def field_ok_default)
  have "getConfig (apprunner_parsed environ g) = Inr timeout \<longleftrightarrow> (\<exists>vs. filled environ apprunner_fields ?g = Inr vs \<and> timeout = as_int (vs ! 0))"
    by (cases "filled environ apprunner_fields ?g") (auto simp: getConfig_def apprunner_parsed_def)
  then have "getConfig (apprunner_parsed environ g) = Inr timeout \<longleftrightarrow>
      (case map_of vars ''APPRUNNER_SHUTDOWNTIMEOUT'' of None \<Rightarrow> timeout = defaultShutdownTimeout | Some s \<Rightarrow> ParseDuration s = Inr timeout)"
    unfolding filled_iff [OF assms ok]
    by (auto simp: apprunner_fields_def list_all2_Cons1 first_default [OF p(2)] duration_var split: option.splits)
  then show ?thesis by (simp add: defaultShutdownTimeout_def split: option.splits)
qed

text \<open>The databases: the port is 3306 or 5432 by default, and MySQL is reached over TLS unless the variable says otherwise.\<close>

lemma mysql_config:
  assumes "getEnvVars environ = Inr vars" "unset g mysql_fields"
  shows "mysql_parseConfig (mysql_parsed environ g) = Inr cfg \<longleftrightarrow>
      my_Hostname cfg = var_or vars ''DB_MYSQL_HOSTNAME'' [] \<and> ParseInt (var_or vars ''DB_MYSQL_PORT'' ''3306'') = Inr (my_Port cfg)
    \<and> my_Username cfg = var_or vars ''DB_MYSQL_USERNAME'' [] \<and> my_Password cfg = var_or vars ''DB_MYSQL_PASSWORD'' []
    \<and> my_Database cfg = var_or vars ''DB_MYSQL_DATABASE'' [] \<and> ParseBool (var_or vars ''DB_MYSQL_ISSSL'' ''true'') = Inr (my_IsSSL cfg)"
proof -
  have "mysql_parseConfig (mysql_parsed environ g) = Inr cfg \<longleftrightarrow> mysql_parsed environ g = Inr cfg"
    by (auto simp: mysql_parseConfig_def split: sum.splits)
  moreover have "filled environ mysql_fields g = Inr vs \<longleftrightarrow>
      (\<exists>port ssl. vs = [VString (var_or vars ''DB_MYSQL_HOSTNAME'' []), VInt port, VString (var_or vars ''DB_MYSQL_USERNAME'' []),
          VString (var_or vars ''DB_MYSQL_PASSWORD'' []), VString (var_or vars ''DB_MYSQL_DATABASE'' []), VBool ssl]
        \<and> ParseInt (var_or vars ''DB_MYSQL_PORT'' ''3306'') = Inr port \<and> ParseBool (var_or vars ''DB_MYSQL_ISSSL'' ''true'') = Inr ssl)" for vs
    unfolding filled_iff [OF assms(1) mysql_struct [OF assms(2)]] using assms(2)
    by (auto simp: mysql_fields_def unset_def list_all2_Cons1 first_tagged first_untagged var_iffs)
  ultimately show ?thesis unfolding mysql_parsed_def map_sum_Inr_iff by (cases cfg) auto
qed

lemma pg_struct: "unset g pg_fields \<Longrightarrow> struct_ok (SetDefault ''DB_POSTGRESQL_PORT'' (VInt n) g) pg_fields"
  by (simp add: unset_def struct_ok_def pg_fields_def field_ok_untagged field_ok_default plain_def SetDefault_def)

lemma pg_port:
  assumes "getEnvVars environ = Inr vars" "unset g pg_fields" "pg_parseConfig (pg_parsed environ g) = Inr cfg"
  shows "(case map_of vars ''DB_POSTGRESQL_PORT'' of None \<Rightarrow> pg_Port cfg = 5432 | Some s \<Rightarrow> ParseInt s = Inr (pg_Port cfg))
    \<and> pg_Hostname cfg = var_or vars ''DB_POSTGRESQL_HOSTNAME'' [] \<and> pg_Database cfg = var_or vars ''DB_POSTGRESQL_DATABASE'' []"
proof -
  let ?g = "SetDefault ''DB_POSTGRESQL_PORT'' (VInt 5432) g"
  have none: "map_of (gc_defaults ?g) ''DB_POSTGRESQL_HOSTNAME'' = None" "map_of (gc_defaults ?g) ''DB_POSTGRESQL_USERNAME'' = None"
    "map_of (gc_defaults ?g) ''DB_POSTGRESQL_PASSWORD'' = None" "map_of (gc_defaults ?g) ''DB_POSTGRESQL_DATABASE'' = None"
    "map_of (gc_defaults ?g) ''DB_POSTGRESQL_ISSSL'' = None" and port: "map_of (gc_defaults ?g) ''DB_POSTGRESQL_PORT'' = Some (VInt 5432)"
    using assms(2) by (simp_all add: unset_def pg_fields_def SetDefault_def)
  obtain vs where vs: "filled environ pg_fields ?g = Inr vs" "pg_Port cfg = as_int (vs ! 1)" "pg_Hostname cfg = as_string (vs ! 0)"
      "pg_Database cfg = as_string (vs ! 4)"
    using assms(3) by (cases "filled environ pg_fields ?g") (auto simp: pg_parseConfig_def pg_parsed_def)
  show ?thesis using vs(1) unfolding filled_iff [OF assms(1) pg_struct [OF assms(2)]]
    by (auto simp: pg_fields_def list_all2_Cons1 first_untagged [OF none(1)] first_untagged [OF none(4)] first_default [OF port]
        vs(2-4) var_iffs split: option.splits)
qed

end
