(* ===== verification/ErrorText.thy ===== *)
theory ErrorText
  imports CtxErrors GoStrings "HOL-Library.Sublist"
begin

text \<open>
  The printed form of the errors of package ctxerrors, with the place each was made, and the joining of errors
  (src/vendor/github.com/psyb0t/ctxerrors/ctxerrors.go). An error of the model does not carry its call site, which nothing
  but the printing reads; here the sites are given beside the error.
\<close>

section \<open>Call sites\<close>

record call_site =
  cs_file :: string
  cs_line :: int
  cs_funcName :: string

text \<open>What the runtime knows of a caller: nothing, or the site.\<close>

definition getCallerInfo :: "call_site option \<Rightarrow> call_site" where
  "getCallerInfo caller = (case caller of None \<Rightarrow> \<lparr>cs_file = [], cs_line = 0, cs_funcName = []\<rparr> | Some s \<Rightarrow> s)"

definition site_text :: "call_site \<Rightarrow> string" where
  "site_text s = '' ['' @ cs_file s @ '':'' @ itoa (cs_line s) @ '' in '' @ cs_funcName s @ '']''"

section \<open>Printing\<close>

text \<open>\<open>errors.Join\<close> prints its errors on a line each.\<close>

fun join_lines :: "string list \<Rightarrow> string" where
  "join_lines [] = []"
| "join_lines [s] = s"
| "join_lines (s # ss) = s @ CHR 0x0A # join_lines ss"

text \<open>\<open>site\<close> is the call site of an error of the package, \<open>other\<close> the text of an error of another one.\<close>

fun ctx_Error :: "(go_error \<Rightarrow> call_site) \<Rightarrow> (go_error \<Rightarrow> string) \<Rightarrow> go_error \<Rightarrow> string" where
  "ctx_Error site other (CTXError (Some e) message) =
     message @ '': '' @ ctx_Error site other e @ site_text (site (CTXError (Some e) message))"
| "ctx_Error site other (CTXError None message) = message @ site_text (site (CTXError None message))"
| "ctx_Error site other (JoinError es) = join_lines (map (ctx_Error site other) es)"
| "ctx_Error site other e = other e"

section \<open>Joining\<close>

definition ctx_Join :: "err list \<Rightarrow> err" where
  "ctx_Join errs = (case errors_Join errs of
     None \<Rightarrow> None
   | Some joined \<Rightarrow> Some (CTXError (Some joined) (itoa (int (length (filter (\<lambda>e. e \<noteq> None) errs))) @ '' errors'')))"

definition Wrapf :: "err \<Rightarrow> ('a \<Rightarrow> string) \<Rightarrow> 'a \<Rightarrow> err" where
  "Wrapf e sprintf args = Wrap e (sprintf args)"

lemma ctx_Join_None_iff: "ctx_Join es = None \<longleftrightarrow> (\<forall>e\<in>set es. e = None)"
  by (simp add: ctx_Join_def errors_Join_None_iff [symmetric] split: option.splits)

text \<open>What each of the joined errors is, the result is.\<close>

lemma err_is_ctx_Join: "err_is (ctx_Join es) (ErrNew s) \<longleftrightarrow> (\<exists>e\<in>set es. err_is e (ErrNew s))"
  using err_is_Join_sentinel [of es s] by (cases "errors_Join es") (simp_all add: ctx_Join_def)

section \<open>What a text says\<close>

text \<open>The text of an error contains that of every error in its chain, so that nothing is lost by wrapping.\<close>

fun chain :: "go_error \<Rightarrow> go_error list" where
  "chain (CTXError (Some e) m) = CTXError (Some e) m # chain e"
| "chain (JoinError es) = JoinError es # concat (map chain es)"
| "chain e = [e]"

lemma sublist_join_lines: "s \<in> set ss \<Longrightarrow> sublist s (join_lines ss)"
proof (induction ss rule: join_lines.induct)
  case (3 s1 s2 ss)
  show ?case
  proof (cases "s = s1")
    case True
    then show ?thesis by (simp add: sublist_append_rightI)
  next
    case False
    then have "sublist s (join_lines (s2 # ss))" using 3 by simp
    then have "sublist s ((s1 @ [CHR 0x0A]) @ join_lines (s2 # ss))" 
      using sublist_append_leftI sublist_order.order.trans by blast
    then show ?thesis by simp
  qed
qed auto

lemma text_in_chain: "e' \<in> set (chain e) \<Longrightarrow> sublist (ctx_Error site other e') (ctx_Error site other e)"
proof (induction e rule: chain.induct)
  case (1 e m)
  then have "e' = CTXError (Some e) m \<or> sublist (ctx_Error site other e') (ctx_Error site other e)" by auto
  moreover have "sublist (ctx_Error site other e) (ctx_Error site other (CTXError (Some e) m))"
    by (metis append.assoc ctx_Error.simps(1) sublist_appendI)
  ultimately show ?case using sublist_order.order.trans by blast
next
  case (2 es)
  then consider "e' = JoinError es" | e where "e \<in> set es" "e' \<in> set (chain e)" by auto
  then show ?case
  proof cases
    case 2
    then have "sublist (ctx_Error site other e') (ctx_Error site other e)" using "2.IH" by blast
    moreover have "sublist (ctx_Error site other e) (ctx_Error site other (JoinError es))"
      using 2(1) by (simp add: sublist_join_lines)
    ultimately show ?thesis using sublist_order.order.trans by blast
  qed simp
qed auto

end
