(* ===== verification/Downloads.thy ===== *)
theory Downloads
  imports HttpUtil
begin

text \<open>
  DownloadFiles of package httputil together with the downloads it starts (src/utils/httputil): the workers of HttpUtil
  with the network and the files they work on. A download is two steps, the request up to its response and the copy of
  the body, and the steps of different downloads interleave in any order.
\<close>

section \<open>The workers and what they work on\<close>

text \<open>\<open>dw_bodies\<close> holds the responses whose bodies are still to be copied.\<close>

record 'w workers =
  dw_pool :: downloads
  dw_bodies :: "(job \<times> http_response) list"
  dw_world :: 'w
  dw_files :: files

definition dw_init :: "job list \<Rightarrow> 'w \<Rightarrow> files \<Rightarrow> 'w workers" where
  "dw_init jobs w fs = \<lparr>dw_pool = downloads_init jobs, dw_bodies = [], dw_world = w, dw_files = fs\<rparr>"

datatype dl_action = TakeSlot job | Fetch job | Save job

fun dw_do :: "'w host \<Rightarrow> job list \<Rightarrow> dl_action \<Rightarrow> 'w workers \<Rightarrow> 'w workers option" where
  "dw_do hs jobs (TakeSlot j) s = map_option (\<lambda>p. s\<lparr>dw_pool := p\<rparr>) (take_slot jobs j (dw_pool s))"
| "dw_do hs jobs (Fetch j) s =
     (if j \<notin> set (dl_running (dw_pool s)) \<or> map_of (dw_bodies s) j \<noteq> None then None
      else (case fetch hs (fst j) (dw_world s) of
         (Inl e, _, w) \<Rightarrow> map_option (\<lambda>p. s\<lparr>dw_pool := p, dw_world := w\<rparr>) (end_download jobs j (Some e) (dw_pool s))
       | (Inr resp, _, w) \<Rightarrow> Some (s\<lparr>dw_bodies := (j, resp) # dw_bodies s, dw_world := w\<rparr>)))"
| "dw_do hs jobs (Save j) s = (case map_of (dw_bodies s) j of
     None \<Rightarrow> None
   | Some resp \<Rightarrow> (case save hs (snd j) resp (dw_files s) of (e, fs) \<Rightarrow>
       map_option (\<lambda>p. s\<lparr>dw_pool := p, dw_bodies := map_del j (dw_bodies s), dw_files := fs\<rparr>) (end_download jobs j e (dw_pool s))))"

fun dw_run :: "'w host \<Rightarrow> job list \<Rightarrow> dl_action list \<Rightarrow> 'w workers \<Rightarrow> 'w workers option" where
  "dw_run hs jobs [] s = Some s"
| "dw_run hs jobs (a # as) s = (case dw_do hs jobs a s of None \<Rightarrow> None | Some t \<Rightarrow> dw_run hs jobs as t)"

text \<open>
  A whole call under a schedule of the steps: it returns when every goroutine has ended; None stands for a schedule that
  is not one of the workers', or not all of one.
\<close>

definition DownloadFiles ::
  "(go_error \<Rightarrow> string) \<Rightarrow> 'w host \<Rightarrow> job list \<Rightarrow> dl_action list \<Rightarrow> 'w \<times> files \<Rightarrow> (err \<times> 'w \<times> files) option" where
  "DownloadFiles etext hs urlsToTargetPaths as x = (case x of (w, fs) \<Rightarrow>
     if urlsToTargetPaths = [] then Some (None, w, fs)
     else (case dw_run hs urlsToTargetPaths as (dw_init urlsToTargetPaths w fs) of
             None \<Rightarrow> None
           | Some s \<Rightarrow> if downloads_done (dw_pool s) then Some (downloads_result etext (dw_pool s), dw_world s, dw_files s) else None))"

section \<open>What the files hold\<close>

text \<open>The server answers a request for the URL with this response, of status 200.\<close>

definition answers :: "'w host \<Rightarrow> string \<Rightarrow> http_response \<Rightarrow> bool" where
  "answers hs url resp \<longleftrightarrow> StatusCode resp = StatusOK
     \<and> (\<exists>req w w'. NewRequest (hs_net hs) ''GET'' url '''' = Inr req \<and> Do (hs_net hs) w req = (Inr resp, w'))"

text \<open>The file at the path has a whole body of the URL written over what it held, or the start of one.\<close>

definition arrived :: "'w host \<Rightarrow> files \<Rightarrow> files \<Rightarrow> job \<Rightarrow> bool" where
  "arrived hs fs fs' j \<longleftrightarrow> (\<exists>resp. answers hs (fst j) resp \<and> snd (Body resp) = None
     \<and> fs' (snd j) = Some (overwrite (fst (Body resp)) (fs (snd j))))"

definition begun :: "'w host \<Rightarrow> files \<Rightarrow> files \<Rightarrow> job \<Rightarrow> bool" where
  "begun hs fs fs' j \<longleftrightarrow> (\<exists>resp n. answers hs (fst j) resp
     \<and> fs' (snd j) = Some (overwrite (take n (fst (Body resp))) (fs (snd j))))"

definition result_ok :: "'w host \<Rightarrow> files \<Rightarrow> files \<Rightarrow> job \<Rightarrow> err \<Rightarrow> bool" where
  "result_ok hs fs fs' j e \<longleftrightarrow> (case e of None \<Rightarrow> arrived hs fs fs' j | Some _ \<Rightarrow> fs' (snd j) = fs (snd j) \<or> begun hs fs fs' j)"

lemma fetch_answers: "fetch hs url w = (Inr resp, evs, w') \<Longrightarrow> answers hs url resp"
  by (auto simp: fetch_def answers_def split: sum.splits prod.splits if_splits)

lemma copy_body_start: "copy_body x b = (data, e) \<Longrightarrow> \<exists>n. data = take n (fst b)"
  by (rule exI [of _ "length data"]) (auto simp: copy_body_def split: option.splits if_splits)

lemma save_result:
  assumes "answers hs (fst j) resp" "save hs (snd j) resp fs1 = (e, fs')" "fs1 (snd j) = fs (snd j)"
  shows "result_ok hs fs fs' j e" "p \<noteq> snd j \<Longrightarrow> fs' p = fs1 p"
proof -
  show "result_ok hs fs fs' j e"
  proof (cases "hs_open hs (snd j)")
    case None
    obtain data r where c: "copy_body (hs_write hs (snd j)) (Body resp) = (data, r)" by fastforce
    then have s: "e = Wrap r ''failed to write file''" "fs' (snd j) = Some (overwrite data (fs (snd j)))"
      using assms None by (auto simp: save_def)
    show ?thesis
    proof (cases r)
      assume "r = None"
      then show ?thesis using s assms(1) copy_body_ok [of "hs_write hs (snd j)" "Body resp" data] c
        by (auto simp: result_ok_def arrived_def intro!: exI [of _ resp])
    next
      fix x assume "r = Some x"
      moreover have "begun hs fs fs' j" using s(2) assms(1) copy_body_start [OF c] unfolding begun_def by blast
      ultimately show ?thesis using s(1) by (simp add: result_ok_def)
    qed
  qed (use assms in \<open>auto simp: save_def result_ok_def\<close>)
  show "p \<noteq> snd j \<Longrightarrow> fs' p = fs1 p" using assms(2) by (auto simp: save_def split: option.splits prod.splits)
qed

section \<open>The invariant\<close>

definition dw_inv :: "'w host \<Rightarrow> job list \<Rightarrow> files \<Rightarrow> 'w workers \<Rightarrow> bool" where
  "dw_inv hs jobs fs s \<longleftrightarrow> dl_inv jobs (dw_pool s)
     \<and> map_ok (dw_bodies s) \<and> fst ` set (dw_bodies s) \<subseteq> set (dl_running (dw_pool s))
     \<and> (\<forall>(j, resp)\<in>set (dw_bodies s). answers hs (fst j) resp)
     \<and> (\<forall>p. p \<notin> snd ` fst ` set (dl_results (dw_pool s)) \<longrightarrow> dw_files s p = fs p)
     \<and> (\<forall>(j, e)\<in>set (dl_results (dw_pool s)). result_ok hs fs (dw_files s) j e)"

lemma end_downloadD:
  assumes "end_download jobs j e p = Some q"
  shows "j \<in> set (dl_running p)" "dl_waiting q = dl_waiting p" "dl_running q = remove1 j (dl_running p)" "dl_results q = dl_results p @ [(j, e)]"
  using assms by (auto simp: end_download_def split: if_splits option.splits)

lemma take_slotD:
  assumes "take_slot jobs j p = Some q"
  shows "dl_running q = j # dl_running p" "dl_results q = dl_results p" "dl_waiting q = remove1 j (dl_waiting p)" "j \<in> set (dl_waiting p)"
  using assms by (auto simp: take_slot_def split: if_splits)

lemma targets_apart:
  assumes "dl_inv jobs p" "distinct (map snd jobs)" "j \<in> set (dl_running p)"
  shows "snd j \<notin> snd ` fst ` set (dl_results p)"
proof -
  have "mset (dl_waiting p @ dl_running p @ map fst (dl_results p)) = mset jobs"
    using assms(1) by (simp add: dl_inv_def add.assoc)
  then have "mset (map snd (dl_waiting p @ dl_running p @ map fst (dl_results p))) = mset (map snd jobs)"
    by (simp only: mset_map)
  then have "distinct (map snd (dl_waiting p @ dl_running p @ map fst (dl_results p)))"
    using assms(2) mset_eq_imp_distinct_iff by blast
  then have "snd ` set (dl_running p) \<inter> snd ` fst ` set (dl_results p) = {}" by (simp add: image_image)
  then show ?thesis using assms(3) by blast
qed

lemma result_ok_cong: "fs1 (snd j) = fs2 (snd j) \<Longrightarrow> result_ok hs fs fs1 j e = result_ok hs fs fs2 j e"
  by (simp add: result_ok_def arrived_def begun_def split: option.split)

lemma dw_inv_end:
  assumes inv: "dw_inv hs jobs fs s" and apart: "distinct (map snd jobs)"
    and ended: "end_download jobs j e (dw_pool s) = Some (dw_pool t)"
    and "result_ok hs fs (dw_files t) j e" and others: "\<And>p. p \<noteq> snd j \<Longrightarrow> dw_files t p = dw_files s p"
    and bodies: "map_ok (dw_bodies t)" "set (dw_bodies t) \<subseteq> set (dw_bodies s)" "j \<notin> fst ` set (dw_bodies t)"
  shows "dw_inv hs jobs fs t"
proof -
  note pool = end_downloadD [OF ended]
  have p: "dl_inv jobs (dw_pool s)" using inv by (simp add: dw_inv_def)
  have old: "result_ok hs fs (dw_files t) k r" if k: "(k, r) \<in> set (dl_results (dw_pool s))" for k r
  proof -
    have "snd k \<noteq> snd j" using targets_apart [OF p apart pool(1)] k by (metis fst_conv imageI)
    moreover have "result_ok hs fs (dw_files s) k r" using inv k unfolding dw_inv_def by blast
    ultimately show ?thesis using others result_ok_cong [of "dw_files t" k "dw_files s" hs fs r] by simp
  qed
  have "fst ` set (dw_bodies t) \<subseteq> set (dl_running (dw_pool t))"
  proof
    fix k assume k: "k \<in> fst ` set (dw_bodies t)"
    then have "k \<in> fst ` set (dw_bodies s)" "k \<noteq> j" using bodies by auto
    then show "k \<in> set (dl_running (dw_pool t))" using inv unfolding dw_inv_def pool(3) by (auto simp: in_set_remove1)
  qed
  moreover have "dl_inv jobs (dw_pool t)" using dl_inv_step [OF dl_step.finish [OF ended] p] .
  moreover have "dw_files t p = fs p" if "p \<notin> snd ` fst ` set (dl_results (dw_pool t))" for p
    using that inv others [of p] unfolding dw_inv_def pool(4) by auto
  moreover have "\<forall>(k, resp)\<in>set (dw_bodies t). answers hs (fst k) resp" using inv bodies(2) unfolding dw_inv_def by blast
  moreover have "\<forall>(k, r)\<in>set (dl_results (dw_pool t)). result_ok hs fs (dw_files t) k r"
    using old assms(4) unfolding pool(4) by auto
  ultimately show ?thesis using bodies(1) unfolding dw_inv_def by blast
qed

lemma dw_inv_files: "dw_inv hs jobs fs s \<Longrightarrow> distinct (map snd jobs) \<Longrightarrow> j \<in> set (dl_running (dw_pool s)) \<Longrightarrow> dw_files s (snd j) = fs (snd j)"
  using targets_apart [of jobs "dw_pool s" j] by (simp add: dw_inv_def)

lemma dw_inv_do:
  assumes inv: "dw_inv hs jobs fs s" and apart: "distinct (map snd jobs)" and act: "dw_do hs jobs a s = Some t"
  shows "dw_inv hs jobs fs t"
proof (cases a)
  case (TakeSlot j)
  then obtain p where p: "take_slot jobs j (dw_pool s) = Some p" and t: "t = s\<lparr>dw_pool := p\<rparr>" using act by auto
  have "dl_inv jobs p" using inv dl_inv_step [OF dl_step.slot [OF p]] by (simp add: dw_inv_def)
  then show ?thesis using inv unfolding dw_inv_def t by (auto simp: take_slotD [OF p])
next
  case (Fetch j)
  then have j: "j \<in> set (dl_running (dw_pool s))" "map_of (dw_bodies s) j = None" using act by (auto split: if_splits)
  obtain x evs w where f: "fetch hs (fst j) (dw_world s) = (x, evs, w)" by (cases "fetch hs (fst j) (dw_world s)") auto
  show ?thesis
  proof (cases x)
    case (Inl e)
    then obtain p where "end_download jobs j (Some e) (dw_pool s) = Some p" "t = s\<lparr>dw_pool := p, dw_world := w\<rparr>"
      using act Fetch j f by auto
    then show ?thesis using dw_inv_end [OF inv apart, of j "Some e" t] dw_inv_files [OF inv apart j(1)] inv j(2)
      by (simp add: result_ok_def dw_inv_def map_of_eq_None_iff)
  next
    case (Inr resp)
    then have t: "t = s\<lparr>dw_bodies := (j, resp) # dw_bodies s, dw_world := w\<rparr>" using act Fetch j f by auto
    have "answers hs (fst j) resp" using f Inr by (simp add: fetch_answers)
    then show ?thesis using inv j unfolding dw_inv_def t by (auto simp: map_ok_def map_of_eq_None_iff)
  qed
next
  case (Save j)
  then obtain resp e fs' p where b: "map_of (dw_bodies s) j = Some resp" "save hs (snd j) resp (dw_files s) = (e, fs')"
    and p: "end_download jobs j e (dw_pool s) = Some p" and t: "t = s\<lparr>dw_pool := p, dw_bodies := map_del j (dw_bodies s), dw_files := fs'\<rparr>"
    using act by (auto split: option.splits prod.splits)
  have "answers hs (fst j) resp" using b(1) inv by (auto simp: dw_inv_def dest: map_of_SomeD)
  note saved = save_result [where fs = fs, OF this b(2) dw_inv_files [OF inv apart end_downloadD(1) [OF p]]]
  have "map_ok (map_del j (dw_bodies s))" using inv by (simp add: dw_inv_def)
  moreover have "set (map_del j (dw_bodies s)) \<subseteq> set (dw_bodies s)" "j \<notin> fst ` set (map_del j (dw_bodies s))"
    by (auto simp: map_del_def)
  ultimately show ?thesis using p saved t by (intro dw_inv_end [OF inv apart, of j e]) simp_all
qed

lemma dw_inv_init: "dw_inv hs jobs fs (dw_init jobs w fs)"
  by (simp add: dw_inv_def dw_init_def dl_inv_init) (simp add: downloads_init_def)

lemma dw_inv_run: "dw_inv hs jobs fs s \<Longrightarrow> distinct (map snd jobs) \<Longrightarrow> dw_run hs jobs as s = Some t \<Longrightarrow> dw_inv hs jobs fs t"
  by (induction as arbitrary: s) (auto split: option.splits dest: dw_inv_do)

section \<open>Every run ends\<close>

text \<open>A file that waits has three steps to go, one that is being downloaded two, and one whose body has come one.\<close>

definition dw_left :: "'w workers \<Rightarrow> nat" where
  "dw_left s = 3 * length (dl_waiting (dw_pool s)) + 2 * length (dl_running (dw_pool s)) - length (dw_bodies s)"

lemma bodies_le: "dw_inv hs jobs fs s \<Longrightarrow> length (dw_bodies s) \<le> length (dl_running (dw_pool s))"
proof -
  assume inv: "dw_inv hs jobs fs s"
  have "length (dw_bodies s) = card (fst ` set (dw_bodies s))"
    using inv distinct_card [of "map fst (dw_bodies s)"] by (simp add: dw_inv_def map_ok_def)
  also have "\<dots> \<le> card (set (dl_running (dw_pool s)))" using inv by (intro card_mono) (simp_all add: dw_inv_def)
  also have "\<dots> \<le> length (dl_running (dw_pool s))" by (rule card_length)
  finally show ?thesis .
qed

lemma dw_left_do:
  assumes inv: "dw_inv hs jobs fs s" and act: "dw_do hs jobs a s = Some t"
  shows "dw_left t < dw_left s"
proof (cases a)
  case (TakeSlot j)
  then obtain p where p: "take_slot jobs j (dw_pool s) = Some p" and t: "t = s\<lparr>dw_pool := p\<rparr>" using act by auto
  have "length (dl_waiting (dw_pool s)) = Suc (length (dl_waiting p))"
    using take_slotD(3,4) [OF p] length_pos_if_in_set [of j "dl_waiting (dw_pool s)"] by (simp add: length_remove1)
  then show ?thesis using bodies_le [OF inv] by (simp add: dw_left_def t take_slotD [OF p])
next
  case (Fetch j)
  then have j: "j \<in> set (dl_running (dw_pool s))" "map_of (dw_bodies s) j = None" using act by (auto split: if_splits)
  have "fst ` set (dw_bodies s) \<subseteq> set (dl_running (dw_pool s)) - {j}" using inv j by (auto simp: dw_inv_def map_of_eq_None_iff)
  moreover have "card (set (dl_running (dw_pool s)) - {j}) < length (dl_running (dw_pool s))"
    using j card_length [of "dl_running (dw_pool s)"] card_Diff1_less [of "set (dl_running (dw_pool s))" j] by simp
  ultimately have b: "length (dw_bodies s) < length (dl_running (dw_pool s))"
    using inv distinct_card [of "map fst (dw_bodies s)"] card_mono [of "set (dl_running (dw_pool s)) - {j}" "fst ` set (dw_bodies s)"]
    by (simp add: dw_inv_def map_ok_def)
  obtain x evs w where f: "fetch hs (fst j) (dw_world s) = (x, evs, w)" by (cases "fetch hs (fst j) (dw_world s)") auto
  show ?thesis
  proof (cases x)
    case (Inl e)
    then obtain p where p: "end_download jobs j (Some e) (dw_pool s) = Some p" and t: "t = s\<lparr>dw_pool := p, dw_world := w\<rparr>"
      using act Fetch j f by auto
    show ?thesis using b j(1) by (simp add: dw_left_def t end_downloadD [OF p] length_remove1)
  next
    case (Inr resp)
    then have "t = s\<lparr>dw_bodies := (j, resp) # dw_bodies s, dw_world := w\<rparr>" using act Fetch j f by auto
    then show ?thesis using b by (simp add: dw_left_def)
  qed
next
  case (Save j)
  then obtain resp e fs' p where b: "map_of (dw_bodies s) j = Some resp"
    and p: "end_download jobs j e (dw_pool s) = Some p" and t: "t = s\<lparr>dw_pool := p, dw_bodies := map_del j (dw_bodies s), dw_files := fs'\<rparr>"
    using act by (auto split: option.splits prod.splits)
  have "Suc (length (map_del j (dw_bodies s))) = length (dw_bodies s)"
    using b inv length_map_del [of "dw_bodies s" j resp] by (simp add: dw_inv_def)
  then show ?thesis using bodies_le [OF inv] end_downloadD(1) [OF p] by (simp add: dw_left_def t end_downloadD [OF p] length_remove1)
qed

lemma dw_run_length:
  "dw_inv hs jobs fs s \<Longrightarrow> distinct (map snd jobs) \<Longrightarrow> dw_run hs jobs as s = Some t \<Longrightarrow> length as + dw_left t \<le> dw_left s"
proof (induction as arbitrary: s)
  case (Cons a as)
  then obtain u where u: "dw_do hs jobs a s = Some u" "dw_run hs jobs as u = Some t" by (auto split: option.splits)
  then show ?case using Cons.IH [of u] Cons.prems(2) dw_inv_do [OF Cons.prems(1,2) u(1)] dw_left_do [OF Cons.prems(1) u(1)] by simp
qed simp

lemma dw_goes_on:
  assumes inv: "dw_inv hs jobs fs s" and "\<not> downloads_done (dw_pool s)"
  shows "\<exists>a t. dw_do hs jobs a s = Some t"
proof (cases "dl_running (dw_pool s)")
  case Nil
  have "dl_inv jobs (dw_pool s)" using inv by (simp add: dw_inv_def)
  from dl_progress(1) [OF this assms(2) Nil] obtain j t where "take_slot jobs j (dw_pool s) = Some t" by blast
  then show ?thesis by (intro exI [of _ "TakeSlot j"]) simp
next
  case (Cons j js)
  have p: "dl_inv jobs (dw_pool s)" using inv by (simp add: dw_inv_def)
  have "j \<in> set (dl_running (dw_pool s))" using Cons by simp
  note ends = dl_progress(2) [OF p assms(2) this]
  show ?thesis
  proof (cases "map_of (dw_bodies s) j")
    case None
    then have "\<exists>t. dw_do hs jobs (Fetch j) s = Some t" using Cons ends by (auto split: sum.split prod.split)
    then show ?thesis by blast
  next
    case (Some resp)
    then have "\<exists>t. dw_do hs jobs (Save j) s = Some t" using ends by (auto split: prod.split)
    then show ?thesis by blast
  qed
qed

lemma dw_run_append: "dw_run hs jobs (as @ bs) s = (case dw_run hs jobs as s of None \<Rightarrow> None | Some t \<Rightarrow> dw_run hs jobs bs t)"
  by (induction as arbitrary: s) (auto split: option.split)

lemma dw_ends:
  assumes "dw_inv hs jobs fs s" "distinct (map snd jobs)"
  shows "\<exists>as t. dw_run hs jobs as s = Some t \<and> downloads_done (dw_pool t)"
  using assms
proof (induction "dw_left s" arbitrary: s rule: less_induct)
  case less
  show ?case
  proof (cases "downloads_done (dw_pool s)")
    case True
    then show ?thesis by (intro exI [of _ "[]"]) simp
  next
    case False
    then obtain a t where a: "dw_do hs jobs a s = Some t" using dw_goes_on [OF less.prems(1)] by blast
    from less.hyps [OF dw_left_do [OF less.prems(1) a] dw_inv_do [OF less.prems a] less.prems(2)]
    obtain as u where "dw_run hs jobs as t = Some u" "downloads_done (dw_pool u)" by blast
    then show ?thesis using a by (intro exI [of _ "a # as"]) simp
  qed
qed

section \<open>Properties\<close>

lemma all_tried: "dw_inv hs jobs fs s \<Longrightarrow> downloads_done (dw_pool s) \<Longrightarrow> fst ` set (dl_results (dw_pool s)) = set jobs"
  using mset_eq_setD [of "map fst (dl_results (dw_pool s))" jobs] by (simp add: dw_inv_def dl_inv_def downloads_done_def)

lemma dw_returns:
  assumes inv: "dw_inv hs jobs fs s" and "downloads_done (dw_pool s)"
  shows "case downloads_result etext (dw_pool s) of
      None \<Rightarrow> \<forall>j. j \<in> set jobs \<longrightarrow> arrived hs fs (dw_files s) j
    | Some e \<Rightarrow> errors_Is e ErrCouldNotDownloadFiles \<and> (\<exists>j x. (j, Some x) \<in> set (dl_results (dw_pool s)))"
proof (cases "dl_errChan (dw_pool s) = []")
  case True
  have "dl_inv jobs (dw_pool s)" using inv by (simp add: dw_inv_def)
  then have ok: "\<forall>(j, e)\<in>set (dl_results (dw_pool s)). e = None" using True errChan_empty by blast
  have "arrived hs fs (dw_files s) j" if j: "j \<in> set jobs" for j
  proof -
    have "j \<in> fst ` set (dl_results (dw_pool s))" using j all_tried [OF assms] by simp
    then obtain e where e: "(j, e) \<in> set (dl_results (dw_pool s))" by auto
    then have "result_ok hs fs (dw_files s) j e" using inv unfolding dw_inv_def by blast
    moreover have "e = None" using ok e by blast
    ultimately show ?thesis by (simp add: result_ok_def)
  qed
  then show ?thesis using True by (simp add: downloads_result_def)
next
  case False
  have "dl_inv jobs (dw_pool s)" using inv by (simp add: dw_inv_def)
  then obtain j e where "(j, e) \<in> set (dl_results (dw_pool s))" "e \<noteq> None" using False errChan_empty by blast
  then have "\<exists>j x. (j, Some x) \<in> set (dl_results (dw_pool s))" by blast
  then show ?thesis using False by (simp add: downloads_result_def del: split_paired_Ex)
qed

lemma dw_touched:
  assumes inv: "dw_inv hs jobs fs s"
  shows "dw_files s (snd j) = fs (snd j) \<or> (\<exists>k. k \<in> set jobs \<and> snd k = snd j \<and> begun hs fs (dw_files s) k)"
proof (cases "snd j \<in> snd ` fst ` set (dl_results (dw_pool s))")
  case True
  then obtain k e where k: "(k, e) \<in> set (dl_results (dw_pool s))" "snd k = snd j" by force
  then have ok: "result_ok hs fs (dw_files s) k e" using inv unfolding dw_inv_def by blast
  have "arrived hs fs (dw_files s) k \<Longrightarrow> begun hs fs (dw_files s) k"
    unfolding arrived_def begun_def by (metis order_refl take_all)
  moreover have "mset (map fst (dl_results (dw_pool s))) \<subseteq># mset jobs"
    using inv unfolding dw_inv_def dl_inv_def by (metis mset_subset_eq_add_right)
  then have "k \<in> set jobs" using k(1) mset_subset_eqD [of _ "mset jobs" k] by force
  moreover have "dw_files s (snd j) = fs (snd j) \<or> begun hs fs (dw_files s) k"
    using ok k(2) calculation(1) by (cases e) (auto simp: result_ok_def)
  ultimately show ?thesis using k(2) by blast
qed (use inv in \<open>simp add: dw_inv_def\<close>)

lemma no_jobs: "dw_run hs [] as (dw_init [] w fs) = Some s \<Longrightarrow> s = dw_init [] w fs"
  by (cases as; cases "hd as") (auto simp: dw_init_def downloads_init_def take_slot_def split: option.splits)

text \<open>
  C37 (functional): DownloadFiles does its work whichever way the downloads interleave. With targets that differ, at most
  five downloads are at work, no run has more than three steps per file, and every run goes on to one that returns. At any
  time a file is as it was or has the start of a body of its own URL written over it; no other file changes. The
  call returns nil only if every target has a whole body, of a response with status 200 to its URL, written
  over what it held, and otherwise ErrCouldNotDownloadFiles.
\<close>

theorem downloads_arrive:
  assumes "distinct (map snd jobs)" "dw_run hs jobs as (dw_init jobs w fs) = Some s"
  shows "length (dl_running (dw_pool s)) \<le> 5 \<and> length as \<le> 3 * length jobs
    \<and> (\<exists>bs. DownloadFiles etext hs jobs (as @ bs) (w, fs) \<noteq> None)
    \<and> (\<forall>p. dw_files s p = fs p \<or> (\<exists>j. j \<in> set jobs \<and> snd j = p \<and> begun hs fs (dw_files s) j))
    \<and> (case DownloadFiles etext hs jobs as (w, fs) of
         None \<Rightarrow> \<exists>a t. dw_do hs jobs a s = Some t
       | Some (None, w', fs') \<Rightarrow> fs' = dw_files s \<and> (\<forall>j. j \<in> set jobs \<longrightarrow> arrived hs fs fs' j)
       | Some (Some e, w', fs') \<Rightarrow> fs' = dw_files s \<and> errors_Is e ErrCouldNotDownloadFiles)"
proof -
  have inv: "dw_inv hs jobs fs s" using dw_inv_run [OF dw_inv_init assms] .
  have "length (dl_running (dw_pool s)) \<le> 5"
    using inv by (simp add: dw_inv_def dl_inv_def workerLimit_def downloadFilesWorkerLimit_def)
  moreover have "length as \<le> 3 * length jobs"
    using dw_run_length [OF dw_inv_init assms] by (simp add: dw_left_def dw_init_def downloads_init_def)
  moreover have "dw_files s p = fs p \<or> (\<exists>j. j \<in> set jobs \<and> snd j = p \<and> begun hs fs (dw_files s) j)" for p
    using dw_touched [OF inv, of "('''', p)"] by simp
  moreover have "\<exists>bs. DownloadFiles etext hs jobs (as @ bs) (w, fs) \<noteq> None"
  proof -
    obtain bs t where "dw_run hs jobs bs s = Some t" "downloads_done (dw_pool t)" using dw_ends [OF inv assms(1)] by blast
    then show ?thesis using assms(2) by (intro exI [of _ bs]) (simp add: DownloadFiles_def dw_run_append)
  qed
  moreover have "case DownloadFiles etext hs jobs as (w, fs) of
         None \<Rightarrow> \<exists>a t. dw_do hs jobs a s = Some t
       | Some (None, w', fs') \<Rightarrow> fs' = dw_files s \<and> (\<forall>j. j \<in> set jobs \<longrightarrow> arrived hs fs fs' j)
       | Some (Some e, w', fs') \<Rightarrow> fs' = dw_files s \<and> errors_Is e ErrCouldNotDownloadFiles"
  proof (cases "downloads_done (dw_pool s)")
    case True
    then have "DownloadFiles etext hs jobs as (w, fs) = Some (downloads_result etext (dw_pool s), dw_world s, dw_files s)"
      using assms(2) no_jobs [of hs as w fs s] by (auto simp: DownloadFiles_def downloads_result_def dw_init_def downloads_init_def)
    then show ?thesis using dw_returns [OF inv True, of etext] by (simp split: option.splits)
  next
    case False
    then show ?thesis using assms(2) dw_goes_on [OF inv] no_jobs [of hs as w fs s]
      by (auto simp: DownloadFiles_def dw_init_def downloads_init_def downloads_done_def)
  qed
  ultimately show ?thesis by blast
qed

definition demo_jobs :: "job list" where
  "demo_jobs = [(''u'', ''p''), (''v'', ''q'')]"

definition demo_schedule :: "dl_action list" where
  "demo_schedule = [TakeSlot (''v'', ''q''), TakeSlot (''u'', ''p''), Fetch (''u'', ''p''), Fetch (''v'', ''q''), Save (''u'', ''p''), Save (''v'', ''q'')]"

lemma demo_downloads:
  "\<exists>s. dw_run demo_host demo_jobs demo_schedule (dw_init demo_jobs () (\<lambda>_. Some ''previous'')) = Some s
     \<and> DownloadFiles (\<lambda>_. '''') demo_host demo_jobs demo_schedule ((), \<lambda>_. Some ''previous'') = Some (None, (), dw_files s)"
  by (simp add: DownloadFiles_def demo_schedule_def demo_jobs_def dw_init_def downloads_init_def take_slot_def workerLimit_def
      downloadFilesWorkerLimit_def fetch_def save_def end_download_def demo_host_def NewRequest_def copy_body_def downloads_done_def
      downloads_result_def map_del_def)

theorem downloads_arrive_witness:
  "\<exists>fs. DownloadFiles (\<lambda>_. '''') demo_host demo_jobs demo_schedule ((), \<lambda>_. Some ''previous'') = Some (None, (), fs)
     \<and> fs ''q'' = Some ''newvious'' \<and> fs ''r'' = Some ''previous''"
proof -
  obtain s where s: "dw_run demo_host demo_jobs demo_schedule (dw_init demo_jobs () (\<lambda>_. Some ''previous'')) = Some s"
    "DownloadFiles (\<lambda>_. '''') demo_host demo_jobs demo_schedule ((), \<lambda>_. Some ''previous'') = Some (None, (), dw_files s)"
    using demo_downloads by blast
  have "distinct (map snd demo_jobs)" by (simp add: demo_jobs_def)
  note arrive = downloads_arrive [OF this s(1), of "\<lambda>_. ''''"]
  have "arrived demo_host (\<lambda>_. Some ''previous'') (dw_files s) (''v'', ''q'')" using arrive s(2) by (simp add: demo_jobs_def)
  then have "dw_files s ''q'' = Some ''newvious''" by (auto simp: arrived_def answers_def demo_host_def overwrite_def)
  moreover have "dw_files s ''r'' = Some ''previous''" using arrive by (auto simp: demo_jobs_def)
  ultimately show ?thesis using s(2) by blast
qed

end
