(* ===== verification/RegistryLocks.thy ===== *)
theory RegistryLocks
  imports RateLimit RWMutex
begin

text \<open>
  The registry of src/ratelimit/ratelimit.go in use by many goroutines. Register holds the lock for writing; Wait holds
  it for reading while it looks the limiter up, and waits without it. The registry keeps the contract of an object behind
  a read-write lock, so the whole calls of theory RateLimit are what any interleaving comes to.
\<close>

datatype registry_call =
    RCRegister string rat int
  | RCFind string

datatype registry_local =
    RLStart
  | RLDone "nat option"

text \<open>What a call does under the lock; its result is the limiter that was found.\<close>

fun registry_spec :: "registry_call \<Rightarrow> Registry \<Rightarrow> Registry \<times> nat option" where
  "registry_spec (RCRegister name rps burst) l = (ratelimit_Register l name rps burst, None)"
| "registry_spec (RCFind name) l = (l, map_of (rg_limiters l) name)"

fun registry_micro :: "registry_call \<Rightarrow> Registry \<Rightarrow> registry_local \<Rightarrow> Registry \<times> registry_local" where
  "registry_micro op l RLStart = (case registry_spec op l of (l', r) \<Rightarrow> (l', RLDone r))"
| "registry_micro op l (RLDone r) = (l, RLDone r)"

fun registry_writes :: "registry_call \<Rightarrow> bool" where
  "registry_writes (RCRegister name rps burst) = True"
| "registry_writes (RCFind name) = False"

definition registry_object :: "(registry_call, Registry, registry_local, nat option) object" where
  "registry_object = \<lparr>admissible = (\<lambda>_. True), writes = registry_writes, start_of = (\<lambda>_. RLStart), micro = registry_micro,
     final = (\<lambda>_ x. case x of RLStart \<Rightarrow> None | RLDone r \<Rightarrow> Some r)\<rparr>"

lemma registry_object_simps [simp]:
  "admissible registry_object op" "writes registry_object = registry_writes" "start_of registry_object op = RLStart"
  "micro registry_object = registry_micro" "final registry_object op RLStart = None" "final registry_object op (RLDone r) = Some r"
  by (simp_all add: registry_object_def)

lemma registry_in_body:
  "in_body registry_object op l l' x \<Longrightarrow> (x = RLStart \<and> l' = l) \<or> (\<exists>r. x = RLDone r \<and> registry_spec op l = (l', r))"
  by (induction rule: in_body.induct) (auto split: prod.splits)

interpretation rlk: locked_object registry_object registry_spec reg_ok "\<lambda>_ _ x. if x = RLStart then 1 else 0"
proof unfold_locales
  show "\<not> writes registry_object op \<Longrightarrow> in_body registry_object op l l' x \<Longrightarrow> l' = l" for op l l' x
    using registry_in_body [of op l l' x] by (cases op) auto
  show "in_body registry_object op l l' x \<Longrightarrow> final registry_object op x = Some r \<Longrightarrow> registry_spec op l = (l', r)" for op l l' x r
    using registry_in_body [of op l l' x] by auto
  show "reg_ok l \<Longrightarrow> reg_ok (fst (registry_spec op l))" for op l
    by (cases op) (simp_all add: reg_ok_Register)
  show "final registry_object op x = None \<Longrightarrow> micro registry_object op l x = (l', x') \<Longrightarrow>
    (if x' = RLStart then 1 else 0) < (if x = RLStart then 1 else (0 :: nat))" for op x l l' x'
    by (cases x) (auto split: prod.splits)
qed

text \<open>
  Goroutines that use a new registry see it as if their calls ran one after the other, and a name keeps its limiter as
  long as it is not registered again.
\<close>

lemma registry_linearizable:
  assumes "rw_reachable registry_object ratelimit_New c"
  shows "\<exists>l. replay registry_spec ratelimit_New (history c) = Some l \<and> (\<not> active c \<longrightarrow> shared c = l)"
  by (rule rlk.linearizable [OF reg_ok_New assms])

lemma name_keeps_limiter:
  assumes "replay registry_spec l h = Some l'" "reg_ok l"
  shows "reg_ok l' \<and> (\<forall>name. (\<nexists>rps burst r. (RCRegister name rps burst, r) \<in> set h) \<longrightarrow>
    map_of (rg_limiters l') name = map_of (rg_limiters l) name)"
  using assms
proof (induction h arbitrary: l)
  case (Cons x h)
  obtain op r where x: "x = (op, r)" by fastforce
  then obtain l1 where l1: "registry_spec op l = (l1, r)" "replay registry_spec l1 h = Some l'"
    using Cons.prems(1) by (auto split: prod.splits if_splits)
  have "reg_ok l1" using rlk.spec_ok [OF Cons.prems(2), of op] l1(1) by simp
  note IH = Cons.IH [OF l1(2) this]
  show ?case
  proof (intro conjI allI impI)
    show "reg_ok l'" using IH by simp
    fix name assume n: "\<nexists>rps burst r. (RCRegister name rps burst, r) \<in> set (x # h)"
    then have "op \<noteq> RCRegister name rps burst" for rps burst using x by (metis list.set_intros(1))
    then have "map_of (rg_limiters l1) name = map_of (rg_limiters l) name"
      using l1(1) by (cases op) (force simp: ratelimit_Register_def map_of_map_put)+
    then show "map_of (rg_limiters l') name = map_of (rg_limiters l) name" using IH n by auto
  qed
qed simp

end
