(* ===== verification/Spec2Isabelle.thy ===== *)
theory Spec2Isabelle
  imports TypesMap CacheContract GormTrace AppRunner SseStream ClaudeCode Loki SqliteMigrations Mysql Postgresql
    HttpUtil Utils Temporal CacheRedis SmallServices
    MapLocks CacheRace UrlQuery Certs JsonIndent
    CacheInterface RateLimit MockRunner ConfigParsing ErrorText Downloads RegistryLocks
begin

text \<open>
  A verification development of the Go library psyb0t/common-go: packages that services share for caching,
  databases, message queues, HTTP, logging and process control. The packages are mostly independent;
  where one calls another the theories import each other the same way.

  \<^bold>\<open>Conventions.\<close> A Go string or byte slice is a HOL \<open>string\<close>, an int is an \<open>int\<close> except where the code
  depends on its width (Utils.max_val is a 64-bit word), a duration or a time is a number of nanoseconds, a
  map is an association list with the iteration order of a loop as an argument, a pointer that may be nil is an
  option. A function that returns a value or an error has a result in \<open>go_error + 'a\<close>, one that returns only an
  error an \<open>err\<close>, which is an option. A method with effects takes and returns the state it works on; a
  panic is None. Code outside the sources (servers, SDKs, the network, the filesystem, the environment of the
  process, the clock) is an argument: a function, a record of functions, or the result the call happens to have. What
  is assumed of such code is a predicate that the theorems name as a hypothesis (\<open>sql_contract\<close>,
  \<open>file_server\<close>, \<open>rand_ok\<close>, \<open>redis_contract\<close>). Logging calls whose only effect is the log are left out.

  \<^bold>\<open>Foundations.\<close>
  \<^item> Prelude: error values with errors.Is and errors.Join, results, built-in maps.
  \<^item> CtxErrors: src/vendor/github.com/psyb0t/ctxerrors and the sentinels of src/errors.
    ErrorText: the call sites that package records and the printed form of its errors; the text of every error of
    a chain is in what is printed.
  \<^item> Gonfiguration: src/vendor/github.com/psyb0t/gonfiguration, which fills a configuration struct from defaults and
    environment variables, with the strconv and time parsers it calls. ConfigParsing: the structs of the packages as the
    fields it is given, and the result of each package's call of Parse. The functions that construct a
    cache, a database client, a server or a log handler take that result as an argument.
  \<^item> Utf8, GoStrings, Json, GoSlice: the parts of the standard library and of the language the code uses, with
    the lemma that decoding an encoded JSON document gives the document back. The parser of Json takes twice the length
    of the text as fuel, which is enough for any document, and refuses what the scanner of encoding/json refuses, a
    document nested more than ten thousand levels deep.
  \<^item> Http: requests, responses and the network for the HTTP clients; src/http/error_codes.go.

  \<^bold>\<open>Data structures and caches.\<close>
  \<^item> TypesMap: the locked map of src/types/map.go, method by method; after any history a lookup gives the last
    write of the key. The interface keyed_store is interpreted on the map.
  \<^item> RWMutex, MapLocks: objects behind a read-write lock of package sync in use by any number of goroutines, with
    the methods as bodies of small steps. An object that keeps the contract locked_object is linearizable,
    its writers run alone and its calls return; the contract is interpreted on the map and on the registry of rate limiters.
  \<^item> CacheMemory: src/cache/memory.go with the list elements in an explicit store; the eviction loop is a
    partial function, since it does not end for a limit below one. CacheLru: the list of entries in order
    of use, and that the implementation refines it. CacheContract: the interface of src/cache/cache.go as the
    contract cache_contract, interpreted on the memory cache; totality, the bound on the size, coherence, and
    the history on which Set hangs.
  \<^item> CacheRace: Get of the memory cache at the level of the links of its list. Alone it does what CacheMemory says;
    but it holds the lock for reading only, and two Gets at once can drop entries from the list.
  \<^item> CacheRedis: src/cache/redis.go and the choice of a cache in src/cache/config.go, with its clean-up function.
    CacheInterface: calls through the interface on either cache. The contract cache_store leaves a cache free to forget
    and a failed write free to have been done; it is interpreted on the two caches together, the Redis one on any
    server that keeps \<open>redis_contract\<close>. Whatever the calls, a Get gives a value that was written under its key.

  \<^bold>\<open>Databases.\<close>
  \<^item> GormLogger, GormRedaction, GormTrace: src/db/gorm_slog_logger.go. The scanners and the redaction loop, that
    the preview of a statement of well-formed pieces does not depend on the values of its literals, that every statement has a
    preview of bounded length, and which query is logged at which level with which fields.
  \<^item> Migrate: src/db/migrate.go on the index, the reader and the runner of the vendored golang-migrate. The
    reader goroutine only sends, so its messages are a list; both reading loops are proved to end.
    MigrateRuns: the messages against the list of pending migrations, and the contract migration_driver of a
    database driver with the effect of a run under it; reliable_driver adds that no statement fails.
  \<^item> Sqlite, SqliteMigrations: src/db/sqlite. The driver keeps the contract on every database that keeps
    \<open>sql_contract\<close> for its own statements and the scripts it is given; from this what MigrateUp, MigrateDown and the version operations leave in the database,
    whichever statement fails. The contracts are interpreted on the driver over a database in memory.
  \<^item> DbPools, Mysql, Postgresql: src/db/mysql and src/db/postgresql with a trace of the pools and connections
    a call takes and gives back, written by the calls that do so. The retry loop of the vendored backoff library runs over a finite list of
    decisions, one per failed attempt; the list is finite because the loop has a maximal time of 30 seconds.
  \<^item> SmallServices: src/db/models and src/db/sqlite/gorm, and package heartbeat.

  \<^bold>\<open>Messages and streams.\<close>
  \<^item> Mq, Nats: src/mq and src/mq/nats; the publisher interface is mq_publisher, interpreted on the NATS client.
    Connections, streams, and which messages a consumer acknowledges.
  \<^item> MqSse, SseStream: src/llm/mqsse. Every event with its JSON, the publisher and the text streamer over
    any publisher of the contract; what a reader of the topic decodes when the broker stores the messages it confirms.

  \<^bold>\<open>HTTP and services.\<close>
  \<^item> RateLimit: src/ratelimit on the token bucket of the vendored golang.org/x/time/rate. A run is a sequence of
    registrations, calls and ends of the contexts of waiting calls, which give their tokens back; the calls on a name
    that go on in any stretch of time are at most the burst and what the rate earns in it. RegistryLocks: the
    registry under its read-write lock, an interpretation of locked_object.
  \<^item> ClaudeCode: src/ai/claudecode. Requests, decoding of responses, upload and download.
    MockRunner: the interface Runner with its two implementations, the client and the generated mock on
    the vendored testify. A mock told to answer as the client does is the client to its caller.
  \<^item> Loki: src/slogging/loki. Push, the handler with every label of an entry, and the attributes and groups of derived handlers, whose slices
    share arrays.
  \<^item> EchoHttp: src/http/echo, its middleware and src/http/oapi-codegen, with the vendored code that decides
    whether a request reaches its handler and which routes the middlewares guard. A request has its body, which the
    security checks read into memory and put back.
  \<^item> HttpUtil: src/utils/httputil; many downloads are a system of steps with a semaphore and an error channel.
    Downloads: the same system with the network and the files; what is in the files when the call returns.
  \<^item> Temporal: src/temporal, and what waiting for a type of workflow comes to under the documented retries.
  \<^item> Utils: urlutil, randutil, fileutil and ptrutil of src/utils. UrlQuery: GetURLWithParams of urlutil, with the
    query values of net/url. Base64, Certs: FileToBase64 of fileutil and package cryptoutil.
    JsonIndent: package jsonutil, against a printer of documents with two blanks per level.
  \<^item> AppRunner: src/app-runner as a system of four goroutines with channels, a wait group, signals and a
    deadline; what a run returns, that no goroutine is stuck, and what a clean shutdown guarantees.

  \<^bold>\<open>What the theorems show.\<close> Besides the behaviour the packages mean to have, several theorems state
  where the code departs from it: a cache limit of zero hangs (CacheContract.memory_set_hangs), concurrent
  Gets lose entries (CacheRace.concurrent_gets_lose_entries), closing the in-memory cache twice panics
  (CacheRedis.memory_cleanup_once), a time to live of zero means for ever on Redis and the present instant in memory
  (CacheRedis.redis_ttl_zero), no handler of log/slog for Loki can be created, because its configuration has a field
  that the parser rejects (ConfigParsing.loki_NewHandler_fails), a literal after a quoted identifier is logged (GormRedaction.quoted_identifier_leak), the error of Stop is dropped
  (AppRunner.stop_error_swallowed), a rune split over two chunks is lost (SseStream.split_rune_is_lost), a block whose start was stored but not confirmed is
  started again (SseStream.unconfirmed_start_repeated), derived
  log handlers overwrite each other (Loki.sibling_handlers_share), connecting to PostgreSQL leaks pools
  (Postgresql.pg_retries_leak), a nil authentication function closes secured operations
  (EchoHttp.no_auth_forbids), a download leaves the tail of a longer file (HttpUtil.download_overwrites), and
  random hexadecimal strings of 16 digits panic (Utils.random_hex_lengths).

  \<^bold>\<open>Not modelled.\<close> The splitting of a URL into its parts, the X.509 parsers and the table of printable runes of the
  standard library are parameters. The token bucket counts in rational numbers where the code has float64, so its theorems
  say nothing of rounding; its runs have fewer events than the bucket earns tokens in the largest duration, 292 years, so
  that no delay is cut off. An authentication function of EchoHttp does not return a list of errors as one error. Of testify the delays, the functions run by an expectation and the order of
  expectations are left out, which no mock of the repository sets. Data races are visible in MapLocks,
  RegistryLocks and CacheRace only; elsewhere a method under a lock is one step. Where another package prints an error the text is a parameter, since errors of other
  libraries are printed too. Left out are constants and build scripts.
\<close>

section \<open>Properties that span components\<close>

text \<open>
  C33 (safety): migrations leave the application's pools alone. Whatever fails, a migration through a
  Mysql or a Postgresql client gives back the connection it reserved and closes the pool it opened
  for itself, and no other.
\<close>

theorem migrations_leave_pools:
  "balanced (fst (snd (Mysql_MigrateUp dm dsn env m path fs w)))
   \<and> balanced (fst (snd (Mysql_MigrateDown dm dsn env m path steps fs w)))
   \<and> balanced (fst (snd (Mysql_MigrateForce dm dsn env m path version fs w)))
   \<and> balanced (fst (snd (pg_MigrateUp dm env p path fs w)))
   \<and> balanced (fst (snd (pg_MigrateDown dm env p path steps fs w)))
   \<and> balanced (fst (snd (pg_MigrateForce dm env p path version fs w)))"
  by (simp add: mysql_migrations_balanced pg_MigrateUp_def pg_MigrateDown_def pg_MigrateForce_def pg_migrations_balanced)

text \<open>
  C34 (safety): the statement that creates a database names exactly the configured database. After the
  opening quote a server reads the name and the closing quote, and nothing is left of the statement,
  whatever quotes and other characters the name has.
\<close>

theorem identifiers_quoted:
  "\<exists>s t. create_database_query name = ''CREATE DATABASE IF NOT EXISTS '' @ CHR 0x60 # s \<and> read_quoted (CHR 0x60) s = Some (name, [])
    \<and> createDatabase_query name = ''CREATE DATABASE '' @ CHR 0x22 # t \<and> read_quoted (CHR 0x22) t = Some (name, [])"
  by (simp add: create_database_query_def createDatabase_query_def read_quoted_escaped [of "[]"])

end
